(* ===== verification/Prelude.thy ===== *)
theory Prelude
  imports Complex_Main "HOL-Library.Word" "HOL-Library.AList"
begin

text \<open>
  Shared vocabulary of the development: the fixed-width integers of the server as \<^typ>\<open>int\<close> with the
  range and the wrap-around written out, the hash containers of the C++ library as association
  lists, and the generic list, option and map lemmas the components use.

  A \<open>std::unordered_map\<close> is an association list with distinct keys.  Its order stands for the
  iteration order of the container, which C++ leaves unspecified: a property is either stated about
  look-ups, key sets and multisets, or holds for every order of the list.
\<close>

named_theorems umap_simps \<open>look-ups after updates of a hash map\<close>
named_theorems inv_intros \<open>operations that keep a component invariant\<close>

subsection \<open>Fixed-width integers\<close>

type_synonym i32 = int
type_synonym i64 = int

definition in_i32 :: "int \<Rightarrow> bool" where
  "in_i32 x \<longleftrightarrow> - (2 ^ 31) \<le> x \<and> x < 2 ^ 31"

definition in_i64 :: "int \<Rightarrow> bool" where
  "in_i64 x \<longleftrightarrow> - (2 ^ 63) \<le> x \<and> x < 2 ^ 63"

text \<open>The two's complement wrap-around of a 64-bit atomic counter.\<close>

definition wrap64 :: "int \<Rightarrow> i64" where
  "wrap64 x = (x + 2 ^ 63) mod 2 ^ 64 - 2 ^ 63"

lemma wrap64_in_range: "in_i64 (wrap64 x)"
proof -
  have "0 \<le> (x + 2 ^ 63) mod 2 ^ 64" and "(x + 2 ^ 63) mod 2 ^ 64 < (2::int) ^ 64"
    by (rule pos_mod_sign, simp) (rule pos_mod_bound, simp)
  then show ?thesis by (simp add: wrap64_def in_i64_def)
qed

lemma wrap64_id [simp]: "in_i64 x \<Longrightarrow> wrap64 x = x"
  by (simp add: wrap64_def in_i64_def)

text \<open>The conversion of a wider integer to \<open>int\<close>.\<close>

definition wrap32 :: "int \<Rightarrow> i32" where
  "wrap32 x = (x + 2 ^ 31) mod 2 ^ 32 - 2 ^ 31"

lemma wrap32_id [simp]: "in_i32 x \<Longrightarrow> wrap32 x = x"
  by (simp add: wrap32_def in_i32_def)

subsection \<open>Hash maps\<close>

type_synonym ('k, 'v) umap = "('k \<times> 'v) list"

abbreviation um_find :: "('k, 'v) umap \<Rightarrow> 'k \<Rightarrow> 'v option" where
  "um_find \<equiv> map_of"

abbreviation um_put :: "'k \<Rightarrow> 'v \<Rightarrow> ('k, 'v) umap \<Rightarrow> ('k, 'v) umap" where
  "um_put \<equiv> AList.update"

abbreviation um_erase :: "'k \<Rightarrow> ('k, 'v) umap \<Rightarrow> ('k, 'v) umap" where
  "um_erase \<equiv> AList.delete"

abbreviation um_keys :: "('k, 'v) umap \<Rightarrow> 'k list" where
  "um_keys m \<equiv> map fst m"

abbreviation um_has :: "('k, 'v) umap \<Rightarrow> 'k \<Rightarrow> bool" where
  "um_has m k \<equiv> map_of m k \<noteq> None"

text \<open>Writing through an iterator: \<open>it->second.field = v\<close> on the entry of one key.\<close>

definition um_modify :: "'k \<Rightarrow> ('v \<Rightarrow> 'v) \<Rightarrow> ('k, 'v) umap \<Rightarrow> ('k, 'v) umap" where
  "um_modify k f m = map (\<lambda>(k', v). if k' = k then (k', f v) else (k', v)) m"

definition um_wf :: "('k, 'v) umap \<Rightarrow> bool" where
  "um_wf m \<longleftrightarrow> distinct (map fst m)"

lemma um_find_put [simp, umap_simps]:
  "map_of (AList.update k v m) k' = (if k' = k then Some v else map_of m k')"
  by (simp add: update_conv')

lemma um_find_erase [simp, umap_simps]:
  "map_of (AList.delete k m) k' = (if k' = k then None else map_of m k')"
  by (simp add: delete_conv')

lemma um_keys_modify [simp]: "map fst (um_modify k f m) = map fst m"
  by (induction m) (auto simp: um_modify_def)

lemma um_modify_keys_set [simp]: "fst ` set (um_modify k f m) = fst ` set m"
  using um_keys_modify [of k f m] by (metis list.set_map)

lemma um_find_modify [simp, umap_simps]:
  "map_of (um_modify k f m) k' = (if k' = k then map_option f (map_of m k) else map_of m k')"
  by (induction m) (auto simp: um_modify_def)

lemma um_modify_Nil [simp]: "um_modify k f [] = []"
  by (simp add: um_modify_def)

lemma um_modify_Cons [simp]:
  "um_modify k f ((k', v) # m) = (k', if k' = k then f v else v) # um_modify k f m"
  by (simp add: um_modify_def)

lemma um_modify_eq_Nil [simp]: "um_modify k f m = [] \<longleftrightarrow> m = []"
  by (cases m) (auto simp: um_modify_def)

lemma um_wf_Nil [simp]: "um_wf []"
  by (simp add: um_wf_def)

lemma um_wf_Cons [simp]: "um_wf ((k, v) # m) \<longleftrightarrow> k \<notin> fst ` set m \<and> um_wf m"
  by (simp add: um_wf_def)

lemma um_wf_put [simp, intro, inv_intros]: "um_wf m \<Longrightarrow> um_wf (AList.update k v m)"
  by (simp add: um_wf_def distinct_update)

lemma um_wf_erase [simp, intro, inv_intros]: "um_wf m \<Longrightarrow> um_wf (AList.delete k m)"
  by (simp add: um_wf_def distinct_delete)

lemma um_wf_modify [simp]: "um_wf (um_modify k f m) = um_wf m"
  by (simp add: um_wf_def)

lemma um_has_keys: "um_has m k \<longleftrightarrow> k \<in> set (um_keys m)"
  by (simp add: map_of_eq_None_iff)

lemma um_find_member: "k \<in> fst ` set m \<Longrightarrow> \<exists>v. map_of m k = Some v"
  using um_has_keys [of m k] by simp

lemma um_find_in: "um_wf m \<Longrightarrow> (k, v) \<in> set m \<longleftrightarrow> map_of m k = Some v"
  by (auto simp: um_wf_def)

lemma um_ball_entries: "um_wf m \<Longrightarrow> (\<forall>(k, v) \<in> set m. P k v) \<longleftrightarrow> (\<forall>k v. map_of m k = Some v \<longrightarrow> P k v)"
  by (auto simp: um_find_in)

lemma um_put_keys_set [simp]: "fst ` set (AList.update k v m) = insert k (fst ` set m)"
proof -
  have "dom (map_of (AList.update k v m)) = insert k (dom (map_of m))"
    by (simp add: update_conv')
  then show ?thesis by (simp add: dom_map_of_conv_image_fst)
qed

lemma um_put_fresh: "k \<notin> fst ` set m \<Longrightarrow> AList.update k v m = m @ [(k, v)]"
  by (induction m) auto

lemma um_put_not_Nil [simp]: "AList.update k v m \<noteq> []"
  by (cases m) auto

subsection \<open>Lists\<close>

lemma length_filter_le_1_unique:
  assumes "length (filter P xs) \<le> 1" and "x \<in> set xs" and "P x" and "y \<in> set xs" and "P y"
  shows "x = y"
proof -
  have "x \<in> set (filter P xs)" and "y \<in> set (filter P xs)" using assms by auto
  with assms(1) show ?thesis by (cases "filter P xs") auto
qed

lemma removeAll_filter_neq: "removeAll x xs = filter (\<lambda>y. y \<noteq> x) xs"
  by (induction xs) auto

end
