(* ===== verification/Packet_Codec.thy ===== *)
theory Packet_Codec
  imports Prelude
begin

text \<open>
  The wire format of \<open>src/src/net/packet.h\<close>, \<open>packet.cpp\<close>, \<open>codec.h\<close> and \<open>codec.cpp\<close>: big-endian
  32-bit fields, the frame \<open>length | msg_id | seq | body\<close>, the encoder and the stream decoder with
  its two exceptions, and \<open>ProtoHelper::Build\<close>.  A byte is an \<^typ>\<open>8 word\<close>, a \<open>uint32_t\<close> a
  \<^typ>\<open>32 word\<close>.  A read through a pointer past the end of the buffer is the value \<open>None\<close>, so that
  memory safety of the decoder is a theorem.
\<close>

unbundle bit_operations_syntax

type_synonym byte = "8 word"
type_synonym u32 = "32 word"
type_synonym Buffer = "byte list"

subsection \<open>Packets and big-endian fields\<close>

definition kPacketHeaderSize :: nat where "kPacketHeaderSize = 12"
definition kPacketMetaSize :: nat where "kPacketMetaSize = 8"
definition kMaxPacketLength :: nat where "kMaxPacketLength = 1024 * 1024"

lemmas packet_consts = kPacketHeaderSize_def kPacketMetaSize_def kMaxPacketLength_def

record Packet =
  plength :: u32
  msg_id :: u32
  seq :: u32
  body :: "byte list"

fun ReadUint32BE :: "byte list \<Rightarrow> u32 option" where
  "ReadUint32BE (p0 # p1 # p2 # p3 # _) =
     Some (push_bit 24 (ucast p0) OR push_bit 16 (ucast p1) OR push_bit 8 (ucast p2) OR ucast p3)"
| "ReadUint32BE _ = None"

definition AppendUint32BE :: "byte list \<Rightarrow> u32 \<Rightarrow> byte list" where
  "AppendUint32BE out value = out @
     [ucast (drop_bit 24 value AND 0xFF), ucast (drop_bit 16 value AND 0xFF),
      ucast (drop_bit 8 value AND 0xFF), ucast (value AND 0xFF)]"

subsection \<open>The codec\<close>

datatype codec_error =
    InvalidPacketLength  \<comment> \<open>\<open>runtime_error("invalid packet length")\<close>\<close>
  | PacketBodyTooLarge   \<comment> \<open>\<open>runtime_error("packet body too large")\<close>\<close>
  | OutOfBoundsRead      \<comment> \<open>a read past the end of the buffer: undefined behaviour\<close>

definition Encode :: "Packet \<Rightarrow> codec_error + byte list" where
  "Encode packet =
     (if length (body packet) > kMaxPacketLength - kPacketMetaSize then Inl PacketBodyTooLarge
      else Inr (AppendUint32BE (AppendUint32BE (AppendUint32BE []
                  (of_nat (kPacketMetaSize + length (body packet))))
                  (msg_id packet)) (seq packet) @ body packet))"

text \<open>
  \<open>Codec::Decode\<close> changes the caller's buffer while it runs, so both outcomes carry the buffer: an
  exception leaves the bytes of the frames decoded before it erased, and the frames are lost.
\<close>

datatype decode_result =
    Decoded "Packet list" Buffer
  | DecodeThrow codec_error Buffer

function decode_loop :: "Packet list \<Rightarrow> Buffer \<Rightarrow> decode_result" where
  "decode_loop packets buffer =
     (if length buffer < kPacketHeaderSize then Decoded packets buffer
      else case ReadUint32BE buffer of
        None \<Rightarrow> DecodeThrow OutOfBoundsRead buffer
      | Some len \<Rightarrow>
          if unat len < kPacketMetaSize \<or> unat len > kMaxPacketLength
          then DecodeThrow InvalidPacketLength buffer
          else if length buffer < unat len + 4 then Decoded packets buffer
          else (case (ReadUint32BE (drop 4 buffer), ReadUint32BE (drop 8 buffer)) of
                  (Some mid, Some sq) \<Rightarrow>
                    decode_loop
                      (packets @ [\<lparr>plength = len, msg_id = mid, seq = sq,
                                   body = take (unat len - 8) (drop 12 buffer)\<rparr>])
                      (drop (4 + unat len) buffer)
                | _ \<Rightarrow> DecodeThrow OutOfBoundsRead buffer))"
  by pat_completeness auto
termination
  by (relation "measure (\<lambda>(packets, buffer). length buffer)") (auto simp: packet_consts)

declare decode_loop.simps [simp del]

definition Decode :: "Buffer \<Rightarrow> decode_result" where
  "Decode buffer = decode_loop [] buffer"

text \<open>\<open>ProtoHelper::Build\<close>; \<open>serialized\<close> is what \<open>SerializeToString\<close> of the message produced.\<close>

definition Build :: "u32 \<Rightarrow> byte list \<Rightarrow> u32 \<Rightarrow> Packet" where
  "Build mid serialized sq =
     \<lparr>plength = of_nat (kPacketMetaSize + length serialized), msg_id = mid, seq = sq,
      body = serialized\<rparr>"

subsection \<open>Big-endian round trip\<close>

lemma mask8_u32: "(0xFF :: u32) = mask 8"
  by (simp add: mask_eq_exp_minus_1)

lemma ucast_byte_of_word:
  "ucast (ucast (drop_bit n (v :: u32) AND 0xFF) :: byte) = (drop_bit n v AND 0xFF :: u32)"
  unfolding mask8_u32 by (rule bit_word_eqI) (auto simp: bit_simps)

lemma word32_bytes_reassemble:
  fixes v :: u32
  shows "push_bit 24 (drop_bit 24 v AND 0xFF) OR push_bit 16 (drop_bit 16 v AND 0xFF)
         OR push_bit 8 (drop_bit 8 v AND 0xFF) OR (v AND 0xFF) = v"
proof (rule bit_word_eqI)
  fix n assume "n < LENGTH(32)"
  then consider "n < 8" | "8 \<le> n \<and> n < 16" | "16 \<le> n \<and> n < 24" | "24 \<le> n \<and> n < 32"
    by fastforce
  then show "bit (push_bit 24 (drop_bit 24 v AND 0xFF) OR push_bit 16 (drop_bit 16 v AND 0xFF)
         OR push_bit 8 (drop_bit 8 v AND 0xFF) OR (v AND 0xFF)) n = bit v n"
    unfolding mask8_u32
    by cases (simp_all add: bit_or_iff bit_and_iff bit_push_bit_iff bit_drop_bit_eq bit_mask_iff less_diff_conv2)
qed

lemma ReadUint32BE_Append [simp]: "ReadUint32BE (AppendUint32BE [] v @ rest) = Some v"
  using word32_bytes_reassemble [of v] ucast_byte_of_word [of 0 v]
  by (simp add: AppendUint32BE_def ucast_byte_of_word)

lemma AppendUint32BE_prefix: "AppendUint32BE out v = out @ AppendUint32BE [] v"
  by (simp add: AppendUint32BE_def)

lemma length_AppendUint32BE [simp]: "length (AppendUint32BE out v) = length out + 4"
  by (simp add: AppendUint32BE_def)

lemma ReadUint32BE_Some: "4 \<le> length xs \<Longrightarrow> \<exists>v. ReadUint32BE xs = Some v"
  by (cases xs rule: ReadUint32BE.cases) auto

lemma ReadUint32BE_append: "ReadUint32BE xs = Some v \<Longrightarrow> ReadUint32BE (xs @ ys) = Some v"
  by (cases xs rule: ReadUint32BE.cases) auto

subsection \<open>Frames\<close>

text \<open>
  One iteration of the decoding loop as a function of its own: what the head of the buffer holds.
\<close>

datatype frame =
    Incomplete
  | BadLength
  | Frame Packet nat  \<comment> \<open>the packet and the number of bytes it occupies\<close>

definition head_frame :: "Buffer \<Rightarrow> frame" where
  "head_frame buffer =
     (if length buffer < 12 then Incomplete
      else let len = the (ReadUint32BE buffer) in
        if unat len < 8 \<or> unat len > 1048576 then BadLength
        else if length buffer < unat len + 4 then Incomplete
        else Frame \<lparr>plength = len, msg_id = the (ReadUint32BE (drop 4 buffer)),
                    seq = the (ReadUint32BE (drop 8 buffer)),
                    body = take (unat len - 8) (drop 12 buffer)\<rparr> (4 + unat len))"

lemma decode_loop_head:
  "decode_loop acc buffer =
     (case head_frame buffer of
        Incomplete \<Rightarrow> Decoded acc buffer
      | BadLength \<Rightarrow> DecodeThrow InvalidPacketLength buffer
      | Frame p n \<Rightarrow> decode_loop (acc @ [p]) (drop n buffer))"
proof (cases "length buffer < 12")
  case True
  then show ?thesis by (simp add: decode_loop.simps [of acc buffer] head_frame_def packet_consts)
next
  case False
  obtain a where a: "ReadUint32BE buffer = Some a"
    using False ReadUint32BE_Some [of buffer] by auto
  obtain b where b: "ReadUint32BE (drop 4 buffer) = Some b"
    using False ReadUint32BE_Some [of "drop 4 buffer"] by force
  obtain c where c: "ReadUint32BE (drop 8 buffer) = Some c"
    using False ReadUint32BE_Some [of "drop 8 buffer"] by force
  show ?thesis
    using False a b c
    by (simp add: decode_loop.simps [of acc buffer] head_frame_def packet_consts Let_def)
qed

lemma head_frame_size: "head_frame buffer = Frame p n \<Longrightarrow> 12 \<le> n \<and> n \<le> length buffer"
  by (auto simp: head_frame_def Let_def split: if_splits)

lemma head_frame_append:
  assumes "head_frame xs \<noteq> Incomplete"
  shows "head_frame (xs @ ys) = head_frame xs"
proof -
  have l: "12 \<le> length xs" using assms by (auto simp: head_frame_def split: if_splits)
  have r: "ReadUint32BE (drop k xs @ ys) = ReadUint32BE (drop k xs)" if "k \<le> 8" for k
    using that l ReadUint32BE_Some [of "drop k xs"] ReadUint32BE_append by fastforce
  from r [of 0] r [of 4] r [of 8] l assms show ?thesis
    by (auto simp: head_frame_def Let_def split: if_splits)
qed

text \<open>Induction over the frames at the head of a buffer.\<close>

lemma frames_induct [case_names Stop Frame]:
  assumes "\<And>b. (\<forall>p n. head_frame b \<noteq> Frame p n) \<Longrightarrow> P b"
    and "\<And>b p n. head_frame b = Frame p n \<Longrightarrow> P (drop n b) \<Longrightarrow> P b"
  shows "P buffer"
proof (induction buffer rule: length_induct)
  case (1 b)
  show ?case
  proof (cases "head_frame b")
    case (Frame p n)
    with head_frame_size have "length (drop n b) < length b" by fastforce
    with 1 assms(2) [OF Frame] show ?thesis by blast
  qed (auto intro: assms(1))
qed

fun add_packets :: "Packet list \<Rightarrow> decode_result \<Rightarrow> decode_result" where
  "add_packets acc (Decoded ps b) = Decoded (acc @ ps) b"
| "add_packets acc (DecodeThrow e b) = DecodeThrow e b"

lemma add_packets_comp [simp]: "add_packets a (add_packets b r) = add_packets (a @ b) r"
  by (cases r) auto

lemma decode_loop_acc: "decode_loop acc buffer = add_packets acc (Decode buffer)"
proof (induction buffer arbitrary: acc rule: frames_induct)
  case (Stop b)
  then show ?case
    by (cases "head_frame b") (auto simp: Decode_def decode_loop_head [of _ b])
next
  case (Frame b p n)
  have step: "decode_loop a b = add_packets (a @ [p]) (Decode (drop n b))" for a
    by (simp add: decode_loop_head [of a b] Frame)
  show ?case by (simp add: step Decode_def [of b])
qed

lemma Decode_head:
  "Decode buffer =
     (case head_frame buffer of
        Incomplete \<Rightarrow> Decoded [] buffer
      | BadLength \<Rightarrow> DecodeThrow InvalidPacketLength buffer
      | Frame p n \<Rightarrow> add_packets [p] (Decode (drop n buffer)))"
  by (cases "head_frame buffer")
     (simp_all add: Decode_def [of buffer] decode_loop_head [of "[]" buffer]
       decode_loop_acc [of "[_]"])


lemma Decode_append:
  "Decode (xs @ ys) =
     (case Decode xs of
        Decoded ps r \<Rightarrow> add_packets ps (Decode (r @ ys))
      | DecodeThrow e r \<Rightarrow> DecodeThrow e (r @ ys))"
proof (induction xs rule: frames_induct)
  case (Stop b)
  show ?case
  proof (cases "head_frame b")
    case Incomplete
    then show ?thesis
      by (cases "Decode (b @ ys)") (simp_all add: Decode_head [of b])
  next
    case BadLength
    then show ?thesis
      using head_frame_append [of b ys] by (simp add: Decode_head [of b] Decode_head [of "b @ ys"])
  next
    case Frame
    with Stop show ?thesis by simp
  qed
next
  case (Frame b p n)
  then have n: "n \<le> length b" using head_frame_size by blast
  have "Decode (b @ ys) = add_packets [p] (Decode (drop n b @ ys))"
    using Frame n head_frame_append [of b ys] by (simp add: Decode_head [of "b @ ys"])
  then show ?case
    using Frame by (simp add: Decode_head [of b] split: decode_result.splits)
qed

subsection \<open>Encoding and decoding are inverse\<close>

text \<open>The packet a peer receives: the length field is the one \<open>Encode\<close> writes.\<close>

definition wire :: "Packet \<Rightarrow> Packet" where
  "wire p = p\<lparr>plength := of_nat (8 + length (body p))\<rparr>"

definition fits :: "Packet \<Rightarrow> bool" where
  "fits p \<longleftrightarrow> length (body p) \<le> 1048568"

definition encoded :: "Packet \<Rightarrow> byte list" where
  "encoded p = AppendUint32BE [] (of_nat (8 + length (body p))) @ AppendUint32BE [] (msg_id p)
                 @ AppendUint32BE [] (seq p) @ body p"

lemma Encode_eq: "Encode p = (if fits p then Inr (encoded p) else Inl PacketBodyTooLarge)"
  by (simp add: Encode_def fits_def encoded_def packet_consts AppendUint32BE_def)

lemma unat_frame_length: "n \<le> 1048568 \<Longrightarrow> unat (of_nat (8 + n) :: u32) = 8 + n"
  by (simp add: unat_of_nat del: of_nat_add)

lemma head_frame_encoded:
  assumes "fits p"
  shows "head_frame (encoded p @ rest) = Frame (wire p) (length (encoded p))"
proof -
  let ?len = "of_nat (8 + length (body p)) :: u32"
  have u: "unat ?len = 8 + length (body p)"
    using assms unat_frame_length by (simp add: fits_def)
  have r0: "ReadUint32BE (encoded p @ rest) = Some ?len"
    by (simp add: encoded_def)
  have d4: "drop 4 (encoded p @ rest) = AppendUint32BE [] (msg_id p) @ AppendUint32BE [] (seq p) @ body p @ rest"
    by (simp add: encoded_def)
  have d8: "drop 8 (encoded p @ rest) = AppendUint32BE [] (seq p) @ body p @ rest"
    by (simp add: encoded_def)
  have d12: "drop 12 (encoded p @ rest) = body p @ rest"
    by (simp add: encoded_def)
  have l: "length (encoded p) = 12 + length (body p)" by (simp add: encoded_def)
  show ?thesis
    using assms unfolding head_frame_def r0 d4 d8 d12
    by (simp add: u l wire_def fits_def Let_def del: of_nat_add)
qed

lemma Decode_encoded_append:
  "fits p \<Longrightarrow> Decode (encoded p @ rest) = add_packets [wire p] (Decode rest)"
  by (simp add: Decode_head [of "encoded p @ rest"] head_frame_encoded)

lemma Decode_Nil [simp]: "Decode [] = Decoded [] []"
  by (simp add: Decode_head [of "[]"] head_frame_def)

text \<open>A proper initial part of a frame is not decoded.\<close>

lemma Decode_partial:
  assumes "fits q" and "encoded q = rest @ missing" and "missing \<noteq> []"
  shows "Decode rest = Decoded [] rest"
proof (cases "head_frame rest = Incomplete")
  case True
  then show ?thesis by (simp add: Decode_head [of rest])
next
  case False
  then have "head_frame rest = Frame (wire q) (length (encoded q))"
    using head_frame_append [OF False, of missing] head_frame_encoded [OF assms(1), of "[]"] assms(2) by simp
  then show ?thesis using head_frame_size assms(2,3) by fastforce
qed

text \<open>A complete frame at the head of a buffer is the encoding of the packet it decodes to.\<close>

lemma Append_Read:
  assumes "ReadUint32BE xs = Some v"
  shows "AppendUint32BE [] v = take 4 xs"
proof -
  obtain a b c d ys where xs: "xs = a # b # c # d # ys"
    using assms by (cases xs rule: ReadUint32BE.cases) auto
  have bits: "ucast (drop_bit k v AND 0xFF) = w"
    if "\<And>n. n < 8 \<Longrightarrow> bit v (k + n) = bit w n" for k and w :: byte
    unfolding mask8_u32
    by (rule bit_word_eqI) (use that in \<open>auto simp: bit_simps\<close>)
  have v: "v = push_bit 24 (ucast a) OR push_bit 16 (ucast b) OR push_bit 8 (ucast c) OR ucast d"
    using assms xs by simp
  have bv: "bit v n = (24 \<le> n \<and> n < 32 \<and> bit a (n - 24) \<or> 16 \<le> n \<and> n < 32 \<and> bit b (n - 16) \<or>
                       8 \<le> n \<and> n < 32 \<and> bit c (n - 8) \<or> n < 32 \<and> bit d n)" for n
    unfolding v by (auto simp: bit_simps)
  have high: "bit w n \<Longrightarrow> n < 8" for w :: byte and n
    using bit_imp_le_length [of w n] by simp
  have "ucast (drop_bit 24 v AND 0xFF) = a" "ucast (drop_bit 16 v AND 0xFF) = b"
       "ucast (drop_bit 8 v AND 0xFF) = c" "ucast (drop_bit 0 v AND 0xFF) = d"
    by (rule bits; auto simp: bv dest: high)+
  then show ?thesis by (simp add: AppendUint32BE_def xs)
qed


lemma head_frame_FrameD:
  assumes "head_frame b = Frame p n"
  shows "fits p" and "wire p = p" and "take n b = encoded p" and "n = length (encoded p)"
proof -
  obtain v where v: "ReadUint32BE b = Some v"
    using assms ReadUint32BE_Some [of b] by (auto simp: head_frame_def split: if_splits)
  have l: "12 \<le> length b" and len: "8 \<le> unat v" "unat v \<le> 1048576" "unat v + 4 \<le> length b"
    and p: "p = \<lparr>plength = v, msg_id = the (ReadUint32BE (drop 4 b)),
                 seq = the (ReadUint32BE (drop 8 b)), body = take (unat v - 8) (drop 12 b)\<rparr>"
    and n: "n = 4 + unat v"
    using assms v by (auto simp: head_frame_def Let_def split: if_splits)
  have lb: "length (body p) = unat v - 8" using len by (simp add: p)
  have lv: "of_nat (8 + length (body p)) = v" using len lb by simp
  obtain m where m: "ReadUint32BE (drop 4 b) = Some m"
    using l ReadUint32BE_Some [of "drop 4 b"] by force
  obtain q where q: "ReadUint32BE (drop 8 b) = Some q"
    using l ReadUint32BE_Some [of "drop 8 b"] by force
  show "fits p" using lb len by (simp add: fits_def)
  show "wire p = p" using lv by (simp add: wire_def p)
  have "encoded p = take 4 b @ take 4 (drop 4 b) @ take 4 (drop 8 b) @ take (unat v - 8) (drop 12 b)"
    unfolding encoded_def lv using Append_Read [OF v] Append_Read [OF m] Append_Read [OF q]
    by (simp add: p m q)
  also have "\<dots> = take (4 + (4 + (4 + (unat v - 8)))) b"
    unfolding take_add drop_drop by simp
  also have "4 + (4 + (4 + (unat v - 8))) = n" using len n by simp
  finally show t: "take n b = encoded p" by simp
  show "n = length (encoded p)" using t [symmetric] len n by simp
qed

lemma head_frame_Incomplete_length:
  "head_frame b = Incomplete \<Longrightarrow> length b < 1048580"
  by (auto simp: head_frame_def Let_def split: if_splits)

lemma Decode_sound:
  "Decode b = Decoded ps r \<Longrightarrow>
     b = concat (map encoded ps) @ r \<and> (\<forall>p\<in>set ps. fits p \<and> wire p = p) \<and> head_frame r = Incomplete"
proof (induction b arbitrary: ps rule: frames_induct)
  case (Stop b)
  then show ?case by (cases "head_frame b") (auto simp: Decode_head [of b])
next
  case (Frame b p n)
  then obtain qs where qs: "Decode (drop n b) = Decoded qs r" "ps = p # qs"
    by (cases "Decode (drop n b)") (auto simp: Decode_head [of b])
  note f = head_frame_FrameD [OF Frame(1)]
  have "b = take n b @ drop n b" by simp
  with Frame.IH [OF qs(1)] f qs(2) show ?case by simp
qed

subsection \<open>Properties\<close>

text \<open>C8. Framing round trip: any sequence of packets whose bodies fit, encoded back to back in one
  TCP stream and followed by any bytes, decodes to exactly these packets in order, with their
  \<open>msg_id\<close>, \<open>seq\<close> and body unchanged, and the remaining bytes are decoded as if they stood alone.  Is the
  rest a partial frame, a proper initial part of the encoding of one more packet, then all of it stays
  in the buffer for the next read.\<close>

theorem Decode_Encode_stream:
  assumes "\<forall>p\<in>set ps. length (body p) \<le> kMaxPacketLength - kPacketMetaSize"
  defines "stream \<equiv> concat (map (\<lambda>p. projr (Encode p)) ps)"
    and "decoded \<equiv> map (\<lambda>p. p\<lparr>plength := of_nat (kPacketMetaSize + length (body p))\<rparr>) ps"
  shows "Decode (stream @ rest) = add_packets decoded (Decode rest) \<and>
    (\<forall>q missing. length (body q) \<le> kMaxPacketLength - kPacketMetaSize \<and> projr (Encode q) = rest @ missing \<and> missing \<noteq> [] \<longrightarrow>
       Decode (stream @ rest) = Decoded decoded rest)"
proof -
  have "\<forall>p\<in>set ps. fits p" using assms by (simp add: fits_def packet_consts)
  then have "Decode (concat (map encoded ps) @ rest) = add_packets (map wire ps) (Decode rest)"
    by (induction ps) (cases "Decode rest", auto simp: Decode_encoded_append)
  moreover have "map (\<lambda>p. projr (Encode p)) ps = map encoded ps"
    using \<open>\<forall>p\<in>set ps. fits p\<close> by (auto simp: Encode_eq)
  moreover have "(\<lambda>p. p\<lparr>plength := of_nat (kPacketMetaSize + length (body p))\<rparr>) = wire"
    by (auto simp: wire_def packet_consts)
  ultimately have d: "Decode (stream @ rest) = add_packets decoded (Decode rest)"
    by (simp only: stream_def decoded_def)
  moreover have "Decode rest = Decoded [] rest"
    if "length (body q) \<le> kMaxPacketLength - kPacketMetaSize" "projr (Encode q) = rest @ missing" "missing \<noteq> []" for q missing
  proof -
    have "fits q" using that(1) by (simp add: fits_def packet_consts)
    then show ?thesis using that(2,3) by (intro Decode_partial [of q _ missing]) (simp_all add: Encode_eq)
  qed
  ultimately show ?thesis by auto
qed

text \<open>One packet and the first six bytes of a second one.\<close>

theorem Decode_Encode_stream_witness:
  "Decode (concat (map (\<lambda>p. projr (Encode p))
       [\<lparr>plength = 8, msg_id = 1001, seq = 7, body = [104, 101, 108, 108, 111]\<rparr>]) @ [0, 0, 0, 9, 0, 0])
     = Decoded [\<lparr>plength = 13, msg_id = 1001, seq = 7, body = [104, 101, 108, 108, 111]\<rparr>] [0, 0, 0, 9, 0, 0]"
proof -
  let ?q = "\<lparr>plength = 0, msg_id = 1004, seq = 0, body = [8]\<rparr> :: Packet"
  have "projr (Encode ?q) = [0, 0, 0, 9, 0, 0] @ [3, 236, 0, 0, 0, 0, 8]"
    by (simp add: Encode_def AppendUint32BE_def packet_consts)
  then show ?thesis
    using Decode_Encode_stream
      [of "[\<lparr>plength = 8, msg_id = 1001, seq = 7, body = [104, 101, 108, 108, 111]\<rparr>]" "[0, 0, 0, 9, 0, 0]", THEN conjunct2,
        rule_format, of ?q "[3, 236, 0, 0, 0, 0, 8]"]
    by (simp add: packet_consts)
qed

text \<open>C25. Soundness and memory safety of the decoder: it never reads out of bounds; when it returns,
  the buffer was exactly the encodings of the returned packets followed by the bytes kept, every
  packet's length field is the length of its body plus 8 and fits the limit, and the half packet kept
  is shorter than the largest frame.\<close>

theorem Decode_safe_and_sound:
  "(\<forall>r. Decode b \<noteq> DecodeThrow OutOfBoundsRead r) \<and>
   (case Decode b of
      Decoded ps r \<Rightarrow>
        (\<exists>bs. map Encode ps = map Inr bs \<and> b = concat bs @ r) \<and>
        list_all (\<lambda>p. unat (plength p) = kPacketMetaSize + length (body p)) ps \<and>
        length r < 4 + kMaxPacketLength
    | DecodeThrow e r \<Rightarrow> e = InvalidPacketLength \<and> (\<exists>c. b = c @ r))"
proof -
  have safe: "\<exists>c. b = c @ r \<and> e = InvalidPacketLength" if "Decode b = DecodeThrow e r" for e r
    using that
  proof (induction b rule: frames_induct)
    case (Stop b)
    then show ?case by (cases "head_frame b") (auto simp: Decode_head [of b])
  next
    case (Frame b p n)
    then obtain c where "drop n b = c @ r" "e = InvalidPacketLength"
      by (cases "Decode (drop n b)") (auto simp: Decode_head [of b])
    then have "b = (take n b @ c) @ r" by (metis append_assoc append_take_drop_id)
    with \<open>e = _\<close> show ?case by blast
  qed
  show ?thesis
  proof (cases "Decode b")
    case (Decoded ps r)
    note d = Decode_sound [OF Decoded]
    then have "map Encode ps = map Inr (map encoded ps) \<and> b = concat (map encoded ps) @ r"
      by (simp add: Encode_eq)
    then have "\<exists>bs. map Encode ps = map Inr bs \<and> b = concat bs @ r" by blast
    moreover have "unat (plength p) = 8 + length (body p)" if "p \<in> set ps" for p
    proof -
      have "plength p = plength (wire p)" using d that by simp
      then show ?thesis using d that unat_frame_length [of "length (body p)"]
        by (simp add: wire_def fits_def)
    qed
    ultimately show ?thesis
      using d Decoded head_frame_Incomplete_length [of r]
      by (simp add: packet_consts list_all_iff)
  next
    case (DecodeThrow e r)
    with safe show ?thesis by fastforce
  qed
qed

end
