(* ===== verification/Match_Queue.thy ===== *)
theory Match_Queue
  imports Prelude "HOL-Library.Multiset"
begin

text \<open>
  The match queue of \<open>src/src/match/match_queue.h\<close> and \<open>match_queue.cpp\<close>: a deque that keeps the
  order of arrival and a hash set that rejects a second entry of the same player.  Every method holds
  the queue's mutex from its first to its last line, so a concurrent execution is a sequence of the
  operations below; \<open>mq_run\<close> is any such sequence.
\<close>

record match_queue =
  queue :: "i64 list"
  in_queue :: "i64 set"

definition MatchQueue_empty :: match_queue where
  "MatchQueue_empty = \<lparr>queue = [], in_queue = {}\<rparr>"

definition MatchQueue_Push :: "i64 \<Rightarrow> match_queue \<Rightarrow> bool \<times> match_queue" where
  "MatchQueue_Push player_id q =
     (if player_id = 0 \<or> player_id \<in> in_queue q then (False, q)
      else (True, q\<lparr>queue := queue q @ [player_id], in_queue := insert player_id (in_queue q)\<rparr>))"

definition MatchQueue_Remove :: "i64 \<Rightarrow> match_queue \<Rightarrow> bool \<times> match_queue" where
  "MatchQueue_Remove player_id q =
     (if player_id \<notin> in_queue q then (False, q)
      else (True, q\<lparr>queue := removeAll player_id (queue q), in_queue := in_queue q - {player_id}\<rparr>))"

definition MatchQueue_Contains :: "i64 \<Rightarrow> match_queue \<Rightarrow> bool" where
  "MatchQueue_Contains player_id q \<longleftrightarrow> player_id \<in> in_queue q"

text \<open>The loop of \<open>TryPopN\<close>; \<open>front\<close> of an empty deque is never reached (\<open>pop_loop_result\<close>).\<close>

fun pop_loop :: "nat \<Rightarrow> i64 list \<Rightarrow> match_queue \<Rightarrow> i64 list \<times> match_queue" where
  "pop_loop 0 result q = (result, q)"
| "pop_loop (Suc n) result q =
     (case queue q of
        [] \<Rightarrow> (result, q)
      | player_id # rest \<Rightarrow>
          pop_loop n (result @ [player_id])
            (q\<lparr>queue := rest, in_queue := in_queue q - {player_id}\<rparr>))"

definition MatchQueue_TryPopN :: "nat \<Rightarrow> match_queue \<Rightarrow> i64 list \<times> match_queue" where
  "MatchQueue_TryPopN n q = (if length (queue q) < n then ([], q) else pop_loop n [] q)"

definition MatchQueue_PopN :: "nat \<Rightarrow> match_queue \<Rightarrow> i64 list \<times> match_queue" where
  "MatchQueue_PopN n q = MatchQueue_TryPopN n q"

definition MatchQueue_Size :: "match_queue \<Rightarrow> nat" where
  "MatchQueue_Size q = length (queue q)"

subsection \<open>Invariant\<close>

definition mq_inv :: "match_queue \<Rightarrow> bool" where
  "mq_inv q \<longleftrightarrow> distinct (queue q) \<and> in_queue q = set (queue q) \<and> 0 \<notin> set (queue q)"

lemma pop_loop_result:
  assumes "n \<le> length (queue q)"
  shows "pop_loop n acc q =
    (acc @ take n (queue q),
     q\<lparr>queue := drop n (queue q), in_queue := in_queue q - set (take n (queue q))\<rparr>)"
  using assms
proof (induction n arbitrary: acc q)
  case 0
  show ?case by simp
next
  case (Suc n)
  then obtain p rest where "queue q = p # rest" by (cases "queue q") auto
  with Suc show ?case by (auto simp: Diff_insert2 [symmetric])
qed

lemma TryPopN_eq:
  "MatchQueue_TryPopN n q =
     (if length (queue q) < n then ([], q)
      else (take n (queue q),
            q\<lparr>queue := drop n (queue q), in_queue := in_queue q - set (take n (queue q))\<rparr>))"
  by (simp add: MatchQueue_TryPopN_def pop_loop_result)

lemma mq_inv_empty [simp]: "mq_inv MatchQueue_empty"
  by (simp add: mq_inv_def MatchQueue_empty_def)

lemma mq_inv_Push [inv_intros]: "mq_inv q \<Longrightarrow> mq_inv (snd (MatchQueue_Push p q))"
  by (auto simp: mq_inv_def MatchQueue_Push_def)

lemma mq_inv_Remove [inv_intros]: "mq_inv q \<Longrightarrow> mq_inv (snd (MatchQueue_Remove p q))"
  by (auto simp: mq_inv_def MatchQueue_Remove_def distinct_removeAll)

lemma set_drop_distinct: "distinct xs \<Longrightarrow> set (drop n xs) = set xs - set (take n xs)"
proof -
  assume "distinct xs"
  then have "set (take n xs) \<inter> set (drop n xs) = {}"
    by (metis append_take_drop_id distinct_append)
  moreover have "set xs = set (take n xs) \<union> set (drop n xs)"
    by (metis append_take_drop_id set_append)
  ultimately show ?thesis by blast
qed

lemma mq_inv_TryPopN [inv_intros]: "mq_inv q \<Longrightarrow> mq_inv (snd (MatchQueue_TryPopN n q))"
  by (auto simp: mq_inv_def TryPopN_eq set_drop_distinct dest: in_set_dropD)

subsection \<open>The interface the match service relies on\<close>

locale match_pool =
  fixes push :: "i64 \<Rightarrow> 'q \<Rightarrow> bool \<times> 'q"
    and remove :: "i64 \<Rightarrow> 'q \<Rightarrow> bool \<times> 'q"
    and contains :: "i64 \<Rightarrow> 'q \<Rightarrow> bool"
    and try_pop :: "nat \<Rightarrow> 'q \<Rightarrow> i64 list \<times> 'q"
    and waiting :: "'q \<Rightarrow> i64 list"
    and invar :: "'q \<Rightarrow> bool"
  assumes waiting_distinct: "invar q \<Longrightarrow> distinct (waiting q) \<and> 0 \<notin> set (waiting q)"
    and contains_iff: "invar q \<Longrightarrow> contains p q \<longleftrightarrow> p \<in> set (waiting q)"
    and push_ok: "invar q \<Longrightarrow> p \<noteq> 0 \<Longrightarrow> \<not> contains p q \<Longrightarrow>
          fst (push p q) \<and> waiting (snd (push p q)) = waiting q @ [p]"
    and push_dup: "invar q \<Longrightarrow> p = 0 \<or> contains p q \<Longrightarrow> push p q = (False, q)"
    and remove_eq: "invar q \<Longrightarrow> fst (remove p q) = contains p q \<and>
          waiting (snd (remove p q)) = filter (\<lambda>x. x \<noteq> p) (waiting q)"
    and pop_enough: "invar q \<Longrightarrow> n \<le> length (waiting q) \<Longrightarrow>
          fst (try_pop n q) = take n (waiting q) \<and> waiting (snd (try_pop n q)) = drop n (waiting q)"
    and pop_short: "invar q \<Longrightarrow> length (waiting q) < n \<Longrightarrow> try_pop n q = ([], q)"
    and invar_push: "invar q \<Longrightarrow> invar (snd (push p q))"
    and invar_remove: "invar q \<Longrightarrow> invar (snd (remove p q))"
    and invar_pop: "invar q \<Longrightarrow> invar (snd (try_pop n q))"
begin

lemma pop_length: "invar q \<Longrightarrow> fst (try_pop n q) \<noteq> [] \<Longrightarrow> length (fst (try_pop n q)) = n"
  using pop_enough [of q n] pop_short [of q n] by (cases "length (waiting q) < n") auto

lemma pop_conserves: "invar q \<Longrightarrow> fst (try_pop n q) @ waiting (snd (try_pop n q)) = waiting q"
  using pop_enough [of q n] pop_short [of q n] by (cases "length (waiting q) < n") auto

lemma pop_distinct: "invar q \<Longrightarrow> distinct (fst (try_pop n q)) \<and> 0 \<notin> set (fst (try_pop n q))"
  using pop_conserves [of q n] waiting_distinct [of q] by (metis Un_iff distinct_append set_append)

lemma popped_left:
  assumes "invar q" and "p \<in> set (fst (try_pop n q))"
  shows "contains p q" and "\<not> contains p (snd (try_pop n q))"
proof -
  have e: "fst (try_pop n q) @ waiting (snd (try_pop n q)) = waiting q"
    using assms(1) by (rule pop_conserves)
  have d: "distinct (waiting q)" using assms(1) waiting_distinct by blast
  show "contains p q" using assms contains_iff e by (metis Un_iff set_append)
  have "p \<notin> set (waiting (snd (try_pop n q)))"
    using assms(2) d e by (metis disjoint_iff distinct_append)
  then show "\<not> contains p (snd (try_pop n q))"
    using contains_iff [OF invar_pop [OF assms(1)]] by blast
qed

lemma pop_shrinks: "invar q \<Longrightarrow> fst (try_pop n q) \<noteq> [] \<Longrightarrow>
    length (waiting (snd (try_pop n q))) < length (waiting q)"
  using pop_conserves [of q n] by (metis length_append length_greater_0_conv less_add_same_cancel2)

lemma removed_left: "invar q \<Longrightarrow> \<not> contains p (snd (remove p q))"
  using remove_eq [of q p] contains_iff [OF invar_remove, of q p p] by simp

end

lemmas mq_op_defs = MatchQueue_Push_def MatchQueue_Remove_def MatchQueue_Contains_def TryPopN_eq

interpretation mq: match_pool MatchQueue_Push MatchQueue_Remove MatchQueue_Contains
    MatchQueue_TryPopN queue mq_inv
proof (unfold_locales, goal_cases)
  case (1 q) then show ?case by (simp add: mq_inv_def)
next
  case (2 q p) then show ?case by (simp add: mq_inv_def mq_op_defs)
next
  case (3 q p) then show ?case by (simp add: mq_op_defs)
next
  case (4 q p) then show ?case by (auto simp: mq_op_defs)
next
  case (5 q p)
  then have "p \<notin> in_queue q \<Longrightarrow> filter (\<lambda>x. x \<noteq> p) (queue q) = queue q"
    by (auto simp: mq_inv_def filter_id_conv)
  then show ?case by (simp add: mq_op_defs removeAll_filter_neq)
next
  case (6 q n) then show ?case by (simp add: mq_op_defs)
next
  case (7 q n) then show ?case by (simp add: mq_op_defs)
next
  case (8 q p) then show ?case by (rule mq_inv_Push)
next
  case (9 q p) then show ?case by (rule mq_inv_Remove)
next
  case (10 q n) then show ?case by (rule mq_inv_TryPopN)
qed

subsection \<open>Every interleaving of queue operations\<close>

datatype mq_op = OpPush i64 | OpRemove i64 | OpTryPopN nat

text \<open>What a run accepted, cancelled and handed out, in order, and \<open>kept\<close>, the accepted entries without the
  cancelled ones, in order of arrival.  A cancellation takes out the latest entry of its player, since
  the earlier ones have left the queue before the player could enter again.\<close>

record mq_trace =
  pushed :: "i64 list"
  removed :: "i64 list"
  popped :: "i64 list"
  kept :: "i64 list"

definition drop_latest :: "i64 \<Rightarrow> i64 list \<Rightarrow> i64 list" where
  "drop_latest p xs = rev (remove1 p (rev xs))"

fun mq_step :: "mq_op \<Rightarrow> match_queue \<times> mq_trace \<Rightarrow> match_queue \<times> mq_trace" where
  "mq_step (OpPush p) (q, t) =
     (case MatchQueue_Push p q of (ok, q') \<Rightarrow> (q', if ok then t\<lparr>pushed := pushed t @ [p], kept := kept t @ [p]\<rparr> else t))"
| "mq_step (OpRemove p) (q, t) =
     (case MatchQueue_Remove p q of (ok, q') \<Rightarrow> (q', if ok then t\<lparr>removed := removed t @ [p], kept := drop_latest p (kept t)\<rparr> else t))"
| "mq_step (OpTryPopN n) (q, t) =
     (case MatchQueue_TryPopN n q of (ps, q') \<Rightarrow> (q', t\<lparr>popped := popped t @ ps\<rparr>))"

fun mq_run :: "mq_op list \<Rightarrow> match_queue \<times> mq_trace \<Rightarrow> match_queue \<times> mq_trace" where
  "mq_run [] s = s"
| "mq_run (op # ops) s = mq_run ops (mq_step op s)"

definition mq_account :: "match_queue \<times> mq_trace \<Rightarrow> bool" where
  "mq_account = (\<lambda>(q, t). mq_inv q \<and>
     mset (pushed t) = mset (removed t) + mset (popped t) + mset (queue q) \<and>
     kept t = popped t @ queue q)"

lemma drop_latest_waiting:
  assumes "distinct ws" and "p \<in> set ws"
  shows "drop_latest p (xs @ ws) = xs @ removeAll p ws"
proof -
  have "remove1 p (rev ws) = removeAll p (rev ws)" using assms(1) by (simp add: distinct_remove1_removeAll)
  then show ?thesis using assms(2) by (simp add: drop_latest_def remove1_append removeAll_filter_not_eq rev_filter)
qed

lemma mset_removeAll_distinct:
  "distinct xs \<Longrightarrow> p \<in> set xs \<Longrightarrow> add_mset p (mset (removeAll p xs)) = mset xs"
  by (induction xs) (auto simp: removeAll_id)

lemma mq_account_step: "mq_account s \<Longrightarrow> mq_account (mq_step op s)"
proof (cases s)
  case (Pair q t)
  assume a: "mq_account s"
  then have inv: "mq_inv q" by (simp add: mq_account_def Pair)
  show ?thesis
  proof (cases op)
    case (OpPush p)
    then show ?thesis using a mq_inv_Push [OF inv, of p]
      by (auto simp: Pair mq_account_def MatchQueue_Push_def)
  next
    case (OpRemove p)
    then show ?thesis using a mq_inv_Remove [OF inv, of p] mset_removeAll_distinct [of "queue q" p]
      by (auto simp: Pair mq_account_def MatchQueue_Remove_def mq_inv_def drop_latest_waiting)
  next
    case (OpTryPopN n)
    then show ?thesis using a mq_inv_TryPopN [OF inv, of n]
      by (auto simp: Pair mq_account_def TryPopN_eq simp flip: mset_append)
  qed
qed

lemma mq_account_run: "mq_account s \<Longrightarrow> mq_account (mq_run ops s)"
proof (induction ops arbitrary: s)
  case (Cons op ops)
  show ?case using Cons.IH [OF mq_account_step [OF Cons.prems]] by simp
qed simp

definition mq_start :: "match_queue \<times> mq_trace" where
  "mq_start = (MatchQueue_empty, \<lparr>pushed = [], removed = [], popped = [], kept = []\<rparr>)"

lemma mq_account_start: "mq_account mq_start"
  by (simp add: mq_account_def mq_start_def MatchQueue_empty_def mq_inv_def)

subsection \<open>Properties\<close>

text \<open>C23. Whatever order the threads' queue operations are interleaved in, no player is lost,
  duplicated or handed to two rooms: the accepted players are exactly, as a multiset, those
  cancelled, those handed out and those still waiting; nobody waits twice, player 0 never waits, and
  the deque and the hash set always agree.  The order is that of arrival, also with cancellations: the
  accepted entries, each cancelled one taken out of its place, are exactly those handed out so far, in
  the order they were, followed by the deque from front to back.\<close>

theorem MatchQueue_conserves_and_fifo:
  "let (q, t) = mq_run ops mq_start in
     mset (pushed t) = mset (removed t) + mset (popped t) + mset (queue q) \<and>
     distinct (queue q) \<and> in_queue q = set (queue q) \<and> 0 \<notin> set (queue q) \<and>
     kept t = popped t @ queue q"
  using mq_account_run [OF mq_account_start, of ops]
  by (auto simp: mq_account_def mq_inv_def split: prod.splits)

theorem MatchQueue_conserves_and_fifo_witness:
  "let ops = [OpPush 1, OpPush 1, OpPush 2, OpPush 3, OpPush 4, OpTryPopN 1, OpRemove 3, OpPush 1]; (q, t) = mq_run ops mq_start in
     queue q = [2, 4, 1] \<and> pushed t = [1, 2, 3, 4, 1] \<and> removed t = [3] \<and> popped t = [1] \<and> kept t = [1, 2, 4, 1] \<and>
     kept t = popped t @ queue q"
  using MatchQueue_conserves_and_fifo [of "[OpPush 1, OpPush 1, OpPush 2, OpPush 3, OpPush 4, OpTryPopN 1, OpRemove 3, OpPush 1]"]
  by (simp add: mq_start_def MatchQueue_empty_def MatchQueue_Push_def MatchQueue_Remove_def TryPopN_eq drop_latest_def)

text \<open>Matching takes whole groups or nothing: \<open>TryPopN(n)\<close> with fewer than \<open>n\<close> players waiting
  returns nobody and leaves the queue as it is; otherwise it returns the \<open>n\<close> players waiting longest,
  all different, none of whom is then still waiting.\<close>

theorem MatchQueue_TryPopN_all_or_nothing:
  assumes "mq_inv q"
  shows "if length (queue q) < n then MatchQueue_TryPopN n q = ([], q)
         else \<exists>q'. MatchQueue_TryPopN n q = (take n (queue q), q') \<and> queue q' = drop n (queue q) \<and>
                distinct (take n (queue q)) \<and>
                (\<forall>p\<in>set (take n (queue q)). \<not> MatchQueue_Contains p q')"
proof (cases "length (queue q) < n")
  case True
  with mq.pop_short [OF assms] show ?thesis by simp
next
  case False
  then have "fst (MatchQueue_TryPopN n q) = take n (queue q)"
    and "queue (snd (MatchQueue_TryPopN n q)) = drop n (queue q)"
    using mq.pop_enough [OF assms, of n] by auto
  with False mq.popped_left(2) [OF assms, of _ n] mq.pop_distinct [OF assms, of n] show ?thesis
    by (cases "MatchQueue_TryPopN n q") auto
qed


theorem MatchQueue_TryPopN_all_or_nothing_witness:
  "MatchQueue_TryPopN 2 \<lparr>queue = [1, 2, 3], in_queue = {1, 2, 3}\<rparr> = ([1, 2], \<lparr>queue = [3], in_queue = {3}\<rparr>)
   \<and> \<not> MatchQueue_Contains 1 (snd (MatchQueue_TryPopN 2 \<lparr>queue = [1, 2, 3], in_queue = {1, 2, 3}\<rparr>))"
  using MatchQueue_TryPopN_all_or_nothing [of "\<lparr>queue = [1, 2, 3], in_queue = {1, 2, 3}\<rparr>" 2]
  by (simp add: mq_inv_def TryPopN_eq MatchQueue_Contains_def insert_Diff_if)

end
