(* ===== verification/Game_Room.thy ===== *)
theory Game_Room
  imports Prelude
begin

text \<open>
  One battle: \<open>src/src/game/game_state.h\<close>, \<open>input_buffer.h\<close>, \<open>input_buffer.cpp\<close>, \<open>game_room.h\<close>,
  \<open>game_room.cpp\<close>, \<open>state_sync.h\<close> and \<open>state_sync.cpp\<close>.

  Coordinates are \<open>float\<close>.  The arithmetic the code uses on them is the record \<open>float_ops\<close>, a
  parameter of the definitions, so the theorems hold for IEEE single precision with any rounding and
  any \<open>std::hypot\<close>; where a theorem needs laws of the arithmetic (how NaN behaves) they are its
  hypotheses.  \<open>hp\<close> is an \<open>int32_t\<close>; it stays between 0 and 100, so no operation on it overflows.
\<close>

subsection \<open>Data\<close>

record 'f float_ops =
  flit :: "rat \<Rightarrow> 'f"  \<comment> \<open>the value of a literal such as \<open>0.6f\<close>\<close>
  fneg :: "'f \<Rightarrow> 'f"
  fadd :: "'f \<Rightarrow> 'f \<Rightarrow> 'f"
  fsub :: "'f \<Rightarrow> 'f \<Rightarrow> 'f"
  fmul :: "'f \<Rightarrow> 'f \<Rightarrow> 'f"
  fless :: "'f \<Rightarrow> 'f \<Rightarrow> bool"
  fle :: "'f \<Rightarrow> 'f \<Rightarrow> bool"
  fhypot :: "'f \<Rightarrow> 'f \<Rightarrow> 'f"

text \<open>\<open>std::clamp\<close>, by its two comparisons.\<close>

definition fclamp :: "'f float_ops \<Rightarrow> 'f \<Rightarrow> 'f \<Rightarrow> 'f \<Rightarrow> 'f" where
  "fclamp F v lo hi = (if fless F v lo then lo else if fless F hi v then hi else v)"

record 'f EntityState =
  ent_player_id :: i64
  ent_x :: 'f
  ent_y :: 'f
  ent_hp :: i32
  ent_alive :: bool

record 'f GameState =
  frame_id :: i64
  gs_players :: "(i64, 'f EntityState) umap"

record 'f InputCommand =
  in_player_id :: i64
  input_seq :: i64
  move_x :: 'f
  move_y :: 'f
  fire :: bool
  timestamp_ms :: i64

type_synonym 'f InputBuffer = "'f InputCommand list"

definition InputBuffer_Push :: "'f InputCommand \<Rightarrow> 'f InputBuffer \<Rightarrow> 'f InputBuffer" where
  "InputBuffer_Push input inputs = inputs @ [input]"

definition InputBuffer_PopAll :: "'f InputBuffer \<Rightarrow> 'f InputCommand list \<times> 'f InputBuffer" where
  "InputBuffer_PopAll inputs = (inputs, [])"

record 'f GameRoom =
  gr_room_id :: i64
  gr_state :: "'f GameState"
  input_buffer :: "'f InputBuffer"
  game_over :: bool
  winner_id :: i64

abbreviation gr_players :: "'f GameRoom \<Rightarrow> (i64, 'f EntityState) umap" where
  "gr_players g \<equiv> gs_players (gr_state g)"

abbreviation set_players :: "(i64, 'f EntityState) umap \<Rightarrow> 'f GameRoom \<Rightarrow> 'f GameRoom" where
  "set_players ps g \<equiv> g\<lparr>gr_state := (gr_state g)\<lparr>gs_players := ps\<rparr>\<rparr>"

subsection \<open>Operations\<close>

definition GameRoom_new :: "i64 \<Rightarrow> 'f GameRoom" where
  "GameRoom_new rid = \<lparr>gr_room_id = rid, gr_state = \<lparr>frame_id = 0, gs_players = []\<rparr>,
     input_buffer = [], game_over = False, winner_id = 0\<rparr>"

fun spawn_players :: "'f float_ops \<Rightarrow> 'f \<Rightarrow> i64 list \<Rightarrow> (i64, 'f EntityState) umap
    \<Rightarrow> (i64, 'f EntityState) umap" where
  "spawn_players F spawn_x [] ps = ps"
| "spawn_players F spawn_x (pid # pids) ps =
     spawn_players F (fadd F spawn_x (flit F 5)) pids
       (um_put pid \<lparr>ent_player_id = pid, ent_x = spawn_x, ent_y = flit F 0, ent_hp = 100,
                    ent_alive = True\<rparr> ps)"

definition GameRoom_Start :: "'f float_ops \<Rightarrow> i64 list \<Rightarrow> 'f GameRoom \<Rightarrow> 'f GameRoom" where
  "GameRoom_Start F player_ids g =
     g\<lparr>gr_state := \<lparr>frame_id = 0, gs_players = spawn_players F (flit F 0) player_ids []\<rparr>,
       game_over := False, winner_id := 0\<rparr>"

definition GameRoom_Stop :: "'f GameRoom \<Rightarrow> 'f GameRoom" where
  "GameRoom_Stop g = g\<lparr>game_over := True\<rparr>"

definition GameRoom_HandleInput :: "'f InputCommand \<Rightarrow> 'f GameRoom \<Rightarrow> 'f GameRoom" where
  "GameRoom_HandleInput input g = g\<lparr>input_buffer := InputBuffer_Push input (input_buffer g)\<rparr>"

text \<open>The two accumulators of \<open>CheckGameOver\<close>: how many are alive, and the last one seen alive.\<close>

fun alive_scan :: "(i64, 'f EntityState) umap \<Rightarrow> nat \<Rightarrow> i64 \<Rightarrow> nat \<times> i64" where
  "alive_scan [] alive_count alive_player = (alive_count, alive_player)"
| "alive_scan ((pid, e) # ps) alive_count alive_player =
     (if ent_alive e then alive_scan ps (Suc alive_count) pid
      else alive_scan ps alive_count alive_player)"

definition GameRoom_CheckGameOver :: "'f GameRoom \<Rightarrow> 'f GameRoom" where
  "GameRoom_CheckGameOver g =
     (case alive_scan (gr_players g) 0 0 of
        (alive_count, alive_player) \<Rightarrow>
          if alive_count \<le> 1 \<and> gr_players g \<noteq> []
          then g\<lparr>game_over := True, winner_id := alive_player\<rparr> else g)"

definition GameRoom_EliminatePlayer :: "i64 \<Rightarrow> 'f GameRoom \<Rightarrow> 'f GameRoom" where
  "GameRoom_EliminatePlayer pid g =
     (if game_over g then g
      else case um_find (gr_players g) pid of
        None \<Rightarrow> g
      | Some e \<Rightarrow>
          if \<not> ent_alive e then g
          else GameRoom_CheckGameOver
                 (set_players (um_modify pid (\<lambda>e. e\<lparr>ent_hp := 0, ent_alive := False\<rparr>) (gr_players g)) g))"

text \<open>One turn of the firing loop of \<open>ApplyInput\<close>: the shooter stands at \<open>(sx, sy)\<close>.\<close>

definition hit_target :: "'f float_ops \<Rightarrow> i64 \<Rightarrow> 'f \<Rightarrow> 'f \<Rightarrow> i64 \<Rightarrow> 'f EntityState \<Rightarrow> 'f EntityState" where
  "hit_target F shooter sx sy target_id target =
     (if target_id = shooter \<or> \<not> ent_alive target then target
      else if fle F (fhypot F (fsub F (ent_x target) sx) (fsub F (ent_y target) sy)) (flit F 8)
      then let hp' = ent_hp target - 10 in
           if hp' \<le> 0 then target\<lparr>ent_hp := 0, ent_alive := False\<rparr> else target\<lparr>ent_hp := hp'\<rparr>
      else target)"

definition moved :: "'f float_ops \<Rightarrow> 'f InputCommand \<Rightarrow> 'f EntityState \<Rightarrow> 'f EntityState" where
  "moved F input e =
     (let max_axis = flit F 1;
          dx = fclamp F (move_x input) (fneg F max_axis) max_axis;
          dy = fclamp F (move_y input) (fneg F max_axis) max_axis
      in e\<lparr>ent_x := fadd F (ent_x e) (fmul F dx (flit F (6 / 10))),
           ent_y := fadd F (ent_y e) (fmul F dy (flit F (6 / 10)))\<rparr>)"

definition apply_players :: "'f float_ops \<Rightarrow> 'f InputCommand \<Rightarrow> (i64, 'f EntityState) umap
    \<Rightarrow> (i64, 'f EntityState) umap" where
  "apply_players F input ps =
     (case um_find ps (in_player_id input) of
        None \<Rightarrow> ps
      | Some e \<Rightarrow>
          if \<not> ent_alive e then ps
          else let e' = moved F input e;
                   ps' = um_modify (in_player_id input) (\<lambda>_. e') ps
               in if \<not> fire input then ps'
                  else map (\<lambda>(k, t). (k, hit_target F (in_player_id input) (ent_x e') (ent_y e') k t)) ps')"

definition GameRoom_ApplyInput :: "'f float_ops \<Rightarrow> 'f InputCommand \<Rightarrow> 'f GameRoom \<Rightarrow> 'f GameRoom" where
  "GameRoom_ApplyInput F input g = set_players (apply_players F input (gr_players g)) g"

definition GameRoom_Tick :: "'f float_ops \<Rightarrow> 'f GameRoom \<Rightarrow> 'f GameRoom" where
  "GameRoom_Tick F g =
     (let (inputs, buf) = InputBuffer_PopAll (input_buffer g);
          g1 = g\<lparr>input_buffer := buf\<rparr>
      in if game_over g1 then g1
         else let g2 = g1\<lparr>gr_state := (gr_state g1)\<lparr>frame_id := frame_id (gr_state g1) + 1\<rparr>\<rparr>
              in GameRoom_CheckGameOver (fold (GameRoom_ApplyInput F) inputs g2))"

subsection \<open>State synchronisation\<close>

record 'f PlayerState =
  ps_player_id :: i64
  ps_x :: 'f
  ps_y :: 'f
  ps_hp :: i32

record 'f GameStateNotify =
  gsn_room_id :: i64
  gsn_frame_id :: i64
  gsn_players :: "'f PlayerState list"

definition StateSync_BuildNotify :: "i64 \<Rightarrow> 'f GameState \<Rightarrow> 'f GameStateNotify" where
  "StateSync_BuildNotify rid state =
     \<lparr>gsn_room_id = rid, gsn_frame_id = frame_id state,
      gsn_players = map (\<lambda>(_, e). \<lparr>ps_player_id = ent_player_id e, ps_x = ent_x e, ps_y = ent_y e,
                                   ps_hp = ent_hp e\<rparr>) (gs_players state)\<rparr>"

subsection \<open>Scanning for the survivors\<close>

definition alive_ids :: "(i64, 'f EntityState) umap \<Rightarrow> i64 list" where
  "alive_ids ps = map fst (filter (\<lambda>(_, e). ent_alive e) ps)"

lemma alive_ids_Nil [simp]: "alive_ids [] = []"
  by (simp add: alive_ids_def)

lemma alive_ids_Cons [simp]:
  "alive_ids ((k, e) # ps) = (if ent_alive e then k # alive_ids ps else alive_ids ps)"
  by (simp add: alive_ids_def)

lemma alive_scan_eq:
  "alive_scan ps n p = (n + length (alive_ids ps), if alive_ids ps = [] then p else last (alive_ids ps))"
  by (induction ps n p rule: alive_scan.induct) auto

lemma CheckGameOver_eq:
  "GameRoom_CheckGameOver g =
     (if length (alive_ids (gr_players g)) \<le> 1 \<and> gr_players g \<noteq> []
      then g\<lparr>game_over := True,
             winner_id := if alive_ids (gr_players g) = [] then 0 else last (alive_ids (gr_players g))\<rparr>
      else g)"
  by (simp add: GameRoom_CheckGameOver_def alive_scan_eq)

lemma alive_ids_subset: "set (alive_ids ps) \<subseteq> fst ` set ps"
  by (auto simp: alive_ids_def)

lemma distinct_alive_ids: "um_wf ps \<Longrightarrow> distinct (alive_ids ps)"
  using alive_ids_subset by (induction ps) fastforce+

lemma alive_ids_in: "um_wf ps \<Longrightarrow> k \<in> set (alive_ids ps) \<longleftrightarrow> (\<exists>e. map_of ps k = Some e \<and> ent_alive e)"
proof (induction ps)
  case (Cons q ps)
  obtain k' e where q: "q = (k', e)" by (cases q)
  have "k' \<notin> set (alive_ids ps)" using Cons.prems q alive_ids_subset by fastforce
  with Cons show ?case by (auto simp: q)
qed simp

lemma alive_ids_eliminated:
  "alive_ids (um_modify pid (\<lambda>e. e\<lparr>ent_hp := 0, ent_alive := False\<rparr>) ps)
     = filter (\<lambda>k. k \<noteq> pid) (alive_ids ps)"
  by (induction ps) auto

subsection \<open>Well-formed battles\<close>

definition entity_ok :: "i64 \<Rightarrow> 'f EntityState \<Rightarrow> bool" where
  "entity_ok k e \<longleftrightarrow> ent_player_id e = k \<and> 0 \<le> ent_hp e \<and> ent_hp e \<le> 100 \<and> (ent_alive e \<longleftrightarrow> 0 < ent_hp e)"

definition players_ok :: "(i64, 'f EntityState) umap \<Rightarrow> bool" where
  "players_ok ps \<longleftrightarrow> um_wf ps \<and> (\<forall>(k, e)\<in>set ps. entity_ok k e)"

text \<open>Health only goes down, nobody is revived, added or removed.\<close>

definition worn_entity :: "'f EntityState \<Rightarrow> 'f EntityState \<Rightarrow> bool" where
  "worn_entity e e' \<longleftrightarrow> ent_player_id e' = ent_player_id e \<and> ent_hp e' \<le> ent_hp e \<and>
     (ent_alive e' \<longrightarrow> ent_alive e)"

definition worn :: "(i64, 'f EntityState) umap \<Rightarrow> (i64, 'f EntityState) umap \<Rightarrow> bool" where
  "worn = list_all2 (\<lambda>(k, e) (k', e'). k' = k \<and> worn_entity e e')"

lemma worn_refl [simp]: "worn ps ps"
  by (auto simp: worn_def worn_entity_def intro: list_all2_refl)

lemma worn_trans: "worn a b \<Longrightarrow> worn b c \<Longrightarrow> worn a c"
  unfolding worn_def
  by (fastforce simp: list_all2_conv_all_nth worn_entity_def split_beta)

lemma worn_keys: "worn a b \<Longrightarrow> um_keys b = um_keys a"
  unfolding worn_def by (induction a b rule: list_all2_induct) auto

lemma worn_lookup: "worn a b \<Longrightarrow> map_of a k = Some e \<Longrightarrow> \<exists>e'. map_of b k = Some e' \<and> worn_entity e e'"
  unfolding worn_def by (induction a b rule: list_all2_induct) (auto split: if_splits)

text \<open>An entity-wise update that keeps \<open>entity_ok\<close> and wears each entity.\<close>

lemma map_entities_ok:
  assumes ok: "players_ok ps"
    and f: "\<And>k e. entity_ok k e \<Longrightarrow> entity_ok k (f k e) \<and> worn_entity e (f k e)"
  shows "players_ok (map (\<lambda>(k, e). (k, f k e)) ps) \<and> worn ps (map (\<lambda>(k, e). (k, f k e)) ps)"
  using ok unfolding players_ok_def
proof (induction ps)
  case (Cons q ps)
  obtain k e where q: "q = (k, e)" by (cases q)
  have "fst ` set (map (\<lambda>(k, e). (k, f k e)) ps) = fst ` set ps" by force
  with Cons f [of k e] show ?case by (auto simp: q worn_def)
qed (simp add: worn_def)

lemma um_modify_as_map: "um_modify k f ps = map (\<lambda>(k', e). (k', if k' = k then f e else e)) ps"
  by (auto simp: um_modify_def)

lemma worn_entity_refl [simp]: "worn_entity e e"
  by (simp add: worn_entity_def)

lemma hit_target_ok:
  "entity_ok k e \<Longrightarrow> entity_ok k (hit_target F s sx sy k e) \<and> worn_entity e (hit_target F s sx sy k e)"
  by (auto simp: hit_target_def entity_ok_def worn_entity_def Let_def)

lemma moved_vitals [simp]:
  "ent_player_id (moved F i e) = ent_player_id e" "ent_hp (moved F i e) = ent_hp e"
  "ent_alive (moved F i e) = ent_alive e"
  by (simp_all add: moved_def Let_def)

lemma um_modify_const_ok:
  assumes "players_ok ps" and "map_of ps k = Some e" and "entity_ok k e'" and "worn_entity e e'"
  shows "players_ok (um_modify k (\<lambda>_. e') ps) \<and> worn ps (um_modify k (\<lambda>_. e') ps)"
proof -
  have "players_ok ps \<Longrightarrow> map_of ps k = Some e \<or> k \<notin> fst ` set ps \<Longrightarrow>
        players_ok (um_modify k (\<lambda>_. e') ps) \<and> worn ps (um_modify k (\<lambda>_. e') ps)"
  proof (induction ps)
    case (Cons q ps)
    obtain k2 e2 where q: "q = (k2, e2)" by (cases q)
    have "fst ` set (um_modify k (\<lambda>_. e') ps) = fst ` set ps"
      by (metis list.set_map um_keys_modify)
    moreover have "map_of ps k = Some e \<or> k \<notin> fst ` set ps"
      using Cons.prems by (auto simp: q players_ok_def split: if_splits)
    ultimately show ?case
      using Cons assms(3,4) by (auto simp: q players_ok_def worn_def split: if_splits)
  qed (simp add: players_ok_def worn_def)
  with assms show ?thesis by blast
qed

lemma players_ok_lookup: "players_ok ps \<Longrightarrow> map_of ps k = Some e \<Longrightarrow> entity_ok k e"
  by (auto simp: players_ok_def dest: map_of_SomeD)

lemma apply_players_ok:
  assumes "players_ok ps"
  shows "players_ok (apply_players F i ps)" and "worn ps (apply_players F i ps)"
proof -
  let ?k = "in_player_id i"
  have "players_ok (apply_players F i ps) \<and> worn ps (apply_players F i ps)"
  proof (cases "map_of ps ?k")
    case (Some e)
    let ?e = "moved F i e" and ?ps = "um_modify ?k (\<lambda>_. moved F i e) ps"
    have "entity_ok ?k ?e" "worn_entity e ?e"
      using players_ok_lookup [OF assms Some] by (auto simp: entity_ok_def worn_entity_def)
    note m = um_modify_const_ok [OF assms Some this]
    note h = map_entities_ok [OF conjunct1 [OF m], of "hit_target F ?k (ent_x ?e) (ent_y ?e)", OF hit_target_ok]
    show ?thesis
      using assms m h by (auto simp: apply_players_def Some Let_def intro: worn_trans)
  qed (simp add: apply_players_def assms)
  then show "players_ok (apply_players F i ps)" and "worn ps (apply_players F i ps)" by auto
qed

text \<open>The shooter is never its own target, so an input cannot leave the arena empty.\<close>

lemma hit_target_self [simp]: "hit_target F s sx sy s e = e"
  by (simp add: hit_target_def)

lemma hit_target_vitals:
  "ent_hp (hit_target F s sx sy k t) =
     (if k \<noteq> s \<and> ent_alive t \<and> fle F (fhypot F (fsub F (ent_x t) sx) (fsub F (ent_y t) sy)) (flit F 8)
      then max 0 (ent_hp t - 10) else ent_hp t)"
  "ent_x (hit_target F s sx sy k t) = ent_x t" "ent_y (hit_target F s sx sy k t) = ent_y t"
  by (auto simp: hit_target_def Let_def)

lemma map_of_map_key: "map_of (map (\<lambda>(k, t). (k, f k t)) ps) k = map_option (f k) (map_of ps k)"
  by (induction ps) auto

lemma apply_players_lookup:
  "map_of (apply_players F i ps) k =
     (case map_of ps (in_player_id i) of
        None \<Rightarrow> map_of ps k
      | Some s \<Rightarrow>
          if \<not> ent_alive s then map_of ps k
          else if k = in_player_id i then Some (moved F i s)
          else if fire i then map_option (hit_target F (in_player_id i) (ent_x (moved F i s)) (ent_y (moved F i s)) k) (map_of ps k)
          else map_of ps k)"
  by (auto simp: apply_players_def Let_def map_of_map_key split: option.splits)

lemma apply_players_survivor:
  assumes "um_wf ps" and "players_ok ps" and "alive_ids ps \<noteq> []"
  shows "alive_ids (apply_players F i ps) \<noteq> []"
proof (cases "in_player_id i \<in> set (alive_ids ps)")
  case True
  then obtain s where "map_of ps (in_player_id i) = Some s" "ent_alive s"
    using assms(1) by (auto simp: alive_ids_in)
  then have "map_of (apply_players F i ps) (in_player_id i) = Some (moved F i s)"
    by (simp add: apply_players_lookup)
  then have "in_player_id i \<in> set (alive_ids (apply_players F i ps))"
    using apply_players_ok(1) [OF assms(2)] \<open>ent_alive s\<close> by (auto simp: alive_ids_in players_ok_def)
  then show ?thesis by auto
next
  case False
  then have "apply_players F i ps = ps"
    using assms(1) by (auto simp: alive_ids_in apply_players_def split: option.splits)
  with assms(3) show ?thesis by simp
qed


subsection \<open>Runs of a battle\<close>

text \<open>
  The three calls the server makes on a running battle.  Each takes the room's mutex for the whole of
  its effect on the state, so a concurrent run is a sequence of these steps.
\<close>

datatype 'f gr_op = GrInput "'f InputCommand" | GrEliminate i64 | GrTick

fun gr_step :: "'f float_ops \<Rightarrow> 'f gr_op \<Rightarrow> 'f GameRoom \<Rightarrow> 'f GameRoom" where
  "gr_step F (GrInput i) g = GameRoom_HandleInput i g"
| "gr_step F (GrEliminate p) g = GameRoom_EliminatePlayer p g"
| "gr_step F GrTick g = GameRoom_Tick F g"

fun gr_run :: "'f float_ops \<Rightarrow> 'f gr_op list \<Rightarrow> 'f GameRoom \<Rightarrow> 'f GameRoom" where
  "gr_run F [] g = g"
| "gr_run F (op # ops) g = gr_run F ops (gr_step F op g)"

lemma gr_run_append: "gr_run F (a @ b) g = gr_run F b (gr_run F a g)"
  by (induction a arbitrary: g) auto

lemma CheckGameOver_players [simp]: "gr_state (GameRoom_CheckGameOver g) = gr_state g"
  by (simp add: CheckGameOver_eq)

lemma fold_ApplyInput:
  "fold (GameRoom_ApplyInput F) inputs g =
     set_players (fold (apply_players F) inputs (gr_players g)) g"
  by (induction inputs arbitrary: g) (auto simp: GameRoom_ApplyInput_def)

lemma fold_apply_ok:
  "players_ok ps \<Longrightarrow> players_ok (fold (apply_players F) is ps) \<and> worn ps (fold (apply_players F) is ps)"
proof (induction "is" arbitrary: ps)
  case (Cons i "is")
  note a = apply_players_ok [OF Cons.prems, of F i]
  from Cons.IH [OF a(1)] a(2) show ?case by (auto intro: worn_trans)
qed simp

lemma fold_apply_survivor:
  "players_ok ps \<Longrightarrow> alive_ids ps \<noteq> [] \<Longrightarrow> alive_ids (fold (apply_players F) is ps) \<noteq> []"
proof (induction "is" arbitrary: ps)
  case (Cons i "is")
  have "um_wf ps" using Cons.prems(1) by (simp add: players_ok_def)
  with Cons apply_players_ok(1) [OF Cons.prems(1), of F i] apply_players_survivor [of ps F i]
  show ?case by simp
qed simp

lemma Tick_players:
  "gr_players (GameRoom_Tick F g) =
     (if game_over g then gr_players g else fold (apply_players F) (input_buffer g) (gr_players g))"
  by (simp add: GameRoom_Tick_def InputBuffer_PopAll_def Let_def fold_ApplyInput)

lemma Tick_eq:
  "\<not> game_over g \<Longrightarrow> GameRoom_Tick F g =
     GameRoom_CheckGameOver (g\<lparr>input_buffer := [],
       gr_state := (gr_state g)\<lparr>frame_id := frame_id (gr_state g) + 1,
                    gs_players := fold (apply_players F) (input_buffer g) (gr_players g)\<rparr>\<rparr>)"
  by (simp add: GameRoom_Tick_def InputBuffer_PopAll_def Let_def fold_ApplyInput)

definition kill :: "'f EntityState \<Rightarrow> 'f EntityState" where
  "kill e = e\<lparr>ent_hp := 0, ent_alive := False\<rparr>"

lemma killed_ok:
  "players_ok ps \<Longrightarrow> players_ok (um_modify pid kill ps) \<and> worn ps (um_modify pid kill ps)"
  unfolding um_modify_as_map
  by (rule map_entities_ok) (auto simp: entity_ok_def worn_entity_def kill_def)

lemma Eliminate_eq:
  "GameRoom_EliminatePlayer pid g =
     (if game_over g \<or> (\<forall>e. map_of (gr_players g) pid = Some e \<longrightarrow> \<not> ent_alive e) then g
      else GameRoom_CheckGameOver (set_players (um_modify pid kill (gr_players g)) g))"
  by (auto simp: GameRoom_EliminatePlayer_def kill_def [abs_def] split: option.splits)

definition battle_inv :: "'f GameRoom \<Rightarrow> bool" where
  "battle_inv g \<longleftrightarrow> players_ok (gr_players g) \<and>
     (if game_over g then alive_ids (gr_players g) = [winner_id g]
      else 2 \<le> length (alive_ids (gr_players g)) \<and> winner_id g = 0)"

text \<open>The game-over check turns "somebody is alive" into the invariant.\<close>

lemma battle_inv_CheckGameOver:
  assumes "players_ok (gr_players g)" and "alive_ids (gr_players g) \<noteq> []"
    and "\<not> game_over g" and "winner_id g = 0"
  shows "battle_inv (GameRoom_CheckGameOver g)"
proof -
  have ne: "gr_players g \<noteq> []" using assms(2) by auto
  show ?thesis
  proof (cases "length (alive_ids (gr_players g)) \<le> 1")
    case True
    with assms(2) obtain w where "alive_ids (gr_players g) = [w]"
      by (cases "alive_ids (gr_players g)") auto
    with assms ne show ?thesis by (simp add: CheckGameOver_eq battle_inv_def)
  next
    case False
    with assms show ?thesis by (simp add: CheckGameOver_eq battle_inv_def)
  qed
qed

lemma battle_inv_Tick [inv_intros]: "battle_inv g \<Longrightarrow> battle_inv (GameRoom_Tick F g)"
proof (cases "game_over g")
  case True
  then show "battle_inv g \<Longrightarrow> ?thesis"
    by (simp add: GameRoom_Tick_def InputBuffer_PopAll_def battle_inv_def)
next
  case False
  assume b: "battle_inv g"
  then have "alive_ids (gr_players g) \<noteq> []" and "players_ok (gr_players g)" and "winner_id g = 0"
    using False by (auto simp: battle_inv_def)
  then show ?thesis
    unfolding Tick_eq [OF False]
    by (intro battle_inv_CheckGameOver) (simp_all add: False fold_apply_ok fold_apply_survivor)
qed

lemma battle_inv_Eliminate [inv_intros]: "battle_inv g \<Longrightarrow> battle_inv (GameRoom_EliminatePlayer pid g)"
proof (cases "game_over g \<or> (\<forall>e. map_of (gr_players g) pid = Some e \<longrightarrow> \<not> ent_alive e)")
  case True
  then show "battle_inv g \<Longrightarrow> ?thesis" by (simp add: Eliminate_eq)
next
  case False
  assume b: "battle_inv g"
  then have ok: "players_ok (gr_players g)" and two: "2 \<le> length (alive_ids (gr_players g))"
    and w: "winner_id g = 0"
    using False by (auto simp: battle_inv_def)
  have d: "distinct (alive_ids (gr_players g))"
    using ok by (simp add: players_ok_def distinct_alive_ids)
  have "filter (\<lambda>k. k \<noteq> pid) (alive_ids (gr_players g)) \<noteq> []"
  proof
    assume "filter (\<lambda>k. k \<noteq> pid) (alive_ids (gr_players g)) = []"
    then have "set (alive_ids (gr_players g)) \<subseteq> {pid}" by (auto simp: filter_empty_conv)
    then have "card (set (alive_ids (gr_players g))) \<le> card {pid}" by (rule card_mono [rotated]) simp
    with d two show False by (simp add: distinct_card)
  qed
  then have "alive_ids (um_modify pid kill (gr_players g)) \<noteq> []"
    using alive_ids_eliminated [of pid "gr_players g"] by (simp add: kill_def [abs_def])
  then show ?thesis
    using False w killed_ok [OF ok, of pid]
    by (auto simp: Eliminate_eq intro!: battle_inv_CheckGameOver)
qed

lemma battle_inv_HandleInput [inv_intros]: "battle_inv g \<Longrightarrow> battle_inv (GameRoom_HandleInput i g)"
  by (simp add: GameRoom_HandleInput_def battle_inv_def)

lemma battle_inv_step: "battle_inv g \<Longrightarrow> battle_inv (gr_step F op g)"
  by (cases op) (auto intro: inv_intros)

lemma battle_inv_run: "battle_inv g \<Longrightarrow> battle_inv (gr_run F ops g)"
  by (induction ops arbitrary: g) (auto intro: battle_inv_step)

text \<open>The winner that is reported, for any number of players.\<close>

definition outcome_ok :: "'f GameRoom \<Rightarrow> bool" where
  "outcome_ok g \<longleftrightarrow>
     (if game_over g
      then length (alive_ids (gr_players g)) \<le> 1 \<and> winner_id g = (case alive_ids (gr_players g) of [] \<Rightarrow> 0 | w # _ \<Rightarrow> w)
      else winner_id g = 0)"

lemma outcome_ok_CheckGameOver:
  assumes "\<not> game_over g" and "winner_id g = 0"
  shows "outcome_ok (GameRoom_CheckGameOver g)"
proof -
  have "last xs = hd xs" if "length xs \<le> 1" "xs \<noteq> []" for xs :: "i64 list" using that by (cases xs) auto
  then show ?thesis using assms by (auto simp: CheckGameOver_eq outcome_ok_def hd_def split: list.split)
qed

lemma outcome_ok_step:
  assumes "outcome_ok g"
  shows "outcome_ok (gr_step F op g)"
proof (cases "game_over g")
  case True
  then show ?thesis using assms
    by (cases op) (auto simp: outcome_ok_def GameRoom_HandleInput_def Eliminate_eq GameRoom_Tick_def InputBuffer_PopAll_def)
next
  case False
  then have w: "winner_id g = 0" using assms by (simp add: outcome_ok_def)
  show ?thesis
  proof (cases op)
    case GrTick
    then show ?thesis using False w by (simp add: Tick_eq outcome_ok_CheckGameOver)
  next
    case (GrEliminate pid)
    then show ?thesis using False w assms by (simp add: Eliminate_eq outcome_ok_CheckGameOver)
  qed (use False w in \<open>simp add: outcome_ok_def GameRoom_HandleInput_def\<close>)
qed

lemma outcome_ok_run: "outcome_ok g \<Longrightarrow> outcome_ok (gr_run F ops g)"
  by (induction ops arbitrary: g) (auto intro: outcome_ok_step)

text \<open>Spawning: one living entity with 100 hp per player, in the order of the list.\<close>

lemma spawn_players_result:
  assumes "players_ok ps" and "alive_ids ps = um_keys ps" and "distinct pids"
    and "set pids \<inter> fst ` set ps = {}"
  shows "players_ok (spawn_players F x pids ps) \<and> um_keys (spawn_players F x pids ps) = um_keys ps @ pids \<and>
         alive_ids (spawn_players F x pids ps) = um_keys ps @ pids"
  using assms
proof (induction pids arbitrary: x ps)
  case (Cons pid pids)
  let ?e = "\<lparr>ent_player_id = pid, ent_x = x, ent_y = flit F 0, ent_hp = 100, ent_alive = True\<rparr>"
  have e: "um_put pid ?e ps = ps @ [(pid, ?e)]" using Cons.prems by (intro um_put_fresh) auto
  have "players_ok (ps @ [(pid, ?e)])"
    using Cons.prems by (auto simp: players_ok_def um_wf_def entity_ok_def)
  moreover have "alive_ids (ps @ [(pid, ?e)]) = um_keys (ps @ [(pid, ?e)])"
    using Cons.prems(2) by (simp add: alive_ids_def)
  ultimately show ?case
    using Cons.IH [of "ps @ [(pid, ?e)]" "fadd F x (flit F 5)"] Cons.prems e by auto
qed simp

lemma Start_ok:
  assumes "distinct pids"
  shows "players_ok (gr_players (GameRoom_Start F pids g))"
    and "um_keys (gr_players (GameRoom_Start F pids g)) = pids"
    and "alive_ids (gr_players (GameRoom_Start F pids g)) = pids"
  using spawn_players_result [of "[]" pids F "flit F 0"] assms
  by (auto simp: GameRoom_Start_def players_ok_def)

lemma battle_inv_Start:
  "distinct pids \<Longrightarrow> 2 \<le> length pids \<Longrightarrow> battle_inv (GameRoom_Start F pids g)"
  using Start_ok [of pids F g] by (simp add: battle_inv_def) (simp add: GameRoom_Start_def)

text \<open>Every step wears the entities, whoever calls it.\<close>

lemma worn_step:
  "players_ok (gr_players g) \<Longrightarrow>
     players_ok (gr_players (gr_step F op g)) \<and> worn (gr_players g) (gr_players (gr_step F op g))"
  by (cases op) (auto simp: GameRoom_HandleInput_def Eliminate_eq Tick_players fold_apply_ok killed_ok)

lemma worn_run:
  "players_ok (gr_players g) \<Longrightarrow>
     players_ok (gr_players (gr_run F ops g)) \<and> worn (gr_players g) (gr_players (gr_run F ops g))"
proof (induction ops arbitrary: g)
  case (Cons op ops)
  note s = worn_step [OF Cons.prems, of F op]
  from Cons.IH [OF conjunct1 [OF s]] s show ?case by (auto intro: worn_trans)
qed simp

text \<open>
  Exact arithmetic with a NaN that absorbs every operation and fails every comparison; a concrete
  instance of \<open>float_ops\<close> for evaluating the definitions (distances in the maximum norm).
\<close>

definition opt2 :: "('a \<Rightarrow> 'a \<Rightarrow> 'b) \<Rightarrow> 'a option \<Rightarrow> 'a option \<Rightarrow> 'b option" where
  "opt2 f a b = (case a of None \<Rightarrow> None | Some x \<Rightarrow> (case b of None \<Rightarrow> None | Some y \<Rightarrow> Some (f x y)))"

definition rat_nan :: "rat option float_ops" where
  "rat_nan = \<lparr>flit = Some, fneg = map_option uminus, fadd = opt2 (+), fsub = opt2 (-), fmul = opt2 (*),
     fless = (\<lambda>a b. opt2 (<) a b = Some True), fle = (\<lambda>a b. opt2 (\<le>) a b = Some True),
     fhypot = opt2 (\<lambda>x y. max \<bar>x\<bar> \<bar>y\<bar>)\<rparr>"

lemmas gr_eval = GameRoom_new_def GameRoom_Start_def GameRoom_HandleInput_def InputBuffer_Push_def
  Eliminate_eq kill_def CheckGameOver_eq GameRoom_Tick_def InputBuffer_PopAll_def GameRoom_ApplyInput_def
  apply_players_def moved_def fclamp_def hit_target_def rat_nan_def opt2_def Let_def

subsection \<open>Not-a-number coordinates\<close>

text \<open>
  How IEEE arithmetic treats NaN in the operations above: comparisons with it fail, sums, differences
  and products with it are NaN, and \<open>hypot\<close> of it is NaN or infinite, so never at most 8.
\<close>

definition nan_laws :: "'f float_ops \<Rightarrow> ('f \<Rightarrow> bool) \<Rightarrow> bool" where
  "nan_laws F isnan \<longleftrightarrow>
     (\<forall>a b. isnan a \<longrightarrow> \<not> fless F a b \<and> \<not> fless F b a) \<and>
     (\<forall>a b. isnan a \<or> isnan b \<longrightarrow> isnan (fadd F a b) \<and> isnan (fsub F a b) \<and> isnan (fmul F a b)) \<and>
     (\<forall>a b. isnan a \<or> isnan b \<longrightarrow> \<not> fle F (fhypot F a b) (flit F 8))"

definition nan_at :: "('f \<Rightarrow> bool) \<Rightarrow> i64 \<Rightarrow> i32 \<Rightarrow> (i64, 'f EntityState) umap \<Rightarrow> bool" where
  "nan_at isnan p h ps \<longleftrightarrow> (\<exists>e. map_of ps p = Some e \<and> isnan (ent_x e) \<and> ent_hp e = h)"

lemma nan_moved: "nan_laws F isnan \<Longrightarrow> isnan (move_x i) \<Longrightarrow> isnan (ent_x (moved F i e))"
  by (simp add: nan_laws_def moved_def fclamp_def Let_def)

lemma nan_moved_keeps: "nan_laws F isnan \<Longrightarrow> isnan (ent_x e) \<Longrightarrow> isnan (ent_x (moved F i e))"
  by (simp add: nan_laws_def moved_def Let_def)

lemma nan_not_hit: "nan_laws F isnan \<Longrightarrow> isnan (ent_x e) \<Longrightarrow> hit_target F s sx sy k e = e"
  by (simp add: nan_laws_def hit_target_def)

lemma nan_at_apply:
  assumes "nan_laws F isnan" and "nan_at isnan p h ps"
  shows "nan_at isnan p h (apply_players F i ps)"
proof -
  obtain e where e: "map_of ps p = Some e" "isnan (ent_x e)" "ent_hp e = h"
    using assms(2) by (auto simp: nan_at_def)
  then show ?thesis
    using nan_moved_keeps [OF assms(1) e(2), of i] nan_not_hit [OF assms(1) e(2)]
    by (auto simp: nan_at_def apply_players_lookup split: option.splits)
qed

lemma nan_at_fold:
  "nan_laws F isnan \<Longrightarrow> nan_at isnan p h ps \<Longrightarrow> nan_at isnan p h (fold (apply_players F) is ps)"
  by (induction "is" arbitrary: ps) (auto intro: nan_at_apply)

lemma nan_at_step:
  assumes "nan_laws F isnan" and "nan_at isnan p h (gr_players g)" and "op \<noteq> GrEliminate p"
  shows "nan_at isnan p h (gr_players (gr_step F op g))"
proof (cases op)
  case (GrEliminate q)
  with assms show ?thesis by (auto simp: Eliminate_eq nan_at_def)
qed (use assms in \<open>auto simp: GameRoom_HandleInput_def Tick_players nan_at_fold\<close>)

lemma nan_at_run:
  "nan_laws F isnan \<Longrightarrow> nan_at isnan p h (gr_players g) \<Longrightarrow> GrEliminate p \<notin> set ops \<Longrightarrow>
     nan_at isnan p h (gr_players (gr_run F ops g))"
  by (induction ops arbitrary: g) (auto intro!: nan_at_step dest: not_sym)

subsection \<open>Properties\<close>

text \<open>C22. The winner of a battle, under any sequence of inputs, surrenders and ticks: while it runs no winner is
  reported; once it is over at most one player is alive and the winner is that player, or 0 when nobody
  is.  A battle of at least two players is over exactly when one player is left, so it always has a
  winner among those who started: never do all players die.  (A single player can end a battle with
  winner 0 by leaving it.)\<close>

theorem GameRoom_single_winner:
  fixes F :: "'f float_ops" and ops :: "'f gr_op list" and rid :: i64
  assumes "distinct pids"
  defines "g \<equiv> gr_run F ops (GameRoom_Start F pids (GameRoom_new rid))"
  shows "(if game_over g
          then length (alive_ids (gr_players g)) \<le> 1 \<and>
            winner_id g = (case alive_ids (gr_players g) of [] \<Rightarrow> 0 | w # _ \<Rightarrow> w)
          else winner_id g = 0) \<and>
    set (alive_ids (gr_players g)) \<subseteq> set pids \<and>
    (2 \<le> length pids \<longrightarrow>
       (if game_over g then alive_ids (gr_players g) = [winner_id g] \<and> winner_id g \<in> set pids
        else 2 \<le> length (alive_ids (gr_players g))))"
proof -
  let ?s = "GameRoom_Start F pids (GameRoom_new rid)"
  have inv: "battle_inv g" if "2 \<le> length pids"
    unfolding g_def by (intro battle_inv_run battle_inv_Start assms(1) that)
  have "outcome_ok g" unfolding g_def by (rule outcome_ok_run) (simp add: outcome_ok_def GameRoom_Start_def)
  moreover have "um_keys (gr_players g) = pids"
    using worn_run [OF Start_ok(1) [OF assms(1)], of F ops F "GameRoom_new rid"]
      worn_keys Start_ok(2) [OF assms(1), of F "GameRoom_new rid"]
    unfolding g_def by metis
  moreover have "set (alive_ids (gr_players g)) \<subseteq> set (um_keys (gr_players g))"
    using alive_ids_subset [of "gr_players g"] by simp
  ultimately have o: "if game_over g
      then length (alive_ids (gr_players g)) \<le> 1 \<and> winner_id g = (case alive_ids (gr_players g) of [] \<Rightarrow> 0 | w # _ \<Rightarrow> w)
      else winner_id g = 0" and sub: "set (alive_ids (gr_players g)) \<subseteq> set pids"
    by (simp_all add: outcome_ok_def)
  have "if game_over g then alive_ids (gr_players g) = [winner_id g] \<and> winner_id g \<in> set pids
      else 2 \<le> length (alive_ids (gr_players g))" if "2 \<le> length pids"
    using inv [OF that] sub by (cases "game_over g") (simp_all add: battle_inv_def)
  with o sub show ?thesis by blast
qed

text \<open>Of two players one leaves; the only player leaves.\<close>

theorem GameRoom_single_winner_witness:
  "let g = gr_run rat_nan [GrTick, GrEliminate 7] (GameRoom_Start rat_nan [7, 9] (GameRoom_new 1000));
       h = gr_run rat_nan [GrEliminate 7] (GameRoom_Start rat_nan [7] (GameRoom_new 1000)) in
     game_over g \<and> alive_ids (gr_players g) = [winner_id g] \<and> winner_id g = 9 \<and>
     game_over h \<and> alive_ids (gr_players h) = [] \<and> winner_id h = 0"
  using GameRoom_single_winner [of "[7, 9]" rat_nan "[GrTick, GrEliminate 7]" 1000]
    GameRoom_single_winner [of "[7]" rat_nan "[GrEliminate 7]" 1000]
  by (simp add: gr_eval)

text \<open>C28. The state of a battle stays well formed and only wears down: under any sequence of calls
  every health value stays between 0 and 100 and is positive exactly for the living, the players are
  those who started, health never rises and the dead stay dead.\<close>

theorem GameRoom_health_bounded_and_decreasing:
  fixes F :: "'f float_ops" and ops ops' :: "'f gr_op list" and rid :: i64
  assumes "distinct pids"
  defines "g \<equiv> gr_run F ops (GameRoom_Start F pids (GameRoom_new rid))"
    and "g' \<equiv> gr_run F (ops @ ops') (GameRoom_Start F pids (GameRoom_new rid))"
  shows "um_keys (gr_players g) = pids \<and>
         (\<forall>k e. um_find (gr_players g) k = Some e \<longrightarrow>
            ent_player_id e = k \<and> 0 \<le> ent_hp e \<and> ent_hp e \<le> 100 \<and> (ent_alive e \<longleftrightarrow> 0 < ent_hp e) \<and>
            (\<exists>e'. um_find (gr_players g') k = Some e' \<and> ent_hp e' \<le> ent_hp e \<and>
                  (ent_alive e' \<longrightarrow> ent_alive e)))"
proof -
  let ?s = "GameRoom_Start F pids (GameRoom_new rid)"
  have r: "players_ok (gr_players g) \<and> worn (gr_players ?s) (gr_players g)"
    unfolding g_def by (rule worn_run [OF Start_ok(1) [OF assms(1)]])
  then have r': "worn (gr_players g) (gr_players g')"
    using worn_run [of g F ops'] by (simp add: g_def g'_def gr_run_append)
  have "um_keys (gr_players g) = pids"
    using r worn_keys Start_ok(2) [OF assms(1), of F "GameRoom_new rid"] by metis
  with r r' show ?thesis
    using players_ok_lookup [of "gr_players g"] worn_lookup [OF r']
    by (fastforce simp: entity_ok_def worn_entity_def)
qed


theorem GameRoom_health_bounded_and_decreasing_witness:
  "\<exists>e e'. um_find (gr_players (gr_run rat_nan [] (GameRoom_Start rat_nan [7, 9] (GameRoom_new 1000)))) 7 = Some e \<and>
          um_find (gr_players (gr_run rat_nan ([] @ [GrEliminate 7]) (GameRoom_Start rat_nan [7, 9] (GameRoom_new 1000)))) 7
            = Some e' \<and> ent_hp e = 100 \<and> ent_hp e' \<le> ent_hp e"
proof -
  let ?g = "gr_run rat_nan [] (GameRoom_Start rat_nan [7, 9] (GameRoom_new 1000))"
  have e: "um_find (gr_players ?g) 7 = Some \<lparr>ent_player_id = 7, ent_x = Some 0, ent_y = Some 0, ent_hp = 100, ent_alive = True\<rparr>"
    by (simp add: gr_eval)
  have d: "distinct [7, 9 :: i64]" by simp
  show ?thesis
    using e GameRoom_health_bounded_and_decreasing
      [OF d, of rat_nan "[]" 1000 "[GrEliminate 7]", THEN conjunct2, rule_format, OF e] by auto
qed

text \<open>C27. What one input does, on every branch: an input of an unknown or dead player changes nothing.
  An input of a living player moves that player by 0.6 times the two axes, each limited to the interval
  from -1 to 1, and leaves its health; if it fires, every other living player within distance 8 of the
  shooter's new position loses 10 health, stopping at 0, and dies exactly when it had at most 10;
  everybody else is untouched.\<close>

theorem ApplyInput_effect:
  fixes F :: "'f float_ops" and i :: "'f InputCommand"
  assumes ok: "players_ok ps" and t: "um_find ps k = Some t"
  defines "limit \<equiv> \<lambda>v. if fless F v (fneg F (flit F 1)) then fneg F (flit F 1) else if fless F (flit F 1) v then flit F 1 else v"
  defines "step \<equiv> \<lambda>pos v. fadd F pos (fmul F (limit v) (flit F (6 / 10)))"
  shows "\<exists>t'. um_find (apply_players F i ps) k = Some t' \<and>
     ent_hp t' = (if \<exists>s. um_find ps (in_player_id i) = Some s \<and> ent_alive s \<and> fire i \<and>
                        k \<noteq> in_player_id i \<and> ent_alive t \<and>
                        fle F (fhypot F (fsub F (ent_x t) (step (ent_x s) (move_x i)))
                                        (fsub F (ent_y t) (step (ent_y s) (move_y i)))) (flit F 8)
                  then max 0 (ent_hp t - 10) else ent_hp t) \<and>
     (ent_alive t' \<longleftrightarrow> 0 < ent_hp t') \<and>
     (if k = in_player_id i \<and> ent_alive t
      then ent_x t' = step (ent_x t) (move_x i) \<and> ent_y t' = step (ent_y t) (move_y i)
      else ent_x t' = ent_x t \<and> ent_y t' = ent_y t) \<and>
     ent_player_id t' = ent_player_id t"
proof -
  have m: "ent_x (moved F i e) = step (ent_x e) (move_x i)" "ent_y (moved F i e) = step (ent_y e) (move_y i)"
    "ent_hp (moved F i e) = ent_hp e" "ent_player_id (moved F i e) = ent_player_id e" for e
    by (simp_all add: moved_def fclamp_def limit_def step_def Let_def)
  have id: "ent_player_id (hit_target F j sx sy k e) = ent_player_id e" for j sx sy e
    by (simp add: hit_target_def Let_def)
  have alive: "ent_alive t' \<longleftrightarrow> 0 < ent_hp t'" if "um_find (apply_players F i ps) k = Some t'" for t'
    using players_ok_lookup [OF apply_players_ok(1) [OF ok] that] by (simp add: entity_ok_def)
  have a: "um_find (apply_players F i ps) k =
     (case um_find ps (in_player_id i) of None \<Rightarrow> Some t
      | Some s \<Rightarrow> if \<not> ent_alive s then Some t else if k = in_player_id i then Some (moved F i s)
          else if fire i then Some (hit_target F (in_player_id i) (ent_x (moved F i s)) (ent_y (moved F i s)) k t)
          else Some t)"
    by (simp add: apply_players_lookup t split: option.splits)
  show ?thesis
  proof (cases "um_find ps (in_player_id i)")
    case None
    then show ?thesis using a alive t by auto
  next
    case (Some s)
    show ?thesis
    proof (cases "k = in_player_id i")
      case True
      then show ?thesis using a alive t Some by (cases "ent_alive s") (auto simp: m)
    next
      case False
      show ?thesis
      proof (cases "ent_alive s \<and> fire i")
        case True
        let ?t = "hit_target F (in_player_id i) (ent_x (moved F i s)) (ent_y (moved F i s)) k t"
        have "um_find (apply_players F i ps) k = Some ?t" using a Some False True by simp
        then show ?thesis
          using alive False True Some by (intro exI [of _ ?t]) (simp add: hit_target_vitals m id)
      next
        case no_shot: False
        then have "um_find (apply_players F i ps) k = Some t" using a Some False by auto
        then show ?thesis using alive False no_shot Some by (intro exI [of _ t]) auto
      qed
    qed
  qed
qed

text \<open>Player 7 moves right at full speed, though the input asks for more, and hits player 9.\<close>

theorem ApplyInput_effect_witness:
  "let ps = apply_players rat_nan
          \<lparr>in_player_id = 7, input_seq = 1, move_x = Some 3, move_y = Some (- 1 / 2), fire = True, timestamp_ms = 0\<rparr>
          (gr_players (GameRoom_Start rat_nan [7, 9] (GameRoom_new 1000))) in
     (\<exists>t'. um_find ps 9 = Some t' \<and> ent_hp t' = 90) \<and>
     (\<exists>t'. um_find ps 7 = Some t' \<and> ent_x t' = Some (6 / 10) \<and> ent_y t' = Some (- 3 / 10) \<and> ent_hp t' = 100)"
proof -
  let ?g = "GameRoom_Start rat_nan [7, 9] (GameRoom_new 1000)"
  let ?i = "\<lparr>in_player_id = 7, input_seq = 1, move_x = Some 3, move_y = Some (- 1 / 2), fire = True, timestamp_ms = 0\<rparr>"
  have ok: "players_ok (gr_players ?g)" by (rule Start_ok) simp
  have t: "um_find (gr_players ?g) 9 = Some \<lparr>ent_player_id = 9, ent_x = Some 5, ent_y = Some 0, ent_hp = 100, ent_alive = True\<rparr>"
    by (simp add: gr_eval)
  have s: "um_find (gr_players ?g) 7 = Some \<lparr>ent_player_id = 7, ent_x = Some 0, ent_y = Some 0, ent_hp = 100, ent_alive = True\<rparr>"
    by (simp add: gr_eval)
  have "\<exists>t'. um_find (apply_players rat_nan ?i (gr_players ?g)) 9 = Some t' \<and> ent_hp t' = 90"
    using ApplyInput_effect [OF ok t, of rat_nan ?i] s by (auto simp: rat_nan_def opt2_def)
  moreover have "\<exists>t'. um_find (apply_players rat_nan ?i (gr_players ?g)) 7 = Some t' \<and>
      ent_x t' = Some (6 / 10) \<and> ent_y t' = Some (- 3 / 10) \<and> ent_hp t' = 100"
    using ApplyInput_effect [OF ok s, of rat_nan ?i] by (auto simp: rat_nan_def opt2_def)
  ultimately show ?thesis by (simp only: Let_def)
qed

text \<open>A finished battle is frozen: after the end, no sequence of inputs, surrenders and ticks
  changes the players, the frame number, the outcome or the winner, so every settlement attempt of the
  same battle sees the same result.\<close>

theorem GameRoom_frozen_after_game_over:
  assumes "game_over g"
  shows "game_over (gr_run F ops g) \<and> gr_state (gr_run F ops g) = gr_state g \<and>
         winner_id (gr_run F ops g) = winner_id g"
  using assms
proof (induction ops arbitrary: g)
  case (Cons op ops)
  have "game_over (gr_step F op g) \<and> gr_state (gr_step F op g) = gr_state g \<and>
        winner_id (gr_step F op g) = winner_id g"
    using Cons.prems
    by (cases op) (simp_all add: GameRoom_HandleInput_def Eliminate_eq GameRoom_Tick_def InputBuffer_PopAll_def)
  with Cons.IH [of "gr_step F op g"] show ?case by simp
qed simp

theorem GameRoom_frozen_after_game_over_witness:
  "let g = gr_run rat_nan [GrEliminate 7] (GameRoom_Start rat_nan [7, 9] (GameRoom_new 1000)) in
     game_over g \<and> winner_id (gr_run rat_nan [GrEliminate 9, GrTick] g) = winner_id g"
  using GameRoom_frozen_after_game_over
    [of "gr_run rat_nan [GrEliminate 7] (GameRoom_Start rat_nan [7, 9] (GameRoom_new 1000))" rat_nan "[GrEliminate 9, GrTick]"]
  by (simp add: gr_eval)

text \<open>C29. The outcome does not depend on the iteration order of the hash map: two tables with the same
  entries in any order give the same verdict and the same winner.\<close>

theorem CheckGameOver_order_independent:
  assumes "um_wf ps" and "um_wf ps'" and "set ps = set ps'"
  shows "game_over (GameRoom_CheckGameOver (set_players ps g)) =
           game_over (GameRoom_CheckGameOver (set_players ps' g)) \<and>
         winner_id (GameRoom_CheckGameOver (set_players ps g)) =
           winner_id (GameRoom_CheckGameOver (set_players ps' g))"
proof -
  have s: "set (alive_ids ps) = set (alive_ids ps')" using assms(3) by (simp add: alive_ids_def)
  have l: "length (alive_ids ps) = length (alive_ids ps')"
    using s distinct_alive_ids [OF assms(1)] distinct_alive_ids [OF assms(2)] by (metis distinct_card)
  have n: "ps = [] \<longleftrightarrow> ps' = []" using assms(3) by auto
  have "last (alive_ids ps) = last (alive_ids ps')" if "length (alive_ids ps) = 1"
    using that s l by (cases "alive_ids ps"; cases "alive_ids ps'") auto
  moreover have "length (alive_ids ps) \<le> 1 \<Longrightarrow> alive_ids ps \<noteq> [] \<Longrightarrow> length (alive_ids ps) = 1"
    by (cases "alive_ids ps") auto
  ultimately show ?thesis using l n by (auto simp: CheckGameOver_eq)
qed


theorem CheckGameOver_order_independent_witness:
  "let e = \<lparr>ent_player_id = 7, ent_x = 0 :: rat, ent_y = 0, ent_hp = 10, ent_alive = True\<rparr>;
       d = \<lparr>ent_player_id = 9, ent_x = 0, ent_y = 0, ent_hp = 0, ent_alive = False\<rparr> in
     winner_id (GameRoom_CheckGameOver (set_players [(7, e), (9, d)] (GameRoom_new 1)))
       = winner_id (GameRoom_CheckGameOver (set_players [(9, d), (7, e)] (GameRoom_new 1))) \<and>
     winner_id (GameRoom_CheckGameOver (set_players [(7, e), (9, d)] (GameRoom_new 1))) = 7"
  using CheckGameOver_order_independent
    [of "[(7, \<lparr>ent_player_id = 7, ent_x = 0 :: rat, ent_y = 0, ent_hp = 10, ent_alive = True\<rparr>),
          (9, \<lparr>ent_player_id = 9, ent_x = 0, ent_y = 0, ent_hp = 0, ent_alive = False\<rparr>)]"
        "[(9, \<lparr>ent_player_id = 9, ent_x = 0, ent_y = 0, ent_hp = 0, ent_alive = False\<rparr>),
          (7, \<lparr>ent_player_id = 7, ent_x = 0 :: rat, ent_y = 0, ent_hp = 10, ent_alive = True\<rparr>)]" "GameRoom_new 1"]
  by (simp add: CheckGameOver_eq insert_commute)


text \<open>\<open>std::clamp\<close> does not stop a NaN: a living player whose input carries NaN as \<open>move_x\<close>, the
  only input of the next tick, keeps its health for the rest of the battle whatever anybody sends; only
  a surrender of that player can end it.  The clamp to \<open>[-1, 1]\<close> therefore does not bound the position,
  and such a player cannot be beaten.\<close>

theorem NaN_move_makes_invulnerable:
  assumes nan: "nan_laws F isnan" "isnan (move_x i)"
    and g: "\<not> game_over g" "input_buffer g = []" "um_find (gr_players g) (in_player_id i) = Some e" "ent_alive e"
    and ops: "GrEliminate (in_player_id i) \<notin> set ops"
    and fire: "\<not> fire i"
  shows "\<exists>e'. um_find (gr_players (gr_run F (GrInput i # GrTick # ops) g)) (in_player_id i) = Some e' \<and>
              ent_hp e' = ent_hp e"
proof -
  have "nan_at isnan (in_player_id i) (ent_hp e) (gr_players (GameRoom_Tick F (GameRoom_HandleInput i g)))"
    using g nan fire nan_moved [OF nan, of e]
    by (simp add: Tick_players GameRoom_HandleInput_def InputBuffer_Push_def nan_at_def apply_players_lookup)
  from nan_at_run [OF nan(1) this ops] show ?thesis by (auto simp: nan_at_def)
qed

theorem NaN_move_makes_invulnerable_witness:
  "\<exists>e'. um_find (gr_players (gr_run rat_nan
          (GrInput \<lparr>in_player_id = 7, input_seq = 1, move_x = None, move_y = Some 0, fire = False, timestamp_ms = 0\<rparr>
           # GrTick # [GrInput \<lparr>in_player_id = 9, input_seq = 1, move_x = Some 0, move_y = Some 0, fire = True, timestamp_ms = 0\<rparr>, GrTick])
          (GameRoom_Start rat_nan [7, 9] (GameRoom_new 1000)))) 7 = Some e' \<and> ent_hp e' = 100"
proof -
  let ?g = "GameRoom_Start rat_nan [7, 9] (GameRoom_new 1000)"
  let ?i = "\<lparr>in_player_id = 7, input_seq = 1, move_x = None, move_y = Some 0, fire = False, timestamp_ms = 0\<rparr> :: rat option InputCommand"
  have n: "nan_laws rat_nan (\<lambda>a. a = None)"
    by (auto simp: nan_laws_def rat_nan_def opt2_def split: option.splits)
  have s: "um_find (gr_players ?g) (in_player_id ?i) = Some \<lparr>ent_player_id = 7, ent_x = Some 0, ent_y = Some 0, ent_hp = 100, ent_alive = True\<rparr>"
    by (simp add: gr_eval)
  have "\<not> game_over ?g" "input_buffer ?g = []" by (simp_all add: gr_eval)
  from NaN_move_makes_invulnerable [OF n _ this s, of "[GrInput \<lparr>in_player_id = 9, input_seq = 1, move_x = Some 0, move_y = Some 0, fire = True, timestamp_ms = 0\<rparr>, GrTick]"]
  show ?thesis by simp
qed

end
