(* ===== verification/Net.thy ===== *)
theory Net
  imports Packet_Codec Game_Room
begin

text \<open>
  Sessions and the connection manager: \<open>src/src/net/session.h\<close>, \<open>session.cpp\<close>,
  \<open>connection_manager.h\<close>, the message numbers of \<open>src/src/protocol/message_id.h\<close> and the messages of
  \<open>src/proto\<close> that the server sends.

  A \<open>Session\<close> object is shared: the connection manager, the player manager and the TCP connection
  hold \<open>shared_ptr\<close>s to the same object.  The model has a store \<open>heap\<close> of session objects and a
  pointer is an address; \<open>None\<close> is \<open>nullptr\<close>.  What a session sends is appended to \<open>outbox\<close> in
  program order, and a request to close is appended to \<open>closing\<close>: the connection runs both later on
  its strand.
\<close>

subsection \<open>Messages\<close>

datatype MessageId =
    MSG_LOGIN_REQ | MSG_LOGIN_RESP | MSG_HEARTBEAT_REQ | MSG_HEARTBEAT_RESP
  | MSG_RECONNECT_REQ | MSG_RECONNECT_RESP
  | MSG_MATCH_REQ | MSG_MATCH_RESP | MSG_MATCH_SUCCESS_NOTIFY | MSG_MATCH_CANCEL_REQ | MSG_MATCH_CANCEL_RESP
  | MSG_READY_REQ | MSG_READY_NOTIFY | MSG_ROOM_STATE_NOTIFY | MSG_LEAVE_ROOM_REQ | MSG_LEAVE_ROOM_RESP
  | MSG_PLAYER_LEAVE_ROOM_NOTIFY
  | MSG_INPUT_REQ | MSG_GAME_STATE_NOTIFY | MSG_GAME_OVER_NOTIFY
  | MSG_RANK_REQ | MSG_RANK_RESP

primrec msg_value :: "MessageId \<Rightarrow> u32" where
  "msg_value MSG_LOGIN_REQ = 1001"
| "msg_value MSG_LOGIN_RESP = 1002"
| "msg_value MSG_HEARTBEAT_REQ = 1003"
| "msg_value MSG_HEARTBEAT_RESP = 1004"
| "msg_value MSG_RECONNECT_REQ = 1005"
| "msg_value MSG_RECONNECT_RESP = 1006"
| "msg_value MSG_MATCH_REQ = 2001"
| "msg_value MSG_MATCH_RESP = 2002"
| "msg_value MSG_MATCH_SUCCESS_NOTIFY = 2003"
| "msg_value MSG_MATCH_CANCEL_REQ = 2004"
| "msg_value MSG_MATCH_CANCEL_RESP = 2005"
| "msg_value MSG_READY_REQ = 3001"
| "msg_value MSG_READY_NOTIFY = 3002"
| "msg_value MSG_ROOM_STATE_NOTIFY = 3005"
| "msg_value MSG_LEAVE_ROOM_REQ = 3006"
| "msg_value MSG_LEAVE_ROOM_RESP = 3007"
| "msg_value MSG_PLAYER_LEAVE_ROOM_NOTIFY = 3008"
| "msg_value MSG_INPUT_REQ = 4001"
| "msg_value MSG_GAME_STATE_NOTIFY = 4002"
| "msg_value MSG_GAME_OVER_NOTIFY = 4003"
| "msg_value MSG_RANK_REQ = 5001"
| "msg_value MSG_RANK_RESP = 5002"

record RankEntry =
  re_player_id :: i64
  re_name :: string
  re_score :: i32
  re_rank :: i32

text \<open>The messages the server sends; the fields are those of the \<open>.proto\<close> files, in their order.\<close>

datatype 'f message =
    LoginResponse i32 i64 string string
  | HeartbeatResponse i64
  | ReconnectResponse i32 i64
  | MatchResponse i32 string
  | MatchCancelResponse i32 string
  | MatchSuccessNotify i64 "i64 list"
  | ReadyNotify i64 bool
  | RoomStateNotify i64 i32 "i64 list"
  | LeaveRoomResponse i32 string
  | PlayerLeaveRoomNotify i64 i64 i32
  | GameStateMsg "'f GameStateNotify"
  | GameOverNotify i64 i64 "i64 list"
  | RankResponse "RankEntry list"

subsection \<open>Sessions\<close>

type_synonym u64 = int
type_synonym sptr = nat

record session =
  session_id :: u64
  ses_player_id :: i64
  ses_room_id :: i64
  conn_alive :: bool  \<comment> \<open>\<open>conn_.lock()\<close> succeeds\<close>
  last_heartbeat_ms :: i64

record 'f net =
  heap :: "sptr \<Rightarrow> session"
  sessions :: "(u64, sptr) umap"
  player_sessions :: "(i64, sptr) umap"
  outbox :: "(sptr \<times> MessageId \<times> 'f message) list"
  closing :: "sptr list"

definition Session_new :: "u64 \<Rightarrow> i64 \<Rightarrow> session" where
  "Session_new sid now = \<lparr>session_id = sid, ses_player_id = 0, ses_room_id = 0, conn_alive = True,
     last_heartbeat_ms = now\<rparr>"

definition on_session :: "sptr \<Rightarrow> (session \<Rightarrow> session) \<Rightarrow> 'f net \<Rightarrow> 'f net" where
  "on_session s f n = n\<lparr>heap := (heap n)(s := f (heap n s))\<rparr>"

definition Session_Send :: "sptr \<Rightarrow> MessageId \<Rightarrow> 'f message \<Rightarrow> 'f net \<Rightarrow> 'f net" where
  "Session_Send s mid msg n =
     (if conn_alive (heap n s) then n\<lparr>outbox := outbox n @ [(s, mid, msg)]\<rparr> else n)"

definition Session_Close :: "sptr \<Rightarrow> 'f net \<Rightarrow> 'f net" where
  "Session_Close s n = (if conn_alive (heap n s) then n\<lparr>closing := closing n @ [s]\<rparr> else n)"

definition Session_BindPlayerId :: "sptr \<Rightarrow> i64 \<Rightarrow> 'f net \<Rightarrow> 'f net" where
  "Session_BindPlayerId s pid n = on_session s (\<lambda>x. x\<lparr>ses_player_id := pid\<rparr>) n"

definition Session_SetRoomId :: "sptr \<Rightarrow> i64 \<Rightarrow> 'f net \<Rightarrow> 'f net" where
  "Session_SetRoomId s rid n = on_session s (\<lambda>x. x\<lparr>ses_room_id := rid\<rparr>) n"

definition Session_UpdateHeartbeatTime :: "sptr \<Rightarrow> i64 \<Rightarrow> 'f net \<Rightarrow> 'f net" where
  "Session_UpdateHeartbeatTime s now n = on_session s (\<lambda>x. x\<lparr>last_heartbeat_ms := now\<rparr>) n"

abbreviation Session_PlayerId :: "sptr \<Rightarrow> 'f net \<Rightarrow> i64" where
  "Session_PlayerId s n \<equiv> ses_player_id (heap n s)"

abbreviation Session_RoomId :: "sptr \<Rightarrow> 'f net \<Rightarrow> i64" where
  "Session_RoomId s n \<equiv> ses_room_id (heap n s)"

abbreviation Session_SessionId :: "sptr \<Rightarrow> 'f net \<Rightarrow> u64" where
  "Session_SessionId s n \<equiv> session_id (heap n s)"

lemmas session_defs = on_session_def Session_Send_def Session_Close_def Session_BindPlayerId_def
  Session_SetRoomId_def Session_UpdateHeartbeatTime_def

subsection \<open>The connection manager\<close>

definition ConnectionManager_Add :: "sptr option \<Rightarrow> 'f net \<Rightarrow> 'f net" where
  "ConnectionManager_Add session n =
     (case session of
        None \<Rightarrow> n
      | Some s \<Rightarrow>
          let n1 = n\<lparr>sessions := um_put (Session_SessionId s n) s (sessions n)\<rparr> in
          if Session_PlayerId s n1 \<noteq> 0
          then n1\<lparr>player_sessions := um_put (Session_PlayerId s n1) s (player_sessions n1)\<rparr> else n1)"

definition ConnectionManager_BindPlayer :: "i64 \<Rightarrow> sptr option \<Rightarrow> 'f net \<Rightarrow> 'f net" where
  "ConnectionManager_BindPlayer pid session n =
     (case session of
        None \<Rightarrow> n
      | Some s \<Rightarrow> n\<lparr>player_sessions := um_put pid s (player_sessions n)\<rparr>)"

definition ConnectionManager_Remove :: "u64 \<Rightarrow> 'f net \<Rightarrow> 'f net" where
  "ConnectionManager_Remove sid n =
     (let n1 = (case um_find (sessions n) sid of
                  None \<Rightarrow> n
                | Some s \<Rightarrow>
                    if um_find (player_sessions n) (Session_PlayerId s n) = Some s
                    then n\<lparr>player_sessions := um_erase (Session_PlayerId s n) (player_sessions n)\<rparr>
                    else n)
      in n1\<lparr>sessions := um_erase sid (sessions n1)\<rparr>)"

definition ConnectionManager_Get :: "u64 \<Rightarrow> 'f net \<Rightarrow> sptr option" where
  "ConnectionManager_Get sid n = um_find (sessions n) sid"

definition ConnectionManager_GetByPlayerId :: "i64 \<Rightarrow> 'f net \<Rightarrow> sptr option" where
  "ConnectionManager_GetByPlayerId pid n = um_find (player_sessions n) pid"

definition ConnectionManager_AllSessions :: "'f net \<Rightarrow> sptr list" where
  "ConnectionManager_AllSessions n = map snd (sessions n)"

subsection \<open>The interface of the connection manager\<close>

text \<open>What the login service and the end of a connection rely on: a bind replaces the session of one player, and a
  remove takes away the entry of the session with that id and, only when it is still the session of
  its player, the entry of the player.\<close>

locale session_registry =
  fixes by_player :: "i64 \<Rightarrow> 'n \<Rightarrow> sptr option"
    and by_id :: "u64 \<Rightarrow> 'n \<Rightarrow> sptr option"
    and player :: "sptr \<Rightarrow> 'n \<Rightarrow> i64"
    and bind :: "i64 \<Rightarrow> sptr option \<Rightarrow> 'n \<Rightarrow> 'n"
    and remove :: "u64 \<Rightarrow> 'n \<Rightarrow> 'n"
  assumes bound: "by_player q (bind p (Some s) n) = (if q = p then Some s else by_player q n)"
    and bound_id: "by_id i (bind p x n) = by_id i n"
    and bound_player: "player s (bind p x n) = player s n"
    and removed_id: "by_id i (remove j n) = (if i = j then None else by_id i n)"
    and removed: "by_player q (remove j n) =
      (if (\<exists>s. by_id j n = Some s \<and> player s n = q \<and> by_player q n = Some s) then None else by_player q n)"
begin

lemma removed_current: "by_id j n = Some s \<Longrightarrow> player s n = p \<Longrightarrow> by_player p n = Some s \<Longrightarrow> by_player p (remove j n) = None"
  by (simp add: removed)

lemma removed_stale: "by_id j n = Some s \<Longrightarrow> by_player q n \<noteq> Some s \<Longrightarrow> by_player q (remove j n) = by_player q n"
  by (simp add: removed)

lemma removed_other: "by_id j n = Some s \<Longrightarrow> player s n \<noteq> q \<Longrightarrow> by_player q (remove j n) = by_player q n"
  by (simp add: removed)

text \<open>The end of an old connection does not undo a later bind.\<close>

lemma bind_survives_remove: "by_id j n = Some old \<Longrightarrow> s \<noteq> old \<Longrightarrow> by_player p (remove j (bind p (Some s) n)) = Some s"
  by (simp add: removed bound bound_id)

end

interpretation cm: session_registry ConnectionManager_GetByPlayerId ConnectionManager_Get Session_PlayerId
    ConnectionManager_BindPlayer ConnectionManager_Remove
  by unfold_locales
     (auto simp: ConnectionManager_GetByPlayerId_def ConnectionManager_Get_def ConnectionManager_BindPlayer_def
       ConnectionManager_Remove_def Let_def split: option.splits)

text \<open>The loop shared by all broadcasts: send to each player that has a session.\<close>

fun send_to_players :: "i64 list \<Rightarrow> MessageId \<Rightarrow> 'f message \<Rightarrow> 'f net \<Rightarrow> 'f net" where
  "send_to_players [] mid msg n = n"
| "send_to_players (pid # pids) mid msg n =
     send_to_players pids mid msg
       (case ConnectionManager_GetByPlayerId pid n of
          None \<Rightarrow> n | Some s \<Rightarrow> Session_Send s mid msg n)"

subsection \<open>Frame lemmas\<close>

lemma Session_Send_frame [simp]:
  "heap (Session_Send s m x n) = heap n" "sessions (Session_Send s m x n) = sessions n"
  "player_sessions (Session_Send s m x n) = player_sessions n" "closing (Session_Send s m x n) = closing n"
  by (simp_all add: Session_Send_def)

lemma Session_Close_frame [simp]:
  "heap (Session_Close s n) = heap n" "sessions (Session_Close s n) = sessions n"
  "player_sessions (Session_Close s n) = player_sessions n" "outbox (Session_Close s n) = outbox n"
  by (simp_all add: Session_Close_def)

lemma on_session_frame [simp]:
  "sessions (on_session s f n) = sessions n" "player_sessions (on_session s f n) = player_sessions n"
  "outbox (on_session s f n) = outbox n" "closing (on_session s f n) = closing n"
  "heap (on_session s f n) = (heap n)(s := f (heap n s))"
  by (simp_all add: on_session_def)

lemma session_setters_frame [simp]:
  "sessions (Session_SetRoomId s r n) = sessions n" "player_sessions (Session_SetRoomId s r n) = player_sessions n"
  "outbox (Session_SetRoomId s r n) = outbox n" "closing (Session_SetRoomId s r n) = closing n"
  "sessions (Session_BindPlayerId s p n) = sessions n" "player_sessions (Session_BindPlayerId s p n) = player_sessions n"
  "outbox (Session_BindPlayerId s p n) = outbox n" "closing (Session_BindPlayerId s p n) = closing n"
  "sessions (Session_UpdateHeartbeatTime s t n) = sessions n"
  "player_sessions (Session_UpdateHeartbeatTime s t n) = player_sessions n"
  "outbox (Session_UpdateHeartbeatTime s t n) = outbox n" "closing (Session_UpdateHeartbeatTime s t n) = closing n"
  by (simp_all add: Session_SetRoomId_def Session_BindPlayerId_def Session_UpdateHeartbeatTime_def)

lemma send_to_players_frame [simp]:
  "heap (send_to_players ps m x n) = heap n" "sessions (send_to_players ps m x n) = sessions n"
  "player_sessions (send_to_players ps m x n) = player_sessions n"
  "closing (send_to_players ps m x n) = closing n"
  by (induction ps arbitrary: n) (auto split: option.splits)

text \<open>What a broadcast adds to the outbox: one message per player with a live session, in order.\<close>

definition reachable_sessions :: "i64 list \<Rightarrow> 'f net \<Rightarrow> sptr list" where
  "reachable_sessions ps n =
     filter (\<lambda>s. conn_alive (heap n s)) (List.map_filter (\<lambda>p. um_find (player_sessions n) p) ps)"

lemma send_to_players_outbox:
  "outbox (send_to_players ps m x n) = outbox n @ map (\<lambda>s. (s, m, x)) (reachable_sessions ps n)"
  by (induction ps arbitrary: n)
     (auto simp: reachable_sessions_def ConnectionManager_GetByPlayerId_def Session_Send_def
        List.map_filter_simps split: option.splits)

lemma inj_msg_value: "msg_value a = msg_value b \<Longrightarrow> a = b"
  by (cases a; cases b) simp_all

end
