(* ===== verification/Tcp_Connection.thy ===== *)
theory Tcp_Connection
  imports Packet_Codec
begin

text \<open>
  One TCP connection, \<open>src/src/net/tcp_connection.h\<close> and \<open>tcp_connection.cpp\<close>.  All handlers of a
  connection run on its strand, one at a time, so the connection is a state machine whose steps are the
  posted \<open>Send\<close>, the posted \<open>Close\<close> and the completions of \<open>async_read_some\<close> and \<open>async_write\<close>.  Asio is
  outside the model: the completion of an operation in flight is a step with the result Asio reports.
  \<open>writes\<close> lists the buffers of the \<open>async_write\<close> operations in flight, so that two writes at the same
  time would be two entries.  Reads are started by \<open>DoRead\<close> only, a flag says that one is pending.  The
  lambda that \<open>Close\<close> posts runs at once after a framing error; \<open>Close\<close> may be posted at any time as well.
  An exception of the message callback is a step of the server (\<open>Server_System\<close>).  \<open>delivered\<close> records the packets given to the message callback, \<open>stream\<close> the bytes whose
  \<open>async_write\<close> completed without error, \<open>close_calls\<close> the number of calls of the close callback.
\<close>

record conn =
  conn_id :: int
  read_buffer :: Buffer
  write_queue :: "byte list list"
  reading :: bool        \<comment> \<open>an \<open>async_read_some\<close> is pending\<close>
  writes :: "byte list list"  \<comment> \<open>the buffers of the pending \<open>async_write\<close> operations\<close>
  socket_open :: bool
  delivered :: "Packet list"
  stream :: "byte list"
  close_calls :: nat

definition TcpConnection_new :: "int \<Rightarrow> conn" where
  "TcpConnection_new cid = \<lparr>conn_id = cid, read_buffer = [], write_queue = [], reading = False,
     writes = [], socket_open = True, delivered = [], stream = [], close_calls = 0\<rparr>"

definition DoRead :: "conn \<Rightarrow> conn" where
  "DoRead c = c\<lparr>reading := True\<rparr>"

definition TcpConnection_Start :: "conn \<Rightarrow> conn" where
  "TcpConnection_Start c = DoRead c"

definition DoWrite :: "conn \<Rightarrow> conn" where
  "DoWrite c = (case write_queue c of [] \<Rightarrow> c | bytes # _ \<Rightarrow> c\<lparr>writes := writes c @ [bytes]\<rparr>)"

text \<open>The lambda posted by \<open>Send\<close>.  \<open>Encode\<close> may throw; nothing on the strand catches it.\<close>

definition TcpConnection_Send :: "Packet \<Rightarrow> conn \<Rightarrow> codec_error + conn" where
  "TcpConnection_Send packet c =
     (let was_writing = (write_queue c \<noteq> []) in
      case Encode packet of
        Inl e \<Rightarrow> Inl e
      | Inr bytes \<Rightarrow>
          let c1 = c\<lparr>write_queue := write_queue c @ [bytes]\<rparr>
          in Inr (if \<not> was_writing then DoWrite c1 else c1))"

definition TcpConnection_Close :: "conn \<Rightarrow> conn" where
  "TcpConnection_Close c = c\<lparr>socket_open := False, close_calls := Suc (close_calls c)\<rparr>"

text \<open>The completion of \<open>async_read_some\<close>: an error, or the bytes read (4096 at most).\<close>

definition on_read :: "byte list option \<Rightarrow> conn \<Rightarrow> conn" where
  "on_read result c0 =
     (let c = c0\<lparr>reading := False\<rparr> in
      case result of
        None \<Rightarrow> c\<lparr>close_calls := Suc (close_calls c)\<rparr>
      | Some bytes \<Rightarrow>
          (case Decode (read_buffer c @ bytes) of
             Decoded packets rest \<Rightarrow>
               DoRead (c\<lparr>read_buffer := rest, delivered := delivered c @ packets\<rparr>)
           | DecodeThrow _ rest \<Rightarrow> TcpConnection_Close (c\<lparr>read_buffer := rest\<rparr>)))"

text \<open>The completion of the \<open>async_write\<close> of \<open>bytes\<close>.  The queue is not empty then (\<open>pop_front\<close> would be undefined).\<close>

definition on_written :: "bool \<Rightarrow> byte list \<Rightarrow> conn \<Rightarrow> conn" where
  "on_written ok bytes c0 =
     (let c = c0\<lparr>writes := remove1 bytes (writes c0)\<rparr> in
      if \<not> ok then c\<lparr>close_calls := Suc (close_calls c)\<rparr>
      else
        let c1 = c\<lparr>write_queue := tl (write_queue c), stream := stream c @ bytes\<rparr>
        in if write_queue c1 \<noteq> [] then DoWrite c1 else c1)"

subsection \<open>Steps of the strand\<close>

text \<open>The label of a step is what it reads: the bytes of a successful \<open>async_read_some\<close>, or nothing.\<close>

inductive conn_step :: "byte list option \<Rightarrow> Packet list \<times> conn \<Rightarrow> Packet list \<times> conn \<Rightarrow> bool" where
  Send: "TcpConnection_Send p c = Inr c' \<Longrightarrow> conn_step None (sent, c) (sent @ [p], c')"
| Written: "bytes \<in> set (writes c) \<Longrightarrow> conn_step None (sent, c) (sent, on_written True bytes c)"
| Write_error: "bytes \<in> set (writes c) \<Longrightarrow> conn_step None (sent, c) (sent, on_written False bytes c)"
| Read: "reading c \<Longrightarrow> conn_step r (sent, c) (sent, on_read r c)"
| Close: "conn_step None (sent, c) (sent, TcpConnection_Close c)"

inductive conn_reach :: "int \<Rightarrow> Packet list \<times> conn \<Rightarrow> bool" for cid where
  Init: "conn_reach cid ([], TcpConnection_Start (TcpConnection_new cid))"
| Step: "conn_reach cid s \<Longrightarrow> conn_step r s t \<Longrightarrow> conn_reach cid t"

text \<open>
  The writing discipline: everything accepted is either on the wire or in the queue, in order, and at
  most one write is pending, that of the front of the queue.
\<close>

definition write_inv :: "Packet list \<times> conn \<Rightarrow> bool" where
  "write_inv = (\<lambda>(sent, c).
     stream c @ concat (write_queue c) = concat (map encoded sent) \<and> (\<forall>p\<in>set sent. fits p) \<and>
     (writes c = [] \<or> write_queue c \<noteq> [] \<and> writes c = [hd (write_queue c)]))"

lemma on_read_write_frame [simp]:
  "stream (on_read r c) = stream c" "write_queue (on_read r c) = write_queue c"
  "writes (on_read r c) = writes c"
  by (auto simp: on_read_def Let_def DoRead_def TcpConnection_Close_def split: option.splits decode_result.splits)

lemma Send_write_inv:
  assumes "write_inv (sent, c)" and "TcpConnection_Send p c = Inr c'"
  shows "write_inv (sent @ [p], c')"
proof -
  have "fits p" "c' = (if write_queue c = [] then DoWrite (c\<lparr>write_queue := [encoded p]\<rparr>)
                       else c\<lparr>write_queue := write_queue c @ [encoded p]\<rparr>)"
    using assms(2) by (auto simp: TcpConnection_Send_def Encode_eq Let_def split: if_splits)
  with assms(1) show ?thesis by (auto simp: write_inv_def DoWrite_def split: list.split)
qed

lemma write_inv_step: "conn_step r s t \<Longrightarrow> write_inv s \<Longrightarrow> write_inv t"
proof (induction rule: conn_step.induct)
  case (Send p c c' sent)
  then show ?case by (rule Send_write_inv [rotated])
next
  case (Written bytes c sent)
  then have "writes c = [bytes]" "write_queue c = bytes # tl (write_queue c)" by (auto simp: write_inv_def)
  then show ?case using Written(2)
    by (cases "tl (write_queue c)") (auto simp: write_inv_def on_written_def Let_def DoWrite_def)
next
  case (Write_error bytes c sent)
  then show ?case by (auto simp: write_inv_def on_written_def Let_def)
qed (auto simp: write_inv_def TcpConnection_Close_def)

lemma write_inv_reach: "conn_reach cid s \<Longrightarrow> write_inv s"
proof (induction rule: conn_reach.induct)
  case Init
  show ?case by (simp add: write_inv_def TcpConnection_Start_def DoRead_def TcpConnection_new_def)
next
  case (Step s r t)
  then show ?case by (blast intro: write_inv_step)
qed

subsection \<open>Reading in pieces\<close>

text \<open>Successive successful reads; the connection stops reading after a framing error.\<close>

fun read_chunks :: "byte list list \<Rightarrow> conn \<Rightarrow> conn" where
  "read_chunks [] c = c"
| "read_chunks (bytes # chunks) c =
     (if reading c then read_chunks chunks (on_read (Some bytes) c) else c)"

lemma on_read_ok:
  "Decode (read_buffer c @ bytes) = Decoded ps r \<Longrightarrow>
     on_read (Some bytes) c = c\<lparr>reading := True, read_buffer := r, delivered := delivered c @ ps\<rparr>"
  by (simp add: on_read_def DoRead_def)

lemma read_chunks_ok:
  assumes "reading c" and "Decode (read_buffer c @ concat chunks) = Decoded ps r"
    and "Decode (read_buffer c) = Decoded [] (read_buffer c)"
  shows "delivered (read_chunks chunks c) = delivered c @ ps \<and> read_buffer (read_chunks chunks c) = r \<and>
         reading (read_chunks chunks c) \<and> close_calls (read_chunks chunks c) = close_calls c"
  using assms
proof (induction chunks arbitrary: c ps)
  case Nil
  then show ?case by simp
next
  case (Cons bytes chunks)
  have split: "Decode (read_buffer c @ concat (bytes # chunks)) =
      (case Decode (read_buffer c @ bytes) of
         Decoded qs b \<Rightarrow> add_packets qs (Decode (b @ concat chunks))
       | DecodeThrow e b \<Rightarrow> DecodeThrow e (b @ concat chunks))"
    using Decode_append [of "read_buffer c @ bytes" "concat chunks"] by simp
  obtain qs b where qs: "Decode (read_buffer c @ bytes) = Decoded qs b"
    using Cons.prems(2) split by (cases "Decode (read_buffer c @ bytes)") auto
  obtain ps' where ps': "Decode (b @ concat chunks) = Decoded ps' r" "ps = qs @ ps'"
    using Cons.prems(2) split qs by (cases "Decode (b @ concat chunks)") auto
  have stable: "Decode b = Decoded [] b"
    using Decode_sound [OF qs] by (simp add: Decode_head [of b])
  from Cons.IH [of "on_read (Some bytes) c" ps'] Cons.prems(1) ps' stable show ?case
    by (simp add: on_read_ok [OF qs])
qed

subsection \<open>Properties\<close>

text \<open>C26. Writes are in order and never overlap: in every reachable state of a connection the bytes
  written so far followed by the queued bytes are exactly the encodings, in sending order, of the
  packets accepted by \<open>Send\<close>, and at most one \<open>async_write\<close> is in flight, that of the frame at the front
  of the queue.\<close>

theorem TcpConnection_writes_in_order:
  assumes "conn_reach cid (sent, c)"
  shows "(\<exists>bs. map Encode sent = map Inr bs \<and> stream c @ concat (write_queue c) = concat bs) \<and>
         length (writes c) \<le> 1 \<and> (\<forall>bytes\<in>set (writes c). write_queue c \<noteq> [] \<and> bytes = hd (write_queue c))"
proof -
  have w: "write_inv (sent, c)" using assms by (rule write_inv_reach)
  then have "map Encode sent = map Inr (map encoded sent) \<and>
             stream c @ concat (write_queue c) = concat (map encoded sent)"
    by (simp add: write_inv_def Encode_eq)
  then show ?thesis using w by (auto simp: write_inv_def simp del: map_map)
qed

text \<open>Two packets are sent, and the first has been written.\<close>

theorem TcpConnection_writes_in_order_witness:
  "let p = \<lparr>plength = 9, msg_id = 1004, seq = 0, body = [8]\<rparr>; q = \<lparr>plength = 9, msg_id = 1004, seq = 1, body = [8]\<rparr> in
     \<exists>c. conn_reach 1 ([p, q], c) \<and> stream c = encoded p \<and> writes c = [encoded q] \<and> length (writes c) \<le> 1"
proof -
  let ?p = "\<lparr>plength = 9, msg_id = 1004, seq = 0, body = [8]\<rparr> :: Packet"
  let ?q = "\<lparr>plength = 9, msg_id = 1004, seq = 1, body = [8]\<rparr> :: Packet"
  define c0 where "c0 = TcpConnection_Start (TcpConnection_new 1)"
  define c1 where "c1 = c0\<lparr>write_queue := [encoded ?p], writes := [encoded ?p]\<rparr>"
  define c2 where "c2 = c1\<lparr>write_queue := [encoded ?p, encoded ?q]\<rparr>"
  have new: "write_queue c0 = []" "writes c0 = []" "stream c0 = []"
    by (simp_all add: c0_def TcpConnection_Start_def DoRead_def TcpConnection_new_def)
  have sends: "TcpConnection_Send ?p c0 = Inr c1" "TcpConnection_Send ?q c1 = Inr c2"
    by (simp_all add: c1_def c2_def new TcpConnection_Send_def Encode_eq fits_def DoWrite_def)
  have "conn_reach 1 ([], c0)" unfolding c0_def by (rule conn_reach.Init)
  then have "conn_reach 1 ([?p], c1)" using conn_reach.Step [OF _ conn_step.Send [OF sends(1), of "[]"]] by simp
  then have "conn_reach 1 ([?p, ?q], c2)" using conn_reach.Step [OF _ conn_step.Send [OF sends(2), of "[?p]"]] by simp
  moreover have "encoded ?p \<in> set (writes c2)" by (simp add: c1_def c2_def)
  ultimately have r: "conn_reach 1 ([?p, ?q], on_written True (encoded ?p) c2)"
    using conn_reach.Step [OF _ conn_step.Written [of "encoded ?p" c2 "[?p, ?q]"]] by blast
  moreover have "stream (on_written True (encoded ?p) c2) = encoded ?p" "writes (on_written True (encoded ?p) c2) = [encoded ?q]"
    by (simp_all add: c1_def c2_def new on_written_def DoWrite_def)
  ultimately show ?thesis using TcpConnection_writes_in_order [OF r] unfolding Let_def by blast
qed

text \<open>Fragmentation does not matter: however the network cuts a byte stream of complete and
  partial frames into reads, the connection delivers the packets of the whole stream, in order, keeps
  the same half packet and goes on reading.\<close>

theorem TcpConnection_fragmentation_independent:
  assumes "Decode (concat chunks) = Decoded packets rest"
  defines "c \<equiv> read_chunks chunks (TcpConnection_Start (TcpConnection_new 1))"
  shows "delivered c = packets \<and> read_buffer c = rest \<and> reading c \<and> close_calls c = 0"
  using read_chunks_ok [of "TcpConnection_Start (TcpConnection_new 1)" chunks packets rest] assms
  by (simp add: TcpConnection_Start_def DoRead_def TcpConnection_new_def)


theorem TcpConnection_fragmentation_independent_witness:
  "delivered (read_chunks [[0, 0], [0, 9, 0, 0, 3, 236, 0, 0, 0], [7, 8, 0]] (TcpConnection_Start (TcpConnection_new 1)))
     = [\<lparr>plength = 9, msg_id = 1004, seq = 7, body = [8]\<rparr>]"
proof -
  have "Decode (concat [[0, 0], [0, 9, 0, 0, 3, 236, 0, 0, 0], [7, 8, 0]])
          = Decoded [\<lparr>plength = 9, msg_id = 1004, seq = 7, body = [8]\<rparr>] [0]"
    by (simp add: Decode_head head_frame_def Let_def)
  from TcpConnection_fragmentation_independent [OF this] show ?thesis by simp
qed

end
