(* ===== verification/Room.thy ===== *)
theory Room
  imports Net
begin

text \<open>
  A room and its state machine: \<open>src/src/room/room_state.h\<close>, \<open>room_player.h\<close>, \<open>room.h\<close> and
  \<open>room.cpp\<close>.  Each method changes the room under its mutex and then, where it broadcasts, sends
  without the lock; the state change is one step, so any concurrent use of a room is a sequence of the
  operations \<open>room_op\<close>.
\<close>

datatype RoomState = Waiting | Playing | Settlement | Closed

primrec room_state_value :: "RoomState \<Rightarrow> i32" where
  "room_state_value Waiting = 0"
| "room_state_value Playing = 2"
| "room_state_value Settlement = 3"
| "room_state_value Closed = 4"

record RoomPlayer =
  rp_player_id :: i64
  ready :: bool
  connected :: bool
  rp_hp :: i32
  rp_x :: rat  \<comment> \<open>reserved in the source, never written\<close>
  rp_y :: rat

record room =
  room_id :: i64
  has_connections :: bool  \<comment> \<open>\<open>connection_manager_\<close> is not null\<close>
  room_state :: RoomState
  room_players :: "(i64, RoomPlayer) umap"

definition Room_new :: "i64 \<Rightarrow> bool \<Rightarrow> room" where
  "Room_new rid cm = \<lparr>room_id = rid, has_connections = cm, room_state = Waiting, room_players = []\<rparr>"

definition Room_AddPlayer :: "i64 \<Rightarrow> room \<Rightarrow> bool \<times> room" where
  "Room_AddPlayer pid r =
     (if room_state r \<noteq> Waiting then (False, r)
      else (True, r\<lparr>room_players := um_put pid
              \<lparr>rp_player_id = pid, ready = False, connected = True, rp_hp = 100, rp_x = 0, rp_y = 0\<rparr>
              (room_players r)\<rparr>))"

definition Room_RemovePlayer :: "i64 \<Rightarrow> room \<Rightarrow> bool \<times> room" where
  "Room_RemovePlayer pid r =
     (um_has (room_players r) pid, r\<lparr>room_players := um_erase pid (room_players r)\<rparr>)"

definition Room_PlayerIds :: "room \<Rightarrow> i64 list" where
  "Room_PlayerIds r = um_keys (room_players r)"

definition Room_Broadcast :: "room \<Rightarrow> MessageId \<Rightarrow> 'f message \<Rightarrow> 'f net \<Rightarrow> 'f net" where
  "Room_Broadcast r mid msg n =
     (if has_connections r then send_to_players (Room_PlayerIds r) mid msg n else n)"

definition Room_SetReady :: "i64 \<Rightarrow> bool \<Rightarrow> room \<Rightarrow> 'f net \<Rightarrow> room \<times> 'f net" where
  "Room_SetReady pid rdy r n =
     (if \<not> um_has (room_players r) pid \<or> room_state r \<noteq> Waiting then (r, n)
      else let r' = r\<lparr>room_players := um_modify pid (\<lambda>p. p\<lparr>ready := rdy\<rparr>) (room_players r),
                      room_state := Waiting\<rparr>
           in (r', Room_Broadcast r' MSG_READY_NOTIFY (ReadyNotify pid rdy) n))"

text \<open>\<open>all_ready\<close> as the loops compute it: not empty, and a conjunction over the table.\<close>

definition all_ready :: "(i64, RoomPlayer) umap \<Rightarrow> bool" where
  "all_ready ps = foldl (\<lambda>acc (_, p). acc \<and> ready p) (ps \<noteq> []) ps"

definition Room_SetReadyAndTryStart :: "i64 \<Rightarrow> bool \<Rightarrow> room \<Rightarrow> 'f net \<Rightarrow> bool \<times> room \<times> 'f net" where
  "Room_SetReadyAndTryStart pid rdy r n =
     (if \<not> um_has (room_players r) pid \<or> room_state r \<noteq> Waiting then (False, r, n)
      else let players = um_modify pid (\<lambda>p. p\<lparr>ready := rdy\<rparr>) (room_players r);
               started = all_ready players;
               r' = r\<lparr>room_players := players, room_state := if started then Playing else Waiting\<rparr>
           in (started, r', Room_Broadcast r' MSG_READY_NOTIFY (ReadyNotify pid rdy) n))"

definition Room_CanStart :: "room \<Rightarrow> bool" where
  "Room_CanStart r \<longleftrightarrow>
     \<not> (room_players r = [] \<or> room_state r \<noteq> Waiting) \<and> list_all (\<lambda>(_, p). ready p) (room_players r)"

definition Room_StartGame :: "room \<Rightarrow> room" where
  "Room_StartGame r =
     (if all_ready (room_players r) \<and> room_state r = Waiting then r\<lparr>room_state := Playing\<rparr> else r)"

definition Room_SetSettlement :: "room \<Rightarrow> room" where
  "Room_SetSettlement r = (if room_state r = Playing then r\<lparr>room_state := Settlement\<rparr> else r)"

definition Room_Close :: "room \<Rightarrow> room" where
  "Room_Close r = r\<lparr>room_state := Closed\<rparr>"

definition Room_OnPlayerDisconnect :: "i64 \<Rightarrow> room \<Rightarrow> room" where
  "Room_OnPlayerDisconnect pid r =
     (if um_has (room_players r) pid
      then r\<lparr>room_players := um_modify pid (\<lambda>p. p\<lparr>connected := False\<rparr>) (room_players r)\<rparr> else r)"

definition Room_OnPlayerReconnect :: "i64 \<Rightarrow> sptr option \<Rightarrow> room \<Rightarrow> 'f net \<Rightarrow> room \<times> 'f net" where
  "Room_OnPlayerReconnect pid session r n =
     (let r' = (if um_has (room_players r) pid
                then r\<lparr>room_players := um_modify pid (\<lambda>p. p\<lparr>connected := True\<rparr>) (room_players r)\<rparr> else r)
      in (r', case session of None \<Rightarrow> n | Some s \<Rightarrow> Session_SetRoomId s (room_id r') n))"

subsection \<open>Readiness\<close>

lemma foldl_conj: "foldl (\<lambda>acc (_, p). acc \<and> ready p) b ps = (b \<and> (\<forall>(_, p)\<in>set ps. ready p))"
  by (induction ps arbitrary: b) auto

lemma all_ready_iff: "all_ready ps \<longleftrightarrow> ps \<noteq> [] \<and> (\<forall>(_, p)\<in>set ps. ready p)"
  by (simp only: all_ready_def foldl_conj)

lemma Room_CanStart_iff: "Room_CanStart r \<longleftrightarrow> room_state r = Waiting \<and> all_ready (room_players r)"
  by (auto simp: Room_CanStart_def all_ready_iff list_all_iff)

lemma Room_Broadcast_frame [simp]:
  "heap (Room_Broadcast r m x n) = heap n" "sessions (Room_Broadcast r m x n) = sessions n"
  "player_sessions (Room_Broadcast r m x n) = player_sessions n"
  "closing (Room_Broadcast r m x n) = closing n"
  by (simp_all add: Room_Broadcast_def)

lemma Room_Broadcast_outbox:
  "has_connections r \<Longrightarrow> outbox (Room_Broadcast r m x n) =
     outbox n @ map (\<lambda>s. (s, m, x)) (reachable_sessions (um_keys (room_players r)) n)"
  by (simp add: Room_Broadcast_def send_to_players_outbox Room_PlayerIds_def)

subsection \<open>The state machine under any interleaving\<close>

datatype room_op =
    RAdd i64 | RRemove i64 | RReady i64 bool | RReadyStart i64 bool | RStartGame
  | RSettle | RClose | RDisconnect i64 | RReconnect i64 "sptr option"

text \<open>One call; the flag says whether this call moved the room to Playing.\<close>

fun room_step :: "room_op \<Rightarrow> room \<times> 'f net \<Rightarrow> bool \<times> room \<times> 'f net" where
  "room_step (RAdd p) (r, n) = (False, snd (Room_AddPlayer p r), n)"
| "room_step (RRemove p) (r, n) = (False, snd (Room_RemovePlayer p r), n)"
| "room_step (RReady p b) (r, n) = (False, Room_SetReady p b r n)"
| "room_step (RReadyStart p b) (r, n) = Room_SetReadyAndTryStart p b r n"
| "room_step RStartGame (r, n) =
     (room_state r \<noteq> Playing \<and> room_state (Room_StartGame r) = Playing, Room_StartGame r, n)"
| "room_step RSettle (r, n) = (False, Room_SetSettlement r, n)"
| "room_step RClose (r, n) = (False, Room_Close r, n)"
| "room_step (RDisconnect p) (r, n) = (False, Room_OnPlayerDisconnect p r, n)"
| "room_step (RReconnect p s) (r, n) = (False, Room_OnPlayerReconnect p s r n)"

text \<open>The number of calls of a run that started the game, and the room at its end.\<close>

fun room_run :: "room_op list \<Rightarrow> room \<times> 'f net \<Rightarrow> nat \<times> room \<times> 'f net" where
  "room_run [] s = (0, s)"
| "room_run (op # ops) s =
     (case room_step op s of (started, s') \<Rightarrow>
        case room_run ops s' of (k, s'') \<Rightarrow> ((if started then Suc k else k), s''))"

primrec phase :: "RoomState \<Rightarrow> nat" where
  "phase Waiting = 0" | "phase Playing = 1" | "phase Settlement = 2" | "phase Closed = 3"

lemmas room_op_defs = Room_AddPlayer_def Room_RemovePlayer_def Room_SetReady_def
  Room_SetReadyAndTryStart_def Room_StartGame_def Room_SetSettlement_def Room_Close_def
  Room_OnPlayerDisconnect_def Room_OnPlayerReconnect_def

text \<open>The order of the life cycle.\<close>

instantiation RoomState :: linorder
begin

definition less_eq_RoomState :: "RoomState \<Rightarrow> RoomState \<Rightarrow> bool" where
  "s \<le> t \<longleftrightarrow> phase s \<le> phase t"

definition less_RoomState :: "RoomState \<Rightarrow> RoomState \<Rightarrow> bool" where
  "s < t \<longleftrightarrow> phase s < phase t"

instance
proof
  show "s = t" if "s \<le> t" "t \<le> s" for s t :: RoomState
    using that by (cases s; cases t) (simp_all add: less_eq_RoomState_def)
qed (auto simp: less_eq_RoomState_def less_RoomState_def)

end

lemma RoomState_order [simp]: "Waiting \<le> s" "s \<le> Closed"
  by (cases s, simp_all add: less_eq_RoomState_def)+

lemma phase_eq_0 [simp]: "phase s = 0 \<longleftrightarrow> s = Waiting"
  by (cases s) auto

lemma room_step_phase_le:
  "phase (room_state r) \<le> phase (room_state (fst (snd (room_step op (r, n)))))"
proof (cases op)
  case RClose
  then show ?thesis by (cases "room_state r") (simp_all add: room_op_defs)
qed (simp_all add: room_op_defs Let_def)

lemma room_step_id: "room_id (fst (snd (room_step op (r, n)))) = room_id r"
  by (cases op) (simp_all add: room_op_defs Let_def)

lemma room_step_started:
  "fst (room_step op (r, n)) \<Longrightarrow>
     room_state r = Waiting \<and> room_state (fst (snd (room_step op (r, n)))) = Playing \<and>
     all_ready (room_players (fst (snd (room_step op (r, n)))))"
proof (cases op)
  case (RReadyStart p b)
  assume "fst (room_step op (r, n))"
  with RReadyStart have "um_has (room_players r) p" "room_state r = Waiting"
    "all_ready (um_modify p (\<lambda>q. q\<lparr>ready := b\<rparr>) (room_players r))"
    by (auto simp: Room_SetReadyAndTryStart_def Let_def split: if_splits)
  then show ?thesis by (simp add: RReadyStart Room_SetReadyAndTryStart_def Let_def)
next
  case RStartGame
  assume "fst (room_step op (r, n))"
  with RStartGame show ?thesis by (auto simp: Room_StartGame_def split: if_splits)
qed simp_all

lemma room_run_starts:
  "room_run ops (r, n) = (k, r', n') \<Longrightarrow>
     phase (room_state r) \<le> phase (room_state r') \<and> room_id r' = room_id r \<and>
     (if room_state r = Waiting then k \<le> 1 else k = 0) \<and> (0 < k \<longrightarrow> room_state r' \<noteq> Waiting)"
proof (induction ops arbitrary: r n k)
  case Nil
  then show ?case by simp
next
  case (Cons op ops)
  obtain st r1 n1 where s: "room_step op (r, n) = (st, r1, n1)" by (cases "room_step op (r, n)")
  obtain k1 where k1: "room_run ops (r1, n1) = (k1, r', n')" and k: "k = (if st then Suc k1 else k1)"
    using Cons.prems s by (auto split: prod.splits)
  have ph: "phase (room_state r) \<le> phase (room_state r1)" "room_id r1 = room_id r"
    using room_step_phase_le [of r op n] room_step_id [of op r n] by (simp_all add: s)
  note ih = Cons.IH [OF k1]
  show ?case
  proof (cases st)
    case True
    then have st: "room_state r = Waiting" "room_state r1 = Playing"
      using room_step_started [of op r n] by (auto simp: s)
    with ih have "k1 = 0" "1 \<le> phase (room_state r')" by auto
    moreover from this have "room_state r' \<noteq> Waiting" by auto
    ultimately show ?thesis using st ih k True ph by simp
  next
    case False
    have "room_state r \<noteq> Waiting \<Longrightarrow> room_state r1 \<noteq> Waiting" using ph(1) by auto
    then show ?thesis using ih k False ph by (auto split: if_splits)
  qed
qed

subsection \<open>Properties\<close>

text \<open>C21. A game starts at most once: whatever sequence of calls the threads make on a room, at most one
  call moves it to Playing; the life cycle Waiting, Playing, Settlement, Closed is never walked
  backwards; and a room that has left Waiting is never started again, in particular not by ready
  requests that arrive during the settlement.\<close>

theorem Room_starts_at_most_once:
  assumes "room_run ops (r, n) = (k, r', n')"
  shows "room_state r \<le> room_state r' \<and>
         (if room_state r = Waiting then k \<le> 1 else k = 0) \<and>
         (0 < k \<longrightarrow> room_state r' \<noteq> Waiting)"
  using room_run_starts [OF assms] unfolding less_eq_RoomState_def by blast

theorem Room_starts_at_most_once_witness:
  "fst (room_run [RAdd 11, RAdd 12, RReadyStart 11 True, RReadyStart 12 True, RReadyStart 12 True, RSettle,
                  RReadyStart 11 True, RStartGame]
          (Room_new 1 False, undefined :: unit net)) = 1"
proof -
  let ?ops = "[RAdd 11, RAdd 12, RReadyStart 11 True, RReadyStart 12 True, RReadyStart 12 True, RSettle,
                  RReadyStart 11 True, RStartGame]"
  obtain k r' n' where run: "room_run ?ops (Room_new 1 False, undefined :: unit net) = (k, r', n')"
    by (cases "room_run ?ops (Room_new 1 False, undefined :: unit net)")
  have "k \<le> 1" using Room_starts_at_most_once [OF run] by (simp add: Room_new_def)
  moreover have "0 < k"
    using run by (auto simp: Room_new_def room_op_defs all_ready_iff Room_Broadcast_def split: prod.splits)
  ultimately show ?thesis using run by simp
qed

text \<open>The atomic \<open>SetReadyAndTryStart\<close> does what the separate calls \<open>SetReady\<close>, \<open>CanStart\<close> and
  \<open>StartGame\<close> do in a row: same room, same notifications, and for a player of a waiting room it reports
  a start exactly when \<open>CanStart\<close> holds after \<open>SetReady\<close>, that is when every player is ready.\<close>

theorem SetReadyAndTryStart_equiv:
  fixes r :: room and n :: "'f net" and pid :: i64 and rdy :: bool
  defines "r1 \<equiv> fst (Room_SetReady pid rdy r n)"
  shows "fst (snd (Room_SetReadyAndTryStart pid rdy r n)) =
           (if um_has (room_players r) pid then Room_StartGame r1 else r1) \<and>
         snd (snd (Room_SetReadyAndTryStart pid rdy r n)) = snd (Room_SetReady pid rdy r n) \<and>
         fst (Room_SetReadyAndTryStart pid rdy r n) = (um_has (room_players r) pid \<and> Room_CanStart r1)"
  by (auto simp: r1_def Room_SetReadyAndTryStart_def Room_SetReady_def Room_CanStart_iff Room_StartGame_def
      Let_def Room_Broadcast_def Room_PlayerIds_def)

end
