(* ===== verification/Cpp_Strings.thy ===== *)
theory Cpp_Strings
  imports Prelude
begin

text \<open>
  The conversions between integers and strings of the C++ library that the server uses:
  \<open>std::to_string\<close>, \<open>std::stoi\<close>, \<open>std::stoll\<close> with their exceptions, and \<open>strtoll\<close>, which saturates.
\<close>

datatype cpp_exception = InvalidArgument | OutOfRange | MapAtOutOfRange

definition digit_char :: "nat \<Rightarrow> char" where
  "digit_char n = char_of (48 + n)"

fun dec :: "nat \<Rightarrow> string" where
  "dec n = (if n < 10 then [digit_char n] else dec (n div 10) @ [digit_char (n mod 10)])"

declare dec.simps [simp del]

definition to_string :: "int \<Rightarrow> string" where
  "to_string i = (if i < 0 then CHR ''-'' # dec (nat (- i)) else dec (nat i))"

definition is_space :: "char \<Rightarrow> bool" where
  "is_space c \<longleftrightarrow> c = CHR '' '' \<or> (9 \<le> (of_char c :: nat) \<and> (of_char c :: nat) \<le> 13)"

definition is_digit :: "char \<Rightarrow> bool" where
  "is_digit c \<longleftrightarrow> 48 \<le> (of_char c :: nat) \<and> (of_char c :: nat) \<le> 57"

definition digit_val :: "char \<Rightarrow> nat" where
  "digit_val c = of_char c - 48"

definition digits_val :: "string \<Rightarrow> nat" where
  "digits_val = foldl (\<lambda>acc c. 10 * acc + digit_val c) 0"

text \<open>The number at the head of a string, as \<open>strtoll\<close> reads it in base 10.\<close>

definition parse_int :: "string \<Rightarrow> int option" where
  "parse_int s =
     (let t = dropWhile is_space s;
          neg = (t \<noteq> [] \<and> hd t = CHR ''-'');
          u = (if t \<noteq> [] \<and> (hd t = CHR ''-'' \<or> hd t = CHR ''+'') then tl t else t);
          ds = takeWhile is_digit u
      in if ds = [] then None else Some (if neg then - int (digits_val ds) else int (digits_val ds)))"

definition stoll :: "string \<Rightarrow> cpp_exception + i64" where
  "stoll s = (case parse_int s of None \<Rightarrow> Inl InvalidArgument
              | Some v \<Rightarrow> if in_i64 v then Inr v else Inl OutOfRange)"

definition stoi :: "string \<Rightarrow> cpp_exception + i32" where
  "stoi s = (case parse_int s of None \<Rightarrow> Inl InvalidArgument
             | Some v \<Rightarrow> if in_i32 v then Inr v else Inl OutOfRange)"

definition strtoll :: "string \<Rightarrow> i64" where
  "strtoll s = (case parse_int s of None \<Rightarrow> 0 | Some v \<Rightarrow> max (- (2 ^ 63)) (min (2 ^ 63 - 1) v))"

subsection \<open>Reading back what was printed\<close>

lemma of_char_digit_char: "n < 10 \<Longrightarrow> (of_char (digit_char n) :: nat) = 48 + n"
  by (simp add: digit_char_def)

lemma is_digit_digit_char: "n < 10 \<Longrightarrow> is_digit (digit_char n)"
  by (simp add: is_digit_def of_char_digit_char)

lemma dec_digits: "list_all is_digit (dec n) \<and> dec n \<noteq> []"
proof (induction n rule: dec.induct)
  case (1 n)
  then show ?case by (subst (1 2) dec.simps) (auto simp: is_digit_digit_char)
qed

lemma digits_val_snoc: "digits_val (ds @ [c]) = 10 * digits_val ds + digit_val c"
  by (simp add: digits_val_def)

lemma digit_val_digit_char: "n < 10 \<Longrightarrow> digit_val (digit_char n) = n"
  by (simp add: digit_val_def of_char_digit_char)

lemma digits_val_dec: "digits_val (dec n) = n"
proof (induction n rule: dec.induct)
  case (1 n)
  show ?case
  proof (cases "n < 10")
    case True
    then show ?thesis by (subst dec.simps) (simp add: digits_val_def digit_val_digit_char)
  next
    case False
    then show ?thesis using 1 by (subst dec.simps) (simp add: digits_val_snoc digit_val_digit_char)
  qed
qed

lemma digit_not_special:
  assumes "is_digit c"
  shows "\<not> is_space c" and "c \<noteq> CHR ''-''" and "c \<noteq> CHR ''+''"
  using assms by (auto simp: is_digit_def is_space_def)

lemma minus_not_space: "\<not> is_space (CHR ''-'')"
  by (simp add: is_space_def)

lemma takeWhile_dec: "takeWhile is_digit (dec n) = dec n"
  using dec_digits [of n] by (simp add: takeWhile_eq_all_conv list_all_iff)

lemma parse_to_string [simp]: "parse_int (to_string i) = Some i"
proof (cases "i < 0")
  case True
  then have t: "to_string i = CHR ''-'' # dec (nat (- i))" by (simp add: to_string_def)
  show ?thesis
    using True dec_digits [of "nat (- i)"]
    by (simp add: t parse_int_def minus_not_space takeWhile_dec digits_val_dec Let_def)
next
  case False
  then have t: "to_string i = dec (nat i)" by (simp add: to_string_def)
  obtain c cs where c: "dec (nat i) = c # cs" "is_digit c"
    using dec_digits [of "nat i"] by (cases "dec (nat i)") auto
  have "dropWhile is_space (dec (nat i)) = dec (nat i)"
    using c digit_not_special(1) by simp
  then show ?thesis
    using False c digit_not_special(2,3) [OF c(2)] takeWhile_dec [of "nat i"] digits_val_dec [of "nat i"]
    by (simp add: t parse_int_def Let_def takeWhile_eq_all_conv [THEN iffD2])
qed

lemma stoll_to_string [simp]: "in_i64 i \<Longrightarrow> stoll (to_string i) = Inr i"
  by (simp add: stoll_def)

lemma stoi_to_string [simp]: "in_i32 i \<Longrightarrow> stoi (to_string i) = Inr i"
  by (simp add: stoi_def)

lemma strtoll_to_string [simp]: "in_i64 i \<Longrightarrow> strtoll (to_string i) = i"
  by (auto simp: strtoll_def in_i64_def)

lemma inj_to_string: "to_string a = to_string b \<Longrightarrow> a = b"
  by (metis option.inject parse_to_string)

end
