(* ===== verification/Config_Manager.thy ===== *)
theory Config_Manager
  imports Cpp_Strings
begin

text \<open>
  Loading \<open>config/server.yaml\<close>: \<open>src/src/config/config_manager.h\<close> and \<open>config_manager.cpp\<close>.  The
  file is the list of its lines as \<open>std::getline\<close> yields them; a file that cannot be opened is \<open>None\<close>.
  \<open>std::stoi\<close> throws out of \<open>Load\<close>; the settings made before are kept.
\<close>

record MysqlConfig =
  mysql_host :: string
  mysql_port :: i32
  mysql_user :: string
  mysql_password :: string
  mysql_database :: string

record RedisConfig =
  redis_host :: string
  redis_port :: i32

record config =
  server_host :: string
  server_port :: i32
  worker_threads :: i32
  tick_interval_ms :: i32
  room_player_count :: i32
  mysql_cfg :: MysqlConfig
  redis_cfg :: RedisConfig

definition config_default :: config where
  "config_default =
     \<lparr>server_host = ''0.0.0.0'', server_port = 9000, worker_threads = 4, tick_interval_ms = 50,
      room_player_count = 2,
      mysql_cfg = \<lparr>mysql_host = ''127.0.0.1'', mysql_port = 3306, mysql_user = ''root'',
                   mysql_password = ''123456'', mysql_database = ''game''\<rparr>,
      redis_cfg = \<lparr>redis_host = ''127.0.0.1'', redis_port = 6379\<rparr>\<rparr>"

definition TAB :: char where "TAB = CHR 0x09"
definition CR :: char where "CR = CHR 0x0D"
definition QUOTE :: char where "QUOTE = CHR 0x22"

fun trim_front :: "string \<Rightarrow> string" where
  "trim_front [] = []"
| "trim_front (c # cs) = (if c = CHR '' '' \<or> c = TAB \<or> c = QUOTE then trim_front cs else c # cs)"

text \<open>The loop of \<open>pop_back\<close>, on the reversed string.\<close>

fun trim_back_rev :: "string \<Rightarrow> string" where
  "trim_back_rev [] = []"
| "trim_back_rev (c # cs) =
     (if c = CHR '' '' \<or> c = TAB \<or> c = CR \<or> c = QUOTE then trim_back_rev cs else c # cs)"

definition Trim :: "string \<Rightarrow> string" where
  "Trim value = rev (trim_back_rev (rev (trim_front value)))"

text \<open>\<open>None\<close> is the result \<open>false\<close>.\<close>

definition SplitKeyValue :: "string \<Rightarrow> (string \<times> string) option" where
  "SplitKeyValue line =
     (if CHR '':'' \<notin> set line then None
      else let key = Trim (takeWhile (\<lambda>c. c \<noteq> CHR '':'') line);
               value = Trim (tl (dropWhile (\<lambda>c. c \<noteq> CHR '':'') line))
           in if key \<noteq> [] then Some (key, value) else None)"

text \<open>One assignment \<open>field = std::stoi(value)\<close>.\<close>

definition set_int :: "string \<Rightarrow> (i32 \<Rightarrow> config \<Rightarrow> config) \<Rightarrow> config \<Rightarrow> cpp_exception + config" where
  "set_int value upd c = (case stoi value of Inl e \<Rightarrow> Inl e | Inr i \<Rightarrow> Inr (upd i c))"

definition set_key :: "string \<Rightarrow> string \<Rightarrow> string \<Rightarrow> config \<Rightarrow> cpp_exception + config" where
  "set_key section key value c =
     (if section = ''server'' then
        (if key = ''host'' then Inr (c\<lparr>server_host := value\<rparr>)
         else if key = ''port'' then set_int value (\<lambda>i c. c\<lparr>server_port := i\<rparr>) c
         else if key = ''worker_threads'' then set_int value (\<lambda>i c. c\<lparr>worker_threads := i\<rparr>) c
         else if key = ''tick_interval_ms'' then set_int value (\<lambda>i c. c\<lparr>tick_interval_ms := i\<rparr>) c
         else Inr c)
      else if section = ''mysql'' then
        (if key = ''host'' then Inr (c\<lparr>mysql_cfg := (mysql_cfg c)\<lparr>mysql_host := value\<rparr>\<rparr>)
         else if key = ''port'' then set_int value (\<lambda>i c. c\<lparr>mysql_cfg := (mysql_cfg c)\<lparr>mysql_port := i\<rparr>\<rparr>) c
         else if key = ''user'' then Inr (c\<lparr>mysql_cfg := (mysql_cfg c)\<lparr>mysql_user := value\<rparr>\<rparr>)
         else if key = ''password'' then Inr (c\<lparr>mysql_cfg := (mysql_cfg c)\<lparr>mysql_password := value\<rparr>\<rparr>)
         else if key = ''database'' then Inr (c\<lparr>mysql_cfg := (mysql_cfg c)\<lparr>mysql_database := value\<rparr>\<rparr>)
         else Inr c)
      else if section = ''redis'' then
        (if key = ''host'' then Inr (c\<lparr>redis_cfg := (redis_cfg c)\<lparr>redis_host := value\<rparr>\<rparr>)
         else if key = ''port'' then set_int value (\<lambda>i c. c\<lparr>redis_cfg := (redis_cfg c)\<lparr>redis_port := i\<rparr>\<rparr>) c
         else Inr c)
      else if section = ''match'' then
        (if key = ''room_player_count'' then set_int value (\<lambda>i c. c\<lparr>room_player_count := i\<rparr>) c
         else Inr c)
      else Inr c)"

text \<open>The loop of \<open>Load\<close>; the result carries the configuration even when \<open>stoi\<close> throws.\<close>

fun load_lines :: "string list \<Rightarrow> string \<Rightarrow> config \<Rightarrow> cpp_exception option \<times> config" where
  "load_lines [] section c = (None, c)"
| "load_lines (line # lines) section c =
     (if line = [] \<or> hd line = CHR ''#'' then load_lines lines section c
      else if hd line \<noteq> CHR '' '' \<and> last line = CHR '':''
      then load_lines lines (Trim (butlast line)) c
      else case SplitKeyValue line of
        None \<Rightarrow> load_lines lines section c
      | Some (key, value) \<Rightarrow>
          if value = [] then load_lines lines section c
          else (case set_key section key value c of
                  Inl e \<Rightarrow> (Some e, c)
                | Inr c' \<Rightarrow> load_lines lines section c'))"

definition ConfigManager_Load :: "string list option \<Rightarrow> config \<Rightarrow> (cpp_exception + bool) \<times> config" where
  "ConfigManager_Load file c =
     (case file of
        None \<Rightarrow> (Inr False, c)
      | Some lines \<Rightarrow>
          (case load_lines lines [] c of
             (None, c') \<Rightarrow> (Inr True, c')
           | (Some e, c') \<Rightarrow> (Inl e, c')))"

subsection \<open>Trimming\<close>

definition front_trimmed :: "char \<Rightarrow> bool" where
  "front_trimmed c \<longleftrightarrow> c = CHR '' '' \<or> c = TAB \<or> c = QUOTE"

definition back_trimmed :: "char \<Rightarrow> bool" where
  "back_trimmed c \<longleftrightarrow> c = CHR '' '' \<or> c = TAB \<or> c = CR \<or> c = QUOTE"

lemma trim_front_dropWhile: "trim_front s = dropWhile front_trimmed s"
  by (induction s) (auto simp: front_trimmed_def)

lemma trim_back_rev_dropWhile: "trim_back_rev s = dropWhile back_trimmed s"
  by (induction s) (auto simp: back_trimmed_def)

definition clean :: "string \<Rightarrow> bool" where
  "clean v \<longleftrightarrow> v \<noteq> [] \<and> \<not> front_trimmed (hd v) \<and> \<not> back_trimmed (last v)"

lemma Trim_padded:
  assumes "clean v" and "list_all front_trimmed pre" and "list_all back_trimmed post"
  shows "Trim (pre @ v @ post) = v"
proof -
  have "dropWhile front_trimmed (pre @ v @ post) = v @ post"
    using assms by (cases v) (auto simp: clean_def dropWhile_append list_all_iff)
  moreover have "dropWhile back_trimmed (rev (v @ post)) = rev v"
    using assms by (cases v rule: rev_cases) (auto simp: clean_def dropWhile_append list_all_iff)
  ultimately show ?thesis by (simp add: Trim_def trim_front_dropWhile trim_back_rev_dropWhile)
qed

lemma SplitKeyValue_line:
  assumes "clean key" and "CHR '':'' \<notin> set key" and "clean v"
    and "list_all front_trimmed pre" and "list_all back_trimmed post"
  shows "SplitKeyValue (''  '' @ key @ '': '' @ pre @ v @ post) = Some (key, v)"
proof -
  let ?line = "''  '' @ key @ '': '' @ pre @ v @ post"
  have tw: "takeWhile (\<lambda>c. c \<noteq> CHR '':'') ?line = ''  '' @ key"
    using assms(2) by (auto simp: takeWhile_append takeWhile_eq_all_conv)
  have dw: "tl (dropWhile (\<lambda>c. c \<noteq> CHR '':'') ?line) = ('' '' @ pre) @ v @ post"
    using assms(2) by (auto simp: dropWhile_append)
  have "Trim (''  '' @ key) = key"
    using Trim_padded [of key "''  ''" "[]"] assms(1) by (simp add: front_trimmed_def)
  moreover have "Trim (('' '' @ pre) @ v @ post) = v"
    using Trim_padded [of v "'' '' @ pre" post] assms by (simp add: front_trimmed_def)
  moreover have "key \<noteq> []" using assms(1) by (simp add: clean_def)
  ultimately show ?thesis by (simp add: SplitKeyValue_def tw [simplified] dw [simplified] Let_def)
qed

subsection \<open>Writing a configuration file\<close>

definition str_line :: "string \<Rightarrow> string \<Rightarrow> string" where
  "str_line key v = ''  '' @ key @ '': '' @ [QUOTE] @ v @ [QUOTE]"

definition int_line :: "string \<Rightarrow> i32 \<Rightarrow> string" where
  "int_line key i = ''  '' @ key @ '': '' @ [] @ to_string i @ []"

definition render_config :: "config \<Rightarrow> string list" where
  "render_config c =
     [''server:'', str_line ''host'' (server_host c), int_line ''port'' (server_port c),
      int_line ''worker_threads'' (worker_threads c), int_line ''tick_interval_ms'' (tick_interval_ms c), [],
      ''mysql:'', str_line ''host'' (mysql_host (mysql_cfg c)), int_line ''port'' (mysql_port (mysql_cfg c)),
      str_line ''user'' (mysql_user (mysql_cfg c)), str_line ''password'' (mysql_password (mysql_cfg c)),
      str_line ''database'' (mysql_database (mysql_cfg c)), [],
      ''redis:'', str_line ''host'' (redis_host (redis_cfg c)), int_line ''port'' (redis_port (redis_cfg c)), [],
      ''match:'', int_line ''room_player_count'' (room_player_count c)]"

definition config_ok :: "config \<Rightarrow> bool" where
  "config_ok c \<longleftrightarrow> list_all clean [server_host c, mysql_host (mysql_cfg c), mysql_user (mysql_cfg c),
       mysql_password (mysql_cfg c), mysql_database (mysql_cfg c), redis_host (redis_cfg c)] \<and>
     list_all in_i32 [server_port c, worker_threads c, tick_interval_ms c, mysql_port (mysql_cfg c),
       redis_port (redis_cfg c), room_player_count c]"

lemma clean_digits: "list_all is_digit ds \<Longrightarrow> ds \<noteq> [] \<Longrightarrow> clean ds"
proof -
  assume d: "list_all is_digit ds" "ds \<noteq> []"
  then have "is_digit (hd ds)" "is_digit (last ds)" by (simp_all add: list_all_iff)
  then show ?thesis using d(2)
    by (auto simp: clean_def front_trimmed_def back_trimmed_def is_digit_def TAB_def CR_def QUOTE_def)
qed

lemma clean_to_string: "clean (to_string i)"
proof (cases "i < 0")
  case True
  have "clean (dec (nat (- i)))" using dec_digits by (intro clean_digits) auto
  then show ?thesis using True dec_digits [of "nat (- i)"]
    by (auto simp: to_string_def clean_def front_trimmed_def TAB_def QUOTE_def)
next
  case False
  then show ?thesis using dec_digits by (simp add: to_string_def clean_digits)
qed

text \<open>Loading one written line: it is neither a comment nor a section header.\<close>

lemma load_str_line:
  assumes "clean v" and "clean key" and "CHR '':'' \<notin> set key"
  shows "load_lines (str_line key v # lines) sec c =
     (case set_key sec key v c of Inl e \<Rightarrow> (Some e, c) | Inr c' \<Rightarrow> load_lines lines sec c')"
proof -
  have s: "SplitKeyValue (str_line key v) = Some (key, v)"
    unfolding str_line_def
    by (rule SplitKeyValue_line) (use assms in \<open>auto simp: front_trimmed_def back_trimmed_def\<close>)
  have "v \<noteq> []" "str_line key v \<noteq> []" "hd (str_line key v) = CHR '' ''"
    using assms by (auto simp: clean_def str_line_def)
  with s show ?thesis by simp
qed

lemma load_int_line:
  assumes "in_i32 i" and "clean key" and "CHR '':'' \<notin> set key"
  shows "load_lines (int_line key i # lines) sec c =
     (case set_key sec key (to_string i) c of Inl e \<Rightarrow> (Some e, c) | Inr c' \<Rightarrow> load_lines lines sec c')"
proof -
  have s: "SplitKeyValue (int_line key i) = Some (key, to_string i)"
    unfolding int_line_def by (rule SplitKeyValue_line) (use assms clean_to_string in auto)
  have "to_string i \<noteq> []" "int_line key i \<noteq> []" "hd (int_line key i) = CHR '' ''"
    using clean_to_string [of i] by (auto simp: clean_def int_line_def)
  with s show ?thesis by simp
qed

lemma key_names_clean:
  "list_all (\<lambda>k. clean k \<and> CHR '':'' \<notin> set k)
     [''host'', ''port'', ''worker_threads'', ''tick_interval_ms'', ''user'', ''password'', ''database'',
      ''room_player_count'']"
  by (simp add: clean_def front_trimmed_def back_trimmed_def TAB_def CR_def QUOTE_def)

lemma load_section_lines:
  "load_lines ([] # lines) sec c = load_lines lines sec c"
  "load_lines (''server:'' # lines) sec c = load_lines lines ''server'' c"
  "load_lines (''mysql:'' # lines) sec c = load_lines lines ''mysql'' c"
  "load_lines (''redis:'' # lines) sec c = load_lines lines ''redis'' c"
  "load_lines (''match:'' # lines) sec c = load_lines lines ''match'' c"
  by (simp_all add: Trim_def TAB_def CR_def QUOTE_def)

lemma config_written:
  "c0\<lparr>server_host := server_host c, server_port := server_port c, worker_threads := worker_threads c,
      tick_interval_ms := tick_interval_ms c,
      mysql_cfg := m\<lparr>mysql_host := mysql_host (mysql_cfg c), mysql_port := mysql_port (mysql_cfg c),
        mysql_user := mysql_user (mysql_cfg c), mysql_password := mysql_password (mysql_cfg c),
        mysql_database := mysql_database (mysql_cfg c)\<rparr>,
      redis_cfg := r\<lparr>redis_host := redis_host (redis_cfg c), redis_port := redis_port (redis_cfg c)\<rparr>,
      room_player_count := room_player_count c\<rparr> = (c :: config)"
  by (cases c) simp

subsection \<open>Properties\<close>

text \<open>C31. A configuration written in the format of \<open>config/server.yaml\<close> is read back unchanged: loading
  the written lines over any previous settings succeeds and yields exactly the configuration, for
  all host names, users and passwords that do not begin or end with a space, tab, quote or carriage
  return and all 32-bit numbers, negative ones included.\<close>

theorem ConfigManager_Load_render:
  assumes "config_ok c"
  shows "ConfigManager_Load (Some (render_config c)) c0 = (Inr True, c)"
proof -
  have k: "clean ''host''" "clean ''port''" "clean ''worker_threads''" "clean ''tick_interval_ms''"
    "clean ''user''" "clean ''password''" "clean ''database''" "clean ''room_player_count''"
    using key_names_clean by simp_all
  have "load_lines (render_config c) [] c0 = (None, c)"
    using assms
    by (simp add: render_config_def config_ok_def load_str_line load_int_line k set_key_def set_int_def
        load_section_lines config_written del: load_lines.simps(2))
  then show ?thesis by (simp add: ConfigManager_Load_def)
qed

theorem ConfigManager_Load_render_witness:
  "ConfigManager_Load (Some (render_config (config_default\<lparr>room_player_count := 4\<rparr>))) config_default
     = (Inr True, config_default\<lparr>room_player_count := 4\<rparr>)"
proof -
  have "config_ok (config_default\<lparr>room_player_count := 4\<rparr>)"
    by (simp add: config_ok_def config_default_def clean_def front_trimmed_def back_trimmed_def
        TAB_def CR_def QUOTE_def in_i32_def)
  then show ?thesis by (rule ConfigManager_Load_render)
qed

text \<open>A file with Windows line ends is silently ignored: if every line still ends with the carriage
  return that \<open>std::getline\<close> leaves, \<open>Load\<close> reports success and changes nothing, because a section
  header is only recognised when the colon is its last character, although \<open>Trim\<close> strips the carriage
  return from keys and values.\<close>

theorem ConfigManager_Load_CRLF_ignored:
  "ConfigManager_Load (Some (map (\<lambda>line. line @ [CR]) lines)) c = (Inr True, c)"
proof -
  have "load_lines (map (\<lambda>line. line @ [CR]) lines) [] c = (None, c)"
    by (induction lines) (auto simp: set_key_def CR_def split: option.splits)
  then show ?thesis by (simp add: ConfigManager_Load_def)
qed

end
