(* ===== verification/Mysql_Client.thy ===== *)
theory Mysql_Client
  imports Config_Manager
begin

text \<open>
  The MySQL client: \<open>src/src/storage/mysql_client.h\<close> and \<open>mysql_client.cpp\<close>.

  The C API and the database server are not part of the repository.  They are the parameter
  \<open>api\<close>, a record of functions on an arbitrary state \<open>'d\<close> of the outside world; a \<open>bool\<close> result is \<open>True\<close>
  for the success code (a non-null handle, or 0).  A statement is a value of \<open>sql_stmt\<close>, with one
  constructor for each SQL text the repositories build; \<open>sql_text\<close> is that text.  What the code
  relies on is the predicate \<open>innodb\<close>: the documented behaviour of InnoDB tables seen from one
  connection.  Every call may fail at any time, a statement outside a transaction and a \<open>COMMIT\<close> may
  take effect although the response is lost, and a failed statement may have rolled back the
  transaction.

  The recursive mutex is held during a whole operation, a whole transaction included, so operations
  of different threads do not interleave.
\<close>

subsection \<open>Statements\<close>

datatype sql_stmt =
    StartTransaction
  | SelectPlayer i64
  | UpsertPlayerName i64 string i32 i32 i32
  | UpsertPlayerScore i64 i32 i32 i32 i32
  | InsertBattleAuto i64
  | SelectBattleForUpdate i64
  | SelectResultsForUpdate i64
  | UpdateBattleSettled i64 i64
  | InsertBattleRow i64 i64 i64 string
  | InsertResult i64 i64 string i32
  | InsertLog i64 i64 i64 i32
  | SelectLog i64 i64

definition APOS :: string where "APOS = [CHR 0x27]"

fun sql_text :: "sql_stmt \<Rightarrow> string" where
  "sql_text StartTransaction = ''START TRANSACTION''"
| "sql_text (SelectPlayer pid) =
     ''SELECT player_id, name, score, win_count, lose_count FROM player WHERE player_id = '' @
     to_string pid @ '' LIMIT 1''"
| "sql_text (UpsertPlayerName pid name score wins losses) =
     ''INSERT INTO player(player_id, name, score, win_count, lose_count) VALUES('' @
     to_string pid @ '', '' @ APOS @ name @ APOS @ '', '' @ to_string score @ '', '' @
     to_string wins @ '', '' @ to_string losses @ '') '' @
     ''ON DUPLICATE KEY UPDATE name = VALUES(name)''"
| "sql_text (UpsertPlayerScore pid initial delta wins losses) =
     ''INSERT INTO player(player_id, name, score, win_count, lose_count) VALUES('' @
     to_string pid @ '', '' @ APOS @ ''player_'' @ to_string pid @ APOS @ '', '' @ to_string initial @ '', '' @
     to_string wins @ '', '' @ to_string losses @ '') '' @
     ''ON DUPLICATE KEY UPDATE '' @
     ''score = score + ('' @ to_string delta @ ''), '' @
     ''win_count = win_count + '' @ to_string wins @ '', '' @
     ''lose_count = lose_count + '' @ to_string losses"
| "sql_text (InsertBattleAuto rid) =
     ''INSERT INTO battle(room_id, winner_id, result_json) VALUES('' @ to_string rid @ '', 0, '' @
     APOS @ ''{}'' @ APOS @ '')''"
| "sql_text (SelectBattleForUpdate bid) =
     ''SELECT room_id, winner_id, settled FROM battle WHERE battle_id = '' @ to_string bid @ '' FOR UPDATE''"
| "sql_text (SelectResultsForUpdate bid) =
     ''SELECT player_id, result, score_delta FROM battle_player_result WHERE battle_id = '' @
     to_string bid @ '' ORDER BY player_id FOR UPDATE''"
| "sql_text (UpdateBattleSettled bid wid) =
     ''UPDATE battle SET winner_id = '' @ to_string wid @
     '', settled = 1, end_time = CURRENT_TIMESTAMP WHERE battle_id = '' @ to_string bid"
| "sql_text (InsertBattleRow bid rid wid json) =
     ''INSERT INTO battle('' @ ''battle_id, room_id, winner_id, result_json) VALUES('' @
     to_string bid @ '', '' @ to_string rid @ '', '' @ to_string wid @ '', '' @ APOS @ json @ APOS @ '')''"
| "sql_text (InsertResult bid pid res delta) =
     ''INSERT INTO battle_player_result('' @ ''battle_id, player_id, result, score_delta) VALUES('' @
     to_string bid @ '', '' @ to_string pid @ '', '' @ APOS @ res @ APOS @ '', '' @ to_string delta @ '')''"
| "sql_text (InsertLog sid bid pid delta) =
     ''INSERT INTO settlement_log('' @ (if sid \<noteq> 0 then ''settlement_id, '' else []) @
     ''battle_id, player_id, score_delta) VALUES('' @ (if sid \<noteq> 0 then to_string sid @ '', '' else []) @
     to_string bid @ '', '' @ to_string pid @ '', '' @ to_string delta @ '')''"
| "sql_text (SelectLog bid pid) =
     ''SELECT settlement_id FROM settlement_log WHERE battle_id = '' @ to_string bid @
     '' AND player_id = '' @ to_string pid @ '' LIMIT 1''"

subsection \<open>The C API and the client\<close>

type_synonym raw_row = "(string option \<times> string option) list"
type_synonym QueryRow = "(string, string) umap"
type_synonym QueryResult = "QueryRow list"

record 'd mysql_api =
  mysql_init :: "'d \<Rightarrow> bool \<times> 'd"
  mysql_real_connect :: "string \<Rightarrow> string \<Rightarrow> string \<Rightarrow> string \<Rightarrow> int \<Rightarrow> 'd \<Rightarrow> bool \<times> 'd"
  mysql_close :: "'d \<Rightarrow> 'd"
  mysql_errno :: "'d \<Rightarrow> int"
  mysql_query :: "sql_stmt \<Rightarrow> 'd \<Rightarrow> bool \<times> 'd"
  more_results :: "'d \<Rightarrow> nat"  \<comment> \<open>further results of the statement: one statement has finitely many\<close>
  mysql_next_result :: "'d \<Rightarrow> 'd"  \<comment> \<open>fetch, store and free one of them\<close>
  mysql_affected_rows :: "'d \<Rightarrow> int"
  mysql_insert_id :: "'d \<Rightarrow> int"
  mysql_store_result :: "'d \<Rightarrow> raw_row list option \<times> 'd"
  mysql_rollback :: "'d \<Rightarrow> bool \<times> 'd"
  mysql_commit :: "'d \<Rightarrow> bool \<times> 'd"
  mysql_real_escape_string :: "string \<Rightarrow> 'd \<Rightarrow> string"

definition CR_SERVER_GONE_ERROR :: int where "CR_SERVER_GONE_ERROR = 2006"
definition CR_SERVER_LOST :: int where "CR_SERVER_LOST = 2013"

record 'd mysql =
  my_conn :: bool  \<comment> \<open>\<open>conn_ != nullptr\<close>\<close>
  my_in_transaction :: bool
  my_cfg :: MysqlConfig  \<comment> \<open>\<open>ConfigManager::Instance().Mysql()\<close>\<close>
  my_world :: 'd

definition MysqlClient_Disconnect :: "'d mysql_api \<Rightarrow> 'd mysql \<Rightarrow> 'd mysql" where
  "MysqlClient_Disconnect api m =
     (if my_conn m then m\<lparr>my_conn := False, my_world := mysql_close api (my_world m)\<rparr> else m)"

definition MysqlClient_Connect :: "'d mysql_api \<Rightarrow> 'd mysql \<Rightarrow> bool \<times> 'd mysql" where
  "MysqlClient_Connect api m =
     (if my_in_transaction m then (False, m)
      else
        let m1 = MysqlClient_Disconnect api m;
            (ok, w) = mysql_init api (my_world m1);
            m2 = m1\<lparr>my_conn := ok, my_world := w\<rparr>
        in if \<not> ok then (False, m2)
           else
             let c = my_cfg m2;
                 (ok', w') = mysql_real_connect api (mysql_host c) (mysql_user c) (mysql_password c)
                   (mysql_database c) (mysql_port c mod 2 ^ 32) (my_world m2);
                 m3 = m2\<lparr>my_world := w'\<rparr>
             in if \<not> ok' then (False, MysqlClient_Disconnect api m3) else (True, m3))"

text \<open>The negation of the guard \<open>!conn_ && !Connect()\<close> of every operation.\<close>

definition has_conn :: "'d mysql_api \<Rightarrow> 'd mysql \<Rightarrow> bool \<times> 'd mysql" where
  "has_conn api m = (if my_conn m then (True, m) else MysqlClient_Connect api m)"

definition MysqlClient_ResetOnConnectionError :: "'d mysql_api \<Rightarrow> 'd mysql \<Rightarrow> 'd mysql" where
  "MysqlClient_ResetOnConnectionError api m =
     (if \<not> my_conn m \<or> my_in_transaction m then m
      else
        let err = mysql_errno api (my_world m)
        in if err = CR_SERVER_GONE_ERROR \<or> err = CR_SERVER_LOST then MysqlClient_Disconnect api m else m)"

primrec drain_results :: "'d mysql_api \<Rightarrow> nat \<Rightarrow> 'd \<Rightarrow> 'd" where
  "drain_results api 0 w = w"
| "drain_results api (Suc n) w = drain_results api n (mysql_next_result api w)"

definition MysqlClient_Execute :: "'d mysql_api \<Rightarrow> sql_stmt \<Rightarrow> 'd mysql \<Rightarrow> bool \<times> 'd mysql" where
  "MysqlClient_Execute api sql m =
     (let (c, m1) = has_conn api m
      in if \<not> c then (False, m1)
         else
           let (ok, w) = mysql_query api sql (my_world m1); m2 = m1\<lparr>my_world := w\<rparr>
           in if \<not> ok then (False, MysqlClient_ResetOnConnectionError api m2)
              else (True, m2\<lparr>my_world := drain_results api (more_results api w) w\<rparr>))"

definition MysqlClient_ExecuteAffected :: "'d mysql_api \<Rightarrow> sql_stmt \<Rightarrow> 'd mysql \<Rightarrow> i64 \<times> 'd mysql" where
  "MysqlClient_ExecuteAffected api sql m =
     (let (c, m1) = has_conn api m
      in if \<not> c then (-1, m1)
         else
           let (ok, w) = mysql_query api sql (my_world m1); m2 = m1\<lparr>my_world := w\<rparr>
           in if \<not> ok then (-1, MysqlClient_ResetOnConnectionError api m2)
              else (wrap64 (mysql_affected_rows api w), m2))"

definition MysqlClient_ExecuteInsert :: "'d mysql_api \<Rightarrow> sql_stmt \<Rightarrow> 'd mysql \<Rightarrow> i64 \<times> 'd mysql" where
  "MysqlClient_ExecuteInsert api sql m =
     (let (n, m1) = MysqlClient_ExecuteAffected api sql m
      in if n \<noteq> 1 then (0, m1) else (wrap64 (mysql_insert_id api (my_world m1)), m1))"

text \<open>\<open>None\<close> is an empty \<open>std::function\<close>; \<open>Inl\<close> is an exception thrown by the callback and rethrown.\<close>

definition MysqlClient_RunTransaction ::
    "'d mysql_api \<Rightarrow> ('d mysql \<Rightarrow> (cpp_exception + bool) \<times> 'd mysql) option \<Rightarrow> 'd mysql
       \<Rightarrow> (cpp_exception + bool) \<times> 'd mysql" where
  "MysqlClient_RunTransaction api callback m =
     (case callback of
        None \<Rightarrow> (Inr False, m)
      | Some operation \<Rightarrow>
          if my_in_transaction m then (Inr False, m)
          else
            let (c, m1) = has_conn api m
            in if \<not> c then (Inr False, m1)
               else
                 let (ok, w) = mysql_query api StartTransaction (my_world m1); m2 = m1\<lparr>my_world := w\<rparr>
                 in if \<not> ok then (Inr False, MysqlClient_Disconnect api m2)
                    else
                      let (res, m3) = operation (m2\<lparr>my_in_transaction := True\<rparr>)
                      in case res of
                           Inl e \<Rightarrow>
                             if my_conn m3 then
                               let (ok, w) = mysql_rollback api (my_world m3); m4 = m3\<lparr>my_world := w\<rparr>;
                                   m5 = (if \<not> ok then MysqlClient_Disconnect api m4 else m4)
                               in (Inl e, m5\<lparr>my_in_transaction := False\<rparr>)
                             else (Inl e, m3\<lparr>my_in_transaction := False\<rparr>)
                         | Inr success \<Rightarrow>
                             if \<not> my_conn m3 then (Inr False, m3\<lparr>my_in_transaction := False\<rparr>)
                             else if \<not> success then
                               let (ok, w) = mysql_rollback api (my_world m3); m4 = m3\<lparr>my_world := w\<rparr>;
                                   m5 = (if \<not> ok then MysqlClient_Disconnect api m4 else m4)
                               in (Inr False, m5\<lparr>my_in_transaction := False\<rparr>)
                             else
                               let (ok, w) = mysql_commit api (my_world m3); m4 = m3\<lparr>my_world := w\<rparr>
                               in if \<not> ok
                                  then (Inr False, (MysqlClient_Disconnect api m4)\<lparr>my_in_transaction := False\<rparr>)
                                  else (Inr True, m4\<lparr>my_in_transaction := False\<rparr>))"

definition row_item :: "raw_row \<Rightarrow> QueryRow" where
  "row_item row =
     foldl (\<lambda>item (name, v). um_put (case name of None \<Rightarrow> [] | Some s \<Rightarrow> s)
                                  (case v of None \<Rightarrow> [] | Some s \<Rightarrow> s) item) [] row"

definition MysqlClient_Query :: "'d mysql_api \<Rightarrow> sql_stmt \<Rightarrow> 'd mysql \<Rightarrow> QueryResult \<times> 'd mysql" where
  "MysqlClient_Query api sql m =
     (let (c, m1) = has_conn api m
      in if \<not> c then ([], m1)
         else
           let (ok, w) = mysql_query api sql (my_world m1); m2 = m1\<lparr>my_world := w\<rparr>
           in if \<not> ok then ([], MysqlClient_ResetOnConnectionError api m2)
              else
                let (result, w') = mysql_store_result api w; m3 = m2\<lparr>my_world := w'\<rparr>
                in case result of
                     None \<Rightarrow> ([], m3)
                   | Some rows \<Rightarrow> (map row_item rows, m3))"

definition MysqlClient_EscapeString :: "'d mysql_api \<Rightarrow> string \<Rightarrow> 'd mysql \<Rightarrow> string \<times> 'd mysql" where
  "MysqlClient_EscapeString api value m =
     (let (c, m1) = has_conn api m
      in if \<not> c then (value, m1) else (mysql_real_escape_string api value (my_world m1), m1))"

definition MysqlClient_IsConnected :: "'d mysql \<Rightarrow> bool" where
  "MysqlClient_IsConnected m = my_conn m"

text \<open>\<open>std::unordered_map::at\<close>.\<close>

definition row_at :: "QueryRow \<Rightarrow> string \<Rightarrow> cpp_exception + string" where
  "row_at row k = (case um_find row k of None \<Rightarrow> Inl MapAtOutOfRange | Some v \<Rightarrow> Inr v)"

definition try_then :: "'e + 'a \<Rightarrow> ('a \<Rightarrow> 'e + 'b) \<Rightarrow> 'e + 'b" where
  "try_then x f = (case x of Inl e \<Rightarrow> Inl e | Inr a \<Rightarrow> f a)"

lemma try_then_simps [simp]:
  "try_then (Inl e) f = Inl e" "try_then (Inr a) f = f a"
  by (simp_all add: try_then_def)

lemma try_then_Inr [simp]: "try_then x f = Inr b \<longleftrightarrow> (\<exists>a. x = Inr a \<and> f a = Inr b)"
  by (cases x) auto

end
