(* ===== verification/Innodb.thy ===== *)
theory Innodb
  imports Mysql_Client
begin

text \<open>
  What the repositories rely on from the database: the tables of \<open>src/config/mysql.sql\<close>, the effect of
  each statement on them, and the predicate \<open>innodb\<close> with the documented behaviour of transactions on
  one connection whose process is the only writer.  A property that needs the database has \<open>innodb\<close>
  as a hypothesis; \<open>sim_api\<close> is a database with an arbitrary schedule of faults that satisfies it.

  The section on transactions shows what \<open>MysqlClient::RunTransaction\<close> adds to that: whatever the
  callback does, the committed tables are the old ones or the ones the callback produced.
\<close>

subsection \<open>Tables\<close>

record PlayerData =
  pd_player_id :: i64
  pd_name :: string
  pd_score :: i32
  pd_win_count :: i32
  pd_lose_count :: i32

record battle_row =
  br_room_id :: i64
  br_winner_id :: i64
  br_settled :: int
  br_json :: string

record tables =
  tb_player :: "(i64, PlayerData) umap"
  tb_battle :: "(i64, battle_row) umap"
  tb_result :: "(i64 \<times> i64, string \<times> i32) umap"  \<comment> \<open>unique key (battle_id, player_id)\<close>
  tb_log :: "(i64 \<times> i64, i64 \<times> i32) umap"  \<comment> \<open>unique key (battle_id, player_id)\<close>
  next_battle :: i64
  next_log :: i64

text \<open>The constraints under which a statement succeeds: unique keys, column ranges in strict mode.\<close>

fun stmt_ok :: "sql_stmt \<Rightarrow> tables \<Rightarrow> bool" where
  "stmt_ok (UpsertPlayerName pid name score wins losses) T \<longleftrightarrow>
     in_i64 pid \<and> in_i32 score \<and> in_i32 wins \<and> in_i32 losses"
| "stmt_ok (UpsertPlayerScore pid initial delta wins losses) T \<longleftrightarrow>
     (case um_find (tb_player T) pid of
        None \<Rightarrow> in_i64 pid \<and> in_i32 initial \<and> in_i32 wins \<and> in_i32 losses
      | Some p \<Rightarrow> in_i32 (pd_score p + delta) \<and> in_i32 (pd_win_count p + wins) \<and>
                  in_i32 (pd_lose_count p + losses))"
| "stmt_ok (InsertBattleAuto rid) T \<longleftrightarrow> in_i64 rid \<and> 0 < next_battle T \<and> next_battle T < 2 ^ 63"
| "stmt_ok (InsertBattleRow bid rid wid json) T \<longleftrightarrow> \<not> um_has (tb_battle T) bid"
| "stmt_ok (InsertResult bid pid res delta) T \<longleftrightarrow> \<not> um_has (tb_result T) (bid, pid)"
| "stmt_ok (InsertLog sid bid pid delta) T \<longleftrightarrow> \<not> um_has (tb_log T) (bid, pid)"
| "stmt_ok _ T \<longleftrightarrow> True"

text \<open>\<open>lit\<close> is the value of an SQL string literal with the given text between the quotes.\<close>

fun exec_stmt :: "(string \<Rightarrow> string) \<Rightarrow> sql_stmt \<Rightarrow> tables \<Rightarrow> tables" where
  "exec_stmt lit (UpsertPlayerName pid name score wins losses) T =
     (if um_has (tb_player T) pid
      then T\<lparr>tb_player := um_modify pid (\<lambda>p. p\<lparr>pd_name := lit name\<rparr>) (tb_player T)\<rparr>
      else T\<lparr>tb_player := um_put pid \<lparr>pd_player_id = pid, pd_name = lit name, pd_score = score,
               pd_win_count = wins, pd_lose_count = losses\<rparr> (tb_player T)\<rparr>)"
| "exec_stmt lit (UpsertPlayerScore pid initial delta wins losses) T =
     (if um_has (tb_player T) pid
      then T\<lparr>tb_player := um_modify pid (\<lambda>p. p\<lparr>pd_score := pd_score p + delta,
               pd_win_count := pd_win_count p + wins, pd_lose_count := pd_lose_count p + losses\<rparr>) (tb_player T)\<rparr>
      else T\<lparr>tb_player := um_put pid \<lparr>pd_player_id = pid, pd_name = lit (''player_'' @ to_string pid),
               pd_score = initial, pd_win_count = wins, pd_lose_count = losses\<rparr> (tb_player T)\<rparr>)"
| "exec_stmt lit (InsertBattleAuto rid) T =
     T\<lparr>tb_battle := um_put (next_battle T) \<lparr>br_room_id = rid, br_winner_id = 0, br_settled = 0, br_json = ''{}''\<rparr>
         (tb_battle T), next_battle := next_battle T + 1\<rparr>"
| "exec_stmt lit (UpdateBattleSettled bid wid) T =
     T\<lparr>tb_battle := um_modify bid (\<lambda>b. b\<lparr>br_winner_id := wid, br_settled := 1\<rparr>) (tb_battle T)\<rparr>"
| "exec_stmt lit (InsertBattleRow bid rid wid json) T =
     T\<lparr>tb_battle := um_put bid \<lparr>br_room_id = rid, br_winner_id = wid, br_settled = 0, br_json = lit json\<rparr>
         (tb_battle T), next_battle := max (next_battle T) (bid + 1)\<rparr>"
| "exec_stmt lit (InsertResult bid pid res delta) T =
     T\<lparr>tb_result := um_put (bid, pid) (lit res, delta) (tb_result T)\<rparr>"
| "exec_stmt lit (InsertLog sid bid pid delta) T =
     (let key = (if sid \<noteq> 0 then sid else next_log T)
      in T\<lparr>tb_log := um_put (bid, pid) (key, delta) (tb_log T), next_log := max (next_log T) (key + 1)\<rparr>)"
| "exec_stmt lit _ T = T"

definition col :: "string \<Rightarrow> string \<Rightarrow> string option \<times> string option" where
  "col name v = (Some name, Some v)"

text \<open>The rows of battle \<open>bid\<close>, ordered by player.\<close>

definition battle_results :: "i64 \<Rightarrow> tables \<Rightarrow> (i64 \<times> string \<times> i32) list" where
  "battle_results bid T =
     sort_key fst (map (\<lambda>((b, p), r). (p, r)) (filter (\<lambda>((b, p), r). b = bid) (tb_result T)))"

fun select_rows :: "sql_stmt \<Rightarrow> tables \<Rightarrow> raw_row list" where
  "select_rows (SelectPlayer pid) T =
     (case um_find (tb_player T) pid of
        None \<Rightarrow> []
      | Some p \<Rightarrow> [[col ''player_id'' (to_string pid), col ''name'' (pd_name p), col ''score'' (to_string (pd_score p)),
                    col ''win_count'' (to_string (pd_win_count p)), col ''lose_count'' (to_string (pd_lose_count p))]])"
| "select_rows (SelectBattleForUpdate bid) T =
     (case um_find (tb_battle T) bid of
        None \<Rightarrow> []
      | Some b \<Rightarrow> [[col ''room_id'' (to_string (br_room_id b)), col ''winner_id'' (to_string (br_winner_id b)),
                    col ''settled'' (to_string (br_settled b))]])"
| "select_rows (SelectResultsForUpdate bid) T =
     map (\<lambda>(p, r, d). [col ''player_id'' (to_string p), col ''result'' r, col ''score_delta'' (to_string d)])
       (battle_results bid T)"
| "select_rows (SelectLog bid pid) T =
     (case um_find (tb_log T) (bid, pid) of
        None \<Rightarrow> [] | Some (sid, d) \<Rightarrow> [[col ''settlement_id'' (to_string sid)]])"
| "select_rows _ T = []"

fun affected_ok :: "sql_stmt \<Rightarrow> tables \<Rightarrow> int \<Rightarrow> bool" where
  "affected_ok (UpdateBattleSettled bid wid) T n \<longleftrightarrow>
     (case um_find (tb_battle T) bid of
        None \<Rightarrow> n = 0
      | Some b \<Rightarrow> (if br_settled b = 0 then n = 1 else n \<in> {0, 1}))"
| "affected_ok (InsertBattleAuto rid) T n \<longleftrightarrow> n = 1"
| "affected_ok (InsertBattleRow bid rid wid json) T n \<longleftrightarrow> n = 1"
| "affected_ok (InsertResult bid pid res delta) T n \<longleftrightarrow> n = 1"
| "affected_ok (InsertLog sid bid pid delta) T n \<longleftrightarrow> n = 1"
| "affected_ok _ T n \<longleftrightarrow> n \<in> {0, 1, 2}"

subsection \<open>The behaviour of the database\<close>

record db_view =
  v_tx :: bool  \<comment> \<open>the connection has an open transaction\<close>
  v_cur :: tables  \<comment> \<open>the tables as the transaction sees them\<close>
  v_com :: tables  \<comment> \<open>the committed tables\<close>

text \<open>Calls that do not touch the tables.\<close>

definition innodb_link :: "'d mysql_api \<Rightarrow> ('d \<Rightarrow> db_view) \<Rightarrow> bool" where
  "innodb_link api v \<longleftrightarrow>
     (\<forall>d ok d'. mysql_init api d = (ok, d') \<longrightarrow> v d' = v d) \<and>
     (\<forall>h u p b n d ok d'. mysql_real_connect api h u p b n d = (ok, d') \<longrightarrow>
        \<not> v_tx (v d) \<longrightarrow> \<not> v_tx (v d') \<and> v_com (v d') = v_com (v d)) \<and>
     (\<forall>d. v_com (v (mysql_close api d)) = v_com (v d) \<and> \<not> v_tx (v (mysql_close api d))) \<and>
     (\<forall>d. v (mysql_next_result api d) = v d) \<and>
     (\<forall>d r d'. mysql_store_result api d = (r, d') \<longrightarrow> v d' = v d)"

text \<open>Statements in a transaction: nothing is committed, and a statement that succeeds has its effect
  on what the transaction sees.\<close>

definition innodb_stmt :: "'d mysql_api \<Rightarrow> ('d \<Rightarrow> db_view) \<Rightarrow> (string \<Rightarrow> string) \<Rightarrow> bool" where
  "innodb_stmt api v lit \<longleftrightarrow>
     (\<forall>d ok d'. mysql_query api StartTransaction d = (ok, d') \<longrightarrow> \<not> v_tx (v d) \<longrightarrow>
        v_com (v d') = v_com (v d) \<and> (ok \<longrightarrow> v_tx (v d') \<and> v_cur (v d') = v_com (v d))) \<and>
     (\<forall>st d ok d'. mysql_query api st d = (ok, d') \<longrightarrow> st \<noteq> StartTransaction \<longrightarrow> v_tx (v d) \<longrightarrow>
        v_com (v d') = v_com (v d) \<and>
        (ok \<longrightarrow> v_tx (v d') \<and> stmt_ok st (v_cur (v d)) \<and> v_cur (v d') = exec_stmt lit st (v_cur (v d)) \<and>
              affected_ok st (v_cur (v d)) (mysql_affected_rows api d'))) \<and>
     (\<forall>st d d' rows d''. mysql_query api st d = (True, d') \<longrightarrow> mysql_store_result api d' = (Some rows, d'') \<longrightarrow>
        rows = select_rows st (if v_tx (v d) then v_cur (v d) else v_com (v d)))"

text \<open>Statements outside a transaction commit themselves; if the response is lost either may be the case.\<close>

definition innodb_auto :: "'d mysql_api \<Rightarrow> ('d \<Rightarrow> db_view) \<Rightarrow> (string \<Rightarrow> string) \<Rightarrow> bool" where
  "innodb_auto api v lit \<longleftrightarrow>
     (\<forall>st d ok d'. mysql_query api st d = (ok, d') \<longrightarrow> st \<noteq> StartTransaction \<longrightarrow> \<not> v_tx (v d) \<longrightarrow>
        \<not> v_tx (v d') \<and>
        (ok \<longrightarrow> stmt_ok st (v_com (v d)) \<and> v_com (v d') = exec_stmt lit st (v_com (v d)) \<and>
              affected_ok st (v_com (v d)) (mysql_affected_rows api d') \<and>
              (\<forall>rid. st = InsertBattleAuto rid \<longrightarrow> mysql_insert_id api d' = next_battle (v_com (v d)))) \<and>
        (\<not> ok \<longrightarrow> v_com (v d') = v_com (v d) \<or>
               stmt_ok st (v_com (v d)) \<and> v_com (v d') = exec_stmt lit st (v_com (v d))))"

text \<open>The end of a transaction; a failed \<open>COMMIT\<close> may or may not have committed.\<close>

definition innodb_end :: "'d mysql_api \<Rightarrow> ('d \<Rightarrow> db_view) \<Rightarrow> bool" where
  "innodb_end api v \<longleftrightarrow>
     (\<forall>d ok d'. mysql_rollback api d = (ok, d') \<longrightarrow> v_com (v d') = v_com (v d) \<and> (ok \<longrightarrow> \<not> v_tx (v d'))) \<and>
     (\<forall>d ok d'. mysql_commit api d = (ok, d') \<longrightarrow> v_tx (v d) \<longrightarrow>
        (ok \<longrightarrow> \<not> v_tx (v d') \<and> v_com (v d') = v_cur (v d)) \<and>
        (\<not> ok \<longrightarrow> v_com (v d') = v_com (v d) \<or> v_com (v d') = v_cur (v d)))"

definition innodb :: "'d mysql_api \<Rightarrow> ('d \<Rightarrow> db_view) \<Rightarrow> (string \<Rightarrow> string) \<Rightarrow> bool" where
  "innodb api v lit \<longleftrightarrow>
     innodb_link api v \<and> innodb_stmt api v lit \<and> innodb_auto api v lit \<and> innodb_end api v \<and>
     (\<forall>s d. lit (mysql_real_escape_string api s d) = s)"

text \<open>A period without faults: connections and commits succeed, a statement succeeds when its
  constraints hold, and result sets arrive.\<close>

definition no_faults :: "'d mysql_api \<Rightarrow> ('d \<Rightarrow> db_view) \<Rightarrow> bool" where
  "no_faults api v \<longleftrightarrow>
     (\<forall>d. fst (mysql_init api d)) \<and> (\<forall>h u p b n d. fst (mysql_real_connect api h u p b n d)) \<and>
     (\<forall>st d. fst (mysql_query api st d) = stmt_ok st (if v_tx (v d) then v_cur (v d) else v_com (v d))) \<and>
     (\<forall>st d d'. mysql_query api st d = (True, d') \<longrightarrow> fst (mysql_store_result api d') \<noteq> None) \<and>
     (\<forall>d. fst (mysql_commit api d))"

lemma innodb_close:
  assumes "innodb api v lit"
  shows "v_com (v (mysql_close api d)) = v_com (v d)" and "\<not> v_tx (v (mysql_close api d))"
  using assms by (auto simp: innodb_def innodb_link_def)

lemma innodb_init:
  assumes "innodb api v lit" and "mysql_init api d = (ok, d')"
  shows "v d' = v d"
  using assms by (auto simp: innodb_def innodb_link_def)

lemma innodb_connect:
  assumes "innodb api v lit" and "mysql_real_connect api h u p b n d = (ok, d')" and "\<not> v_tx (v d)"
  shows "\<not> v_tx (v d')" and "v_com (v d') = v_com (v d)"
  using assms unfolding innodb_def innodb_link_def by blast+

lemma innodb_next:
  assumes "innodb api v lit"
  shows "v (mysql_next_result api d) = v d"
  using assms by (auto simp: innodb_def innodb_link_def)

lemma innodb_drain: "innodb api v lit \<Longrightarrow> v (drain_results api n d) = v d"
  by (induction n arbitrary: d) (simp_all add: innodb_next)

lemma innodb_store:
  assumes "innodb api v lit" and "mysql_store_result api d = (r, d')"
  shows "v d' = v d"
  using assms by (auto simp: innodb_def innodb_link_def)

lemma innodb_start:
  assumes "innodb api v lit" and "mysql_query api StartTransaction d = (ok, d')" and "\<not> v_tx (v d)"
  shows "v_com (v d') = v_com (v d)" and "ok \<Longrightarrow> v_tx (v d')" and "ok \<Longrightarrow> v_cur (v d') = v_com (v d)"
  using assms unfolding innodb_def innodb_stmt_def by blast+

lemma innodb_query:
  assumes "innodb api v lit" and "mysql_query api st d = (ok, d')" and "v_tx (v d)" and "st \<noteq> StartTransaction"
  shows "v_com (v d') = v_com (v d)" and "ok \<Longrightarrow> v_tx (v d')" and "ok \<Longrightarrow> stmt_ok st (v_cur (v d))"
    and "ok \<Longrightarrow> v_cur (v d') = exec_stmt lit st (v_cur (v d))"
    and "ok \<Longrightarrow> affected_ok st (v_cur (v d)) (mysql_affected_rows api d')"
  using assms unfolding innodb_def innodb_stmt_def by blast+

lemma innodb_rows:
  assumes "innodb api v lit" and "mysql_query api st d = (True, d')" and "mysql_store_result api d' = (Some rows, d'')"
  shows "rows = select_rows st (if v_tx (v d) then v_cur (v d) else v_com (v d))"
  using assms unfolding innodb_def innodb_stmt_def by blast

lemma innodb_auto_query:
  assumes "innodb api v lit" and "mysql_query api st d = (ok, d')" and "\<not> v_tx (v d)" and "st \<noteq> StartTransaction"
  shows "\<not> v_tx (v d')"
    and "ok \<Longrightarrow> stmt_ok st (v_com (v d))" and "ok \<Longrightarrow> v_com (v d') = exec_stmt lit st (v_com (v d))"
    and "ok \<Longrightarrow> affected_ok st (v_com (v d)) (mysql_affected_rows api d')"
    and "ok \<Longrightarrow> st = InsertBattleAuto rid \<Longrightarrow> mysql_insert_id api d' = next_battle (v_com (v d))"
    and "v_com (v d') = v_com (v d) \<or> stmt_ok st (v_com (v d)) \<and> v_com (v d') = exec_stmt lit st (v_com (v d))"
  using assms unfolding innodb_def innodb_auto_def by blast+

lemma innodb_rollback:
  assumes "innodb api v lit" and "mysql_rollback api d = (ok, d')"
  shows "v_com (v d') = v_com (v d)" and "ok \<Longrightarrow> \<not> v_tx (v d')"
  using assms unfolding innodb_def innodb_end_def by blast+

lemma innodb_commit:
  assumes "innodb api v lit" and "mysql_commit api d = (ok, d')" and "v_tx (v d)"
  shows "ok \<Longrightarrow> \<not> v_tx (v d')" and "ok \<Longrightarrow> v_com (v d') = v_cur (v d)"
    and "v_com (v d') = v_com (v d) \<or> v_com (v d') = v_cur (v d)"
  using assms unfolding innodb_def innodb_end_def by blast+

lemma innodb_escape: "innodb api v lit \<Longrightarrow> lit (mysql_real_escape_string api s d) = s"
  by (simp add: innodb_def)

subsection \<open>The client between transactions\<close>

definition idle :: "('d \<Rightarrow> db_view) \<Rightarrow> tables \<Rightarrow> 'd mysql \<Rightarrow> bool" where
  "idle v C m \<longleftrightarrow> \<not> my_in_transaction m \<and> \<not> v_tx (v (my_world m)) \<and> v_com (v (my_world m)) = C"

lemma Disconnect_frame [simp]:
  "my_in_transaction (MysqlClient_Disconnect api m) = my_in_transaction m"
  "my_conn (MysqlClient_Disconnect api m) = False"
  by (simp_all add: MysqlClient_Disconnect_def)

lemma Disconnect_com:
  "innodb api v lit \<Longrightarrow> v_com (v (my_world (MysqlClient_Disconnect api m))) = v_com (v (my_world m))"
  by (simp add: MysqlClient_Disconnect_def innodb_close)

lemma Disconnect_tx:
  "innodb api v lit \<Longrightarrow> my_conn m \<or> \<not> v_tx (v (my_world m)) \<Longrightarrow>
     \<not> v_tx (v (my_world (MysqlClient_Disconnect api m)))"
  by (auto simp: MysqlClient_Disconnect_def innodb_close)

lemma Disconnect_idle:
  "innodb api v lit \<Longrightarrow> idle v C m \<Longrightarrow> idle v C (MysqlClient_Disconnect api m)"
  by (simp add: idle_def Disconnect_com Disconnect_tx)

lemma Connect_idle:
  assumes d: "innodb api v lit" and i: "idle v C m" and c: "MysqlClient_Connect api m = (ok, m')"
  shows "idle v C m'" and "ok \<Longrightarrow> my_conn m'"
proof -
  let ?m1 = "MysqlClient_Disconnect api m"
  obtain o1 w1 where init: "mysql_init api (my_world ?m1) = (o1, w1)" by fastforce
  let ?m2 = "?m1\<lparr>my_conn := o1, my_world := w1\<rparr>"
  let ?c = "my_cfg ?m1"
  have i2: "idle v C ?m2"
    using Disconnect_idle [OF d i] innodb_init [OF d init] by (simp add: idle_def)
  obtain o2 w2 where con: "mysql_real_connect api (mysql_host ?c) (mysql_user ?c) (mysql_password ?c)
      (mysql_database ?c) (mysql_port ?c mod 2 ^ 32) w1 = (o2, w2)" by fastforce
  have i3: "idle v C (?m2\<lparr>my_world := w2\<rparr>)"
    using innodb_connect [OF d con] i2 by (simp add: idle_def)
  have "(ok, m') = (if \<not> o1 then (False, ?m2) else if \<not> o2 then (False, MysqlClient_Disconnect api (?m2\<lparr>my_world := w2\<rparr>))
      else (True, ?m2\<lparr>my_world := w2\<rparr>))"
    using c i init con by (auto simp: MysqlClient_Connect_def idle_def Let_def split: if_splits)
  then show "idle v C m'" "ok \<Longrightarrow> my_conn m'"
    using i2 i3 Disconnect_idle [OF d i3] by (auto split: if_splits)
qed

lemma has_conn_idle:
  assumes "innodb api v lit" and "idle v C m" and "has_conn api m = (ok, m')"
  shows "idle v C m'" and "ok \<Longrightarrow> my_conn m'"
  using assms Connect_idle [OF assms(1,2)] by (auto simp: has_conn_def split: if_splits)

lemma Reset_idle:
  "innodb api v lit \<Longrightarrow> idle v C m \<Longrightarrow> idle v C (MysqlClient_ResetOnConnectionError api m)"
  by (simp add: MysqlClient_ResetOnConnectionError_def Let_def Disconnect_idle)

lemma idle_world: "idle v C m \<Longrightarrow> \<not> v_tx (v w) \<Longrightarrow> v_com (v w) = C' \<Longrightarrow> idle v C' (m\<lparr>my_world := w\<rparr>)"
  by (simp add: idle_def)

lemma Query_idle:
  assumes d: "innodb api v lit" and i: "idle v C m" and q: "MysqlClient_Query api st m = (rows, m')"
    and sel: "st \<noteq> StartTransaction" "\<And>T. exec_stmt lit st T = T"
  shows "idle v C m'" and "rows \<noteq> [] \<Longrightarrow> rows = map row_item (select_rows st C)"
proof -
  obtain c m1 where h: "has_conn api m = (c, m1)" by fastforce
  obtain ok w where qu: "mysql_query api st (my_world m1) = (ok, w)" by fastforce
  obtain r w' where st: "mysql_store_result api w = (r, w')" by fastforce
  note i1 = has_conn_idle [OF d i h]
  have tx: "\<not> v_tx (v (my_world m1))" and com: "v_com (v (my_world m1)) = C" using i1 by (auto simp: idle_def)
  note a = innodb_auto_query [OF d qu tx sel(1)]
  have i2: "idle v C (m1\<lparr>my_world := w\<rparr>)"
    using a(1,6) i1(1) com by (auto simp: idle_def sel(2))
  have i3: "idle v C (m1\<lparr>my_world := w'\<rparr>)"
    using innodb_store [OF d st] i2 by (simp add: idle_def)
  have res: "(rows, m') = (if \<not> c then ([], m1)
      else if \<not> ok then ([], MysqlClient_ResetOnConnectionError api (m1\<lparr>my_world := w\<rparr>))
      else (case r of None \<Rightarrow> ([], m1\<lparr>my_world := w'\<rparr>) | Some rs \<Rightarrow> (map row_item rs, m1\<lparr>my_world := w'\<rparr>)))"
    using q h qu st by (auto simp: MysqlClient_Query_def Let_def split: if_splits)
  then show "idle v C m'"
    using i1 i3 Reset_idle [OF d i2] by (auto split: if_splits option.splits)
  show "rows = map row_item (select_rows st C)" if "rows \<noteq> []"
  proof -
    have "ok" "c" and "\<exists>rs. r = Some rs \<and> rows = map row_item rs"
      using res that by (auto split: if_splits option.splits)
    moreover from this obtain rs where "r = Some rs" "rows = map row_item rs" by blast
    ultimately show ?thesis using innodb_rows [OF d, of st "my_world m1" w rs w'] qu st tx com by simp
  qed
qed

subsection \<open>The client inside a transaction\<close>

definition in_tx :: "('d \<Rightarrow> db_view) \<Rightarrow> tables \<Rightarrow> 'd mysql \<Rightarrow> bool" where
  "in_tx v C m \<longleftrightarrow> my_conn m \<and> my_in_transaction m \<and> v_com (v (my_world m)) = C"

definition tx_at :: "('d \<Rightarrow> db_view) \<Rightarrow> tables \<Rightarrow> tables \<Rightarrow> 'd mysql \<Rightarrow> bool" where
  "tx_at v C T m \<longleftrightarrow> in_tx v C m \<and> v_tx (v (my_world m)) \<and> v_cur (v (my_world m)) = T"

lemma tx_at_in_tx [simp]: "tx_at v C T m \<Longrightarrow> in_tx v C m"
  by (simp add: tx_at_def)

lemma has_conn_tx [simp]: "in_tx v C m \<Longrightarrow> has_conn api m = (True, m)"
  by (simp add: in_tx_def has_conn_def)

lemma Reset_tx [simp]: "in_tx v C m \<Longrightarrow> MysqlClient_ResetOnConnectionError api (m\<lparr>my_world := w\<rparr>) = m\<lparr>my_world := w\<rparr>"
  by (simp add: in_tx_def MysqlClient_ResetOnConnectionError_def)

text \<open>One statement sent in a transaction.\<close>

lemma query_tx:
  assumes d: "innodb api v lit" and t: "tx_at v C T m" and ne: "st \<noteq> StartTransaction"
    and q: "mysql_query api st (my_world m) = (ok, w)"
  shows "in_tx v C (m\<lparr>my_world := w\<rparr>)"
    and "ok \<Longrightarrow> tx_at v C (exec_stmt lit st T) (m\<lparr>my_world := w\<rparr>) \<and> stmt_ok st T \<and>
               affected_ok st T (mysql_affected_rows api w)"
  using innodb_query [OF d q _ ne] t by (auto simp: tx_at_def in_tx_def)

lemma Execute_tx:
  assumes d: "innodb api v lit" and t: "tx_at v C T m" and ne: "st \<noteq> StartTransaction"
    and e: "MysqlClient_Execute api st m = (b, m')"
  shows "in_tx v C m'" and "b \<Longrightarrow> tx_at v C (exec_stmt lit st T) m' \<and> stmt_ok st T"
proof -
  obtain ok w where q: "mysql_query api st (my_world m) = (ok, w)" by fastforce
  note s = query_tx [OF d t ne q]
  have "(b, m') = (ok, m\<lparr>my_world := if ok then drain_results api (more_results api w) w else w\<rparr>)"
    using e t q by (auto simp: MysqlClient_Execute_def Let_def tx_at_def split: if_splits)
  then show "in_tx v C m'" "b \<Longrightarrow> tx_at v C (exec_stmt lit st T) m' \<and> stmt_ok st T"
    using s by (auto simp: in_tx_def tx_at_def innodb_drain [OF d])
qed

lemma affected_ok_small: "affected_ok st T n \<Longrightarrow> n \<in> {0, 1, 2}"
  by (cases st) (auto split: option.splits if_splits)

lemma wrap64_affected: "affected_ok st T n \<Longrightarrow> wrap64 n = n"
  using affected_ok_small [of st T n] by (auto simp: in_i64_def)

lemma ExecuteAffected_tx:
  assumes d: "innodb api v lit" and t: "tx_at v C T m" and ne: "st \<noteq> StartTransaction"
    and e: "MysqlClient_ExecuteAffected api st m = (n, m')"
  shows "in_tx v C m'"
    and "n \<ge> 0 \<Longrightarrow> tx_at v C (exec_stmt lit st T) m' \<and> stmt_ok st T \<and> affected_ok st T n"
proof -
  obtain ok w where q: "mysql_query api st (my_world m) = (ok, w)" by fastforce
  note s = query_tx [OF d t ne q]
  have r: "(n, m') = (if ok then wrap64 (mysql_affected_rows api w) else - 1, m\<lparr>my_world := w\<rparr>)"
    using e t q by (auto simp: MysqlClient_ExecuteAffected_def Let_def tx_at_def split: if_splits)
  show "in_tx v C m'" using r s(1) by simp
  show "tx_at v C (exec_stmt lit st T) m' \<and> stmt_ok st T \<and> affected_ok st T n" if "n \<ge> 0"
    using r s(2) that wrap64_affected [of st T] by (cases ok) auto
qed

lemma Query_tx:
  assumes d: "innodb api v lit" and t: "tx_at v C T m" and ne: "st \<noteq> StartTransaction"
    and e: "MysqlClient_Query api st m = (rows, m')"
  shows "in_tx v C m'"
    and "rows \<noteq> [] \<Longrightarrow> tx_at v C (exec_stmt lit st T) m' \<and> rows = map row_item (select_rows st T)"
proof -
  obtain ok w where q: "mysql_query api st (my_world m) = (ok, w)" by fastforce
  obtain r w' where st: "mysql_store_result api w = (r, w')" by fastforce
  note s = query_tx [OF d t ne q] and vw = innodb_store [OF d st]
  have r: "(rows, m') = (if \<not> ok then ([], m\<lparr>my_world := w\<rparr>)
      else (case r of None \<Rightarrow> [] | Some rs \<Rightarrow> map row_item rs, m\<lparr>my_world := w'\<rparr>))"
    using e t q st by (auto simp: MysqlClient_Query_def Let_def tx_at_def split: if_splits option.splits)
  show "in_tx v C m'" using r s(1) vw by (cases ok) (auto simp: in_tx_def)
  show "tx_at v C (exec_stmt lit st T) m' \<and> rows = map row_item (select_rows st T)" if nonempty: "rows \<noteq> []"
  proof -
    obtain rs where rs: "ok" "r = Some rs" "rows = map row_item rs" "m' = m\<lparr>my_world := w'\<rparr>"
      using r nonempty by (auto split: if_splits option.splits)
    then have "rs = select_rows st T"
      using innodb_rows [OF d, of st "my_world m" w rs w'] q st t by (simp add: tx_at_def)
    then show ?thesis using rs s(2) vw by (auto simp: tx_at_def in_tx_def)
  qed
qed

lemma Escape_tx:
  assumes "innodb api v lit" and "in_tx v C m" and "MysqlClient_EscapeString api s m = (s', m')"
  shows "m' = m" and "lit s' = s"
  using assms innodb_escape [OF assms(1)] by (auto simp: MysqlClient_EscapeString_def Let_def)

subsection \<open>Transactions are atomic\<close>

text \<open>The contract of a callback: it keeps the transaction open on the connection and commits
  nothing, and if it returns \<open>true\<close> the transaction is still intact and sees tables with \<open>P\<close>.\<close>

definition callback_ok ::
    "('d \<Rightarrow> db_view) \<Rightarrow> tables \<Rightarrow> (tables \<Rightarrow> bool) \<Rightarrow> ('d mysql \<Rightarrow> (cpp_exception + bool) \<times> 'd mysql) \<Rightarrow> bool" where
  "callback_ok v C P f \<longleftrightarrow>
     (\<forall>m r m'. tx_at v C C m \<longrightarrow> f m = (r, m') \<longrightarrow>
        in_tx v C m' \<and> (r = Inr True \<longrightarrow> (\<exists>T. P T \<and> tx_at v C T m')))"

lemma rollback_idle:
  assumes d: "innodb api v lit" and t: "in_tx v C m" and r: "mysql_rollback api (my_world m) = (ok, w)"
  shows "idle v C ((if \<not> ok then MysqlClient_Disconnect api (m\<lparr>my_world := w\<rparr>) else m\<lparr>my_world := w\<rparr>)\<lparr>my_in_transaction := False\<rparr>)"
  using innodb_rollback [OF d r] t Disconnect_com [OF d] Disconnect_tx [OF d]
  by (auto simp: idle_def in_tx_def)

text \<open>The part of \<open>RunTransaction\<close> after the callback has returned or thrown.\<close>

definition finish_transaction ::
    "'d mysql_api \<Rightarrow> cpp_exception + bool \<Rightarrow> 'd mysql \<Rightarrow> (cpp_exception + bool) \<times> 'd mysql" where
  "finish_transaction api res m =
     (if res = Inr True then
        (let (ok, w) = mysql_commit api (my_world m) in
         if \<not> ok then (Inr False, (MysqlClient_Disconnect api (m\<lparr>my_world := w\<rparr>))\<lparr>my_in_transaction := False\<rparr>)
         else (Inr True, m\<lparr>my_world := w, my_in_transaction := False\<rparr>))
      else
        (let (ok, w) = mysql_rollback api (my_world m) in
         (res, (if \<not> ok then MysqlClient_Disconnect api (m\<lparr>my_world := w\<rparr>) else m\<lparr>my_world := w\<rparr>)
                 \<lparr>my_in_transaction := False\<rparr>)))"

lemma RunTransaction_eq:
  assumes "\<not> my_in_transaction m" and h: "has_conn api m = (c, m1)"
    and q: "mysql_query api StartTransaction (my_world m1) = (ok, w)"
    and f: "f (m1\<lparr>my_world := w, my_in_transaction := True\<rparr>) = (res, m3)"
    and "c \<Longrightarrow> ok \<Longrightarrow> my_conn m3"
  shows "MysqlClient_RunTransaction api (Some f) m =
     (if \<not> c then (Inr False, m1)
      else if \<not> ok then (Inr False, MysqlClient_Disconnect api (m1\<lparr>my_world := w\<rparr>))
      else finish_transaction api res m3)"
  using assms
  by (auto simp: MysqlClient_RunTransaction_def finish_transaction_def Let_def split: sum.splits prod.splits)

lemma finish_transaction_atomic:
  assumes d: "innodb api v lit" and "in_tx v C m" and "res = Inr True \<Longrightarrow> tx_at v C T m"
    and fin: "finish_transaction api res m = (r, m')"
  shows "r = Inr True \<longrightarrow> res = Inr True \<and> idle v T m'" and "idle v C m' \<or> res = Inr True \<and> idle v T m'"
proof -
  obtain okc wc where c: "mysql_commit api (my_world m) = (okc, wc)" by fastforce
  obtain okr wr where rb: "mysql_rollback api (my_world m) = (okr, wr)" by fastforce
  show "r = Inr True \<longrightarrow> res = Inr True \<and> idle v T m'"
    using fin c rb assms innodb_commit [OF d c]
    by (auto simp: finish_transaction_def tx_at_def idle_def split: if_splits)
  show "idle v C m' \<or> res = Inr True \<and> idle v T m'"
  proof (cases "res = Inr True")
    case True
    then have "v_tx (v (my_world m))" "v_cur (v (my_world m)) = T" "v_com (v (my_world m)) = C" "my_conn m"
      using assms(3) by (auto simp: tx_at_def in_tx_def)
    then show ?thesis
      using fin c True innodb_commit [OF d c] Disconnect_com [OF d] Disconnect_tx [OF d]
      by (auto simp: finish_transaction_def idle_def split: if_splits)
  next
    case False
    then show ?thesis using fin rb rollback_idle [OF d assms(2) rb] by (auto simp: finish_transaction_def)
  qed
qed

lemma RunTransaction_atomic:
  assumes d: "innodb api v lit" and i: "idle v C m" and f: "callback_ok v C P f"
    and run: "MysqlClient_RunTransaction api (Some f) m = (r, m')"
  shows "\<exists>T. P T \<and> idle v T m' \<or> r \<noteq> Inr True \<and> idle v C m'"
proof -
  obtain c m1 where h: "has_conn api m = (c, m1)" by fastforce
  obtain ok w where q: "mysql_query api StartTransaction (my_world m1) = (ok, w)" by fastforce
  let ?m2 = "m1\<lparr>my_world := w, my_in_transaction := True\<rparr>"
  obtain res m3 where fr: "f ?m2 = (res, m3)" by fastforce
  note i1 = has_conn_idle [OF d i h]
  note start = innodb_start [OF d q]
  have m2: "tx_at v C C ?m2" if c "ok" using that i1 start by (auto simp: tx_at_def in_tx_def idle_def)
  have post: "in_tx v C m3 \<and> (res = Inr True \<longrightarrow> (\<exists>T. P T \<and> tx_at v C T m3))" if c "ok"
    using m2 [OF that] f fr by (auto simp: callback_ok_def)
  have eq: "(r, m') = (if \<not> c then (Inr False, m1)
      else if \<not> ok then (Inr False, MysqlClient_Disconnect api (m1\<lparr>my_world := w\<rparr>))
      else finish_transaction api res m3)"
    using RunTransaction_eq [of m api c m1 ok w f res m3] i h q fr post run by (auto simp: idle_def in_tx_def)
  consider "\<not> c" | "c" "\<not> ok" | "c" "ok" by blast
  then show ?thesis
  proof cases
    case 1
    then show ?thesis using eq i1 by auto
  next
    case 2
    have "idle v C (MysqlClient_Disconnect api (m1\<lparr>my_world := w\<rparr>))"
      using i1 2 start Disconnect_com [OF d] Disconnect_tx [OF d] by (auto simp: idle_def)
    then show ?thesis using eq 2 by auto
  next
    case 3
    then have fin: "finish_transaction api res m3 = (r, m')" using eq by simp
    show ?thesis
    proof (cases "res = Inr True")
      case True
      then obtain T where "P T" "tx_at v C T m3" using post 3 by blast
      then show ?thesis using finish_transaction_atomic [OF d, of C m3 res T] post 3 fin by blast
    next
      case False
      then show ?thesis using finish_transaction_atomic [OF d, of C m3 res C] post 3 fin by blast
    qed
  qed
qed

subsection \<open>A database with a schedule of faults\<close>

text \<open>An instance of the assumptions, used by the witnesses.  Each call consumes one number of the
  schedule: 0 lets it succeed, 1 makes it fail without effect, 2 makes it fail with the effect that
  is possible then (the transaction is rolled back, or the statement or commit took effect).\<close>

record sim =
  s_faults :: "nat list"
  s_tx :: bool
  s_cur :: tables
  s_com :: tables
  s_rows :: "raw_row list"
  s_affected :: int
  s_insert_id :: int

definition sim_fault :: "bool \<Rightarrow> sim \<Rightarrow> nat \<times> sim" where
  "sim_fault u d = (if u then (case s_faults d of [] \<Rightarrow> (0, d) | f # fs \<Rightarrow> (f, d\<lparr>s_faults := fs\<rparr>)) else (0, d))"

fun sim_affected :: "sql_stmt \<Rightarrow> tables \<Rightarrow> int" where
  "sim_affected (UpdateBattleSettled bid wid) T =
     (case um_find (tb_battle T) bid of None \<Rightarrow> 0 | Some b \<Rightarrow> if br_settled b = 0 then 1 else 0)"
| "sim_affected _ T = 1"

definition sim_query :: "bool \<Rightarrow> sql_stmt \<Rightarrow> sim \<Rightarrow> bool \<times> sim" where
  "sim_query u st d =
     (let (f, d1) = sim_fault u d; T = (if s_tx d then s_cur d else s_com d) in
      if st = StartTransaction then
        (if f = 0 then (True, d1\<lparr>s_tx := True, s_cur := T, s_com := T, s_rows := []\<rparr>) else (False, d1))
      else if f = 0 \<and> stmt_ok st T then
        (let d2 = d1\<lparr>s_rows := select_rows st T, s_affected := sim_affected st T, s_insert_id := next_battle T\<rparr>
         in (True, if s_tx d then d2\<lparr>s_cur := exec_stmt id st T\<rparr> else d2\<lparr>s_com := exec_stmt id st T\<rparr>))
      else if f = 2 \<and> s_tx d then (False, d1\<lparr>s_tx := False\<rparr>)
      else if f = 2 \<and> stmt_ok st T then (False, d1\<lparr>s_com := exec_stmt id st T\<rparr>)
      else (False, d1))"

definition sim_store :: "bool \<Rightarrow> sim \<Rightarrow> raw_row list option \<times> sim" where
  "sim_store u d = (let (f, d1) = sim_fault u d in (if f = 0 then Some (s_rows d) else None, d1))"

definition sim_commit :: "bool \<Rightarrow> sim \<Rightarrow> bool \<times> sim" where
  "sim_commit u d =
     (let (f, d1) = sim_fault u d in
      if f = 0 \<or> f = 2 then (f = 0, d1\<lparr>s_com := s_cur d, s_tx := False\<rparr>) else (False, d1))"

definition sim_api :: "bool \<Rightarrow> sim mysql_api" where
  "sim_api u =
     \<lparr>mysql_init = (\<lambda>d. let (f, d1) = sim_fault u d in (f = 0, d1)),
      mysql_real_connect = (\<lambda>h us p b n d. let (f, d1) = sim_fault u d in (f = 0, d1)),
      mysql_close = (\<lambda>d. d\<lparr>s_tx := False\<rparr>),
      mysql_errno = (\<lambda>d. CR_SERVER_LOST),
      mysql_query = sim_query u,
      more_results = (\<lambda>d. 0), mysql_next_result = (\<lambda>d. d),
      mysql_affected_rows = s_affected, mysql_insert_id = s_insert_id,
      mysql_store_result = sim_store u,
      mysql_rollback = (\<lambda>d. let (f, d1) = sim_fault u d in (f = 0, if f = 0 then d1\<lparr>s_tx := False\<rparr> else d1)),
      mysql_commit = sim_commit u,
      mysql_real_escape_string = (\<lambda>s d. s)\<rparr>"

definition sim_view :: "sim \<Rightarrow> db_view" where
  "sim_view d = \<lparr>v_tx = s_tx d, v_cur = s_cur d, v_com = s_com d\<rparr>"

lemma sim_fault_frame:
  assumes "sim_fault u d = (f, d1)"
  shows "s_tx d1 = s_tx d \<and> s_cur d1 = s_cur d \<and> s_com d1 = s_com d \<and> s_rows d1 = s_rows d"
  using assms by (auto simp: sim_fault_def split: if_splits list.splits)

lemma sim_affected_ok: "affected_ok st T (sim_affected st T)"
  by (cases st) (auto split: option.splits)

lemma sim_link: "innodb_link (sim_api u) sim_view"
  by (auto simp: innodb_link_def sim_api_def sim_view_def sim_store_def dest!: sim_fault_frame split: prod.splits)

lemma sim_query_cases:
  assumes "sim_query u st d = (ok, d')"
  defines "T \<equiv> (if s_tx d then s_cur d else s_com d)"
  shows "st = StartTransaction \<Longrightarrow> (if ok then s_tx d' \<and> s_cur d' = T \<and> s_com d' = T \<and> s_rows d' = []
      else s_tx d' = s_tx d \<and> s_cur d' = s_cur d \<and> s_com d' = s_com d)"
    and "st \<noteq> StartTransaction \<Longrightarrow> ok \<Longrightarrow> stmt_ok st T \<and> s_tx d' = s_tx d \<and> s_rows d' = select_rows st T \<and>
      s_affected d' = sim_affected st T \<and> s_insert_id d' = next_battle T \<and>
      (if s_tx d then s_cur d' = exec_stmt id st T \<and> s_com d' = s_com d else s_com d' = exec_stmt id st T)"
    and "st \<noteq> StartTransaction \<Longrightarrow> \<not> ok \<Longrightarrow> (if s_tx d then s_com d' = s_com d
      else \<not> s_tx d' \<and> (s_com d' = s_com d \<or> stmt_ok st T \<and> s_com d' = exec_stmt id st T))"
  using assms sim_fault_frame [of u d]
  by (auto simp: sim_query_def Let_def split: prod.splits if_splits)

lemma sim_stmt: "innodb_stmt (sim_api u) sim_view id"
  unfolding innodb_stmt_def
proof (intro conjI allI impI)
  fix st d d' rows d''
  assume q: "mysql_query (sim_api u) st d = (True, d')" and s: "mysql_store_result (sim_api u) d' = (Some rows, d'')"
  have "rows = s_rows d'" using s by (auto simp: sim_api_def sim_store_def split: prod.splits if_splits)
  then show "rows = select_rows st (if v_tx (sim_view d) then v_cur (sim_view d) else v_com (sim_view d))"
    using sim_query_cases(1,2) [of u st d True d'] q
    by (cases "st = StartTransaction") (auto simp: sim_api_def sim_view_def)
next
  fix st d ok d'
  assume "mysql_query (sim_api u) st d = (ok, d')" and ne: "st \<noteq> StartTransaction" and "v_tx (sim_view d)"
  then have q: "sim_query u st d = (ok, d')" "s_tx d" by (auto simp: sim_api_def sim_view_def)
  show "v_com (sim_view d') = v_com (sim_view d)"
    using sim_query_cases(2,3) [OF q(1) ne] q(2) by (cases ok) (auto simp: sim_view_def)
qed (auto simp: sim_api_def sim_view_def sim_affected_ok dest: sim_query_cases split: if_splits)

lemma sim_auto: "innodb_auto (sim_api u) sim_view id"
  unfolding innodb_auto_def
proof (intro allI impI)
  fix st d ok d'
  assume "mysql_query (sim_api u) st d = (ok, d')" and "st \<noteq> StartTransaction" and "\<not> v_tx (sim_view d)"
  then have q: "sim_query u st d = (ok, d')" "st \<noteq> StartTransaction" "\<not> s_tx d"
    by (auto simp: sim_api_def sim_view_def)
  show "\<not> v_tx (sim_view d') \<and>
        (ok \<longrightarrow> stmt_ok st (v_com (sim_view d)) \<and> v_com (sim_view d') = exec_stmt id st (v_com (sim_view d)) \<and>
              affected_ok st (v_com (sim_view d)) (mysql_affected_rows (sim_api u) d') \<and>
              (\<forall>rid. st = InsertBattleAuto rid \<longrightarrow> mysql_insert_id (sim_api u) d' = next_battle (v_com (sim_view d)))) \<and>
        (\<not> ok \<longrightarrow> v_com (sim_view d') = v_com (sim_view d) \<or>
               stmt_ok st (v_com (sim_view d)) \<and> v_com (sim_view d') = exec_stmt id st (v_com (sim_view d)))"
    using sim_query_cases(2,3) [OF q(1,2)] q(3)
    by (cases ok) (auto simp: sim_api_def sim_view_def sim_affected_ok)
qed

lemma sim_end: "innodb_end (sim_api u) sim_view"
  by (auto simp: innodb_end_def sim_api_def sim_view_def sim_commit_def dest!: sim_fault_frame
      split: prod.splits if_splits)

lemma sim_innodb: "innodb (sim_api u) sim_view id"
  by (simp add: innodb_def sim_link sim_stmt sim_auto sim_end) (simp add: sim_api_def)

lemma sim_no_faults: "no_faults (sim_api False) sim_view"
  by (auto simp: no_faults_def sim_api_def sim_view_def sim_query_def sim_store_def sim_commit_def sim_fault_def Let_def)

end
