(* ===== verification/Player_Repository.thy ===== *)
theory Player_Repository
  imports Innodb
begin

text \<open>
  The player repository: \<open>src/src/storage/player_repository.h\<close> and \<open>player_repository.cpp\<close>.  The flag
  \<open>has_db\<close> of an operation says that \<open>mysql_\<close> is not null.  \<open>Inl\<close> is an exception thrown by \<open>at\<close>,
  \<open>stoi\<close> or \<open>stoll\<close>.
\<close>

definition PlayerData_default :: PlayerData where
  "PlayerData_default = \<lparr>pd_player_id = 0, pd_name = [], pd_score = 1000, pd_win_count = 0, pd_lose_count = 0\<rparr>"

definition read_player :: "QueryRow \<Rightarrow> cpp_exception + PlayerData" where
  "read_player row =
     try_then (row_at row ''player_id'') (\<lambda>s1. try_then (stoll s1) (\<lambda>pid.
     try_then (row_at row ''name'') (\<lambda>name.
     try_then (row_at row ''score'') (\<lambda>s2. try_then (stoi s2) (\<lambda>score.
     try_then (row_at row ''win_count'') (\<lambda>s3. try_then (stoi s3) (\<lambda>wins.
     try_then (row_at row ''lose_count'') (\<lambda>s4. try_then (stoi s4) (\<lambda>losses.
       Inr \<lparr>pd_player_id = pid, pd_name = name, pd_score = score, pd_win_count = wins, pd_lose_count = losses\<rparr>)))))))))"

text \<open>\<open>Inr None\<close> is the result \<open>false\<close>, \<open>Inr (Some data)\<close> the result \<open>true\<close> with \<open>data\<close> filled in.\<close>

definition PlayerRepository_FindPlayer ::
    "'d mysql_api \<Rightarrow> bool \<Rightarrow> i64 \<Rightarrow> 'd mysql \<Rightarrow> (cpp_exception + PlayerData option) \<times> 'd mysql" where
  "PlayerRepository_FindPlayer api has_db pid m =
     (if has_db then
        (let (rows, m1) = MysqlClient_Query api (SelectPlayer pid) m
         in case rows of
              [] \<Rightarrow> (Inr None, m1)
            | row # _ \<Rightarrow> (try_then (read_player row) (\<lambda>data. Inr (Some data)), m1))
      else (Inr None, m))"

definition PlayerRepository_CreatePlayer ::
    "'d mysql_api \<Rightarrow> bool \<Rightarrow> PlayerData \<Rightarrow> 'd mysql \<Rightarrow> bool \<times> 'd mysql" where
  "PlayerRepository_CreatePlayer api has_db data m =
     (if \<not> has_db then (False, m)
      else
        let (name, m1) = MysqlClient_EscapeString api (pd_name data) m
        in MysqlClient_Execute api
             (UpsertPlayerName (pd_player_id data) name (pd_score data) (pd_win_count data) (pd_lose_count data)) m1)"

definition PlayerRepository_LoadPlayer ::
    "'d mysql_api \<Rightarrow> bool \<Rightarrow> i64 \<Rightarrow> 'd mysql \<Rightarrow> (cpp_exception + PlayerData) \<times> 'd mysql" where
  "PlayerRepository_LoadPlayer api has_db pid m =
     (let (found, m1) = PlayerRepository_FindPlayer api has_db pid m
      in case found of
           Inl e \<Rightarrow> (Inl e, m1)
         | Inr (Some data) \<Rightarrow> (Inr data, m1)
         | Inr None \<Rightarrow>
             let data = PlayerData_default\<lparr>pd_player_id := pid, pd_name := ''player_'' @ to_string pid\<rparr>;
                 (created, m2) = PlayerRepository_CreatePlayer api has_db data m1
             in (Inr data, m2))"

text \<open>The sum \<open>1000 + score_delta\<close> is an \<open>int\<close>; the callers pass 20 or -10, where it cannot overflow.\<close>

definition PlayerRepository_UpdatePlayerScore ::
    "'d mysql_api \<Rightarrow> bool \<Rightarrow> i64 \<Rightarrow> i32 \<Rightarrow> 'd mysql \<Rightarrow> bool \<times> 'd mysql" where
  "PlayerRepository_UpdatePlayerScore api has_db pid score_delta m =
     (if \<not> has_db then (False, m)
      else
        let win_delta = (if score_delta > 0 then 1 else 0);
            lose_delta = (if score_delta < 0 then 1 else 0);
            initial_score = 1000 + score_delta
        in MysqlClient_Execute api (UpsertPlayerScore pid initial_score score_delta win_delta lose_delta) m)"

subsection \<open>Reading a player\<close>

lemma row_item_cols:
  "row_item [] = []"
  "row_item (row @ [col name v]) = um_put name v (row_item row)"
  by (simp_all add: row_item_def col_def)

lemma row_at_item [simp]: "row_at row k = Inr s \<longleftrightarrow> um_find row k = Some s"
  by (auto simp: row_at_def split: option.splits)

lemma stoi_to_string_Inr [simp]: "stoi (to_string i) = Inr j \<longleftrightarrow> in_i32 i \<and> j = i"
  by (auto simp: stoi_def)

lemma stoll_to_string_Inr [simp]: "stoll (to_string i) = Inr j \<longleftrightarrow> in_i64 i \<and> j = i"
  by (auto simp: stoll_def)

definition player_row :: "i64 \<Rightarrow> PlayerData \<Rightarrow> QueryRow" where
  "player_row pid p = row_item [col ''player_id'' (to_string pid), col ''name'' (pd_name p),
     col ''score'' (to_string (pd_score p)), col ''win_count'' (to_string (pd_win_count p)),
     col ''lose_count'' (to_string (pd_lose_count p))]"

lemma player_row_find:
  "um_find (player_row pid p) ''player_id'' = Some (to_string pid)"
  "um_find (player_row pid p) ''name'' = Some (pd_name p)"
  "um_find (player_row pid p) ''score'' = Some (to_string (pd_score p))"
  "um_find (player_row pid p) ''win_count'' = Some (to_string (pd_win_count p))"
  "um_find (player_row pid p) ''lose_count'' = Some (to_string (pd_lose_count p))"
  by (simp_all add: player_row_def row_item_def col_def)

lemma read_player_row:
  "read_player (player_row pid p) = Inr data \<longleftrightarrow>
     in_i64 pid \<and> in_i32 (pd_score p) \<and> in_i32 (pd_win_count p) \<and> in_i32 (pd_lose_count p) \<and>
     data = p\<lparr>pd_player_id := pid\<rparr>"
  by (cases p) (auto simp: read_player_def player_row_find)

lemma FindPlayer_idle:
  assumes d: "innodb api v lit" and i: "idle v C m" and f: "PlayerRepository_FindPlayer api has_db pid m = (r, m')"
  shows "idle v C m'"
    and "r = Inr (Some data) \<Longrightarrow> \<exists>p. um_find (tb_player C) pid = Some p \<and> data = p\<lparr>pd_player_id := pid\<rparr>"
proof -
  obtain rows m1 where q: "MysqlClient_Query api (SelectPlayer pid) m = (rows, m1)" by fastforce
  have i1: "idle v C m1" and rows: "rows \<noteq> [] \<Longrightarrow> rows = map row_item (select_rows (SelectPlayer pid) C)"
    using Query_idle [OF d i q] by simp_all
  show "idle v C m'" using f q i i1 by (auto simp: PlayerRepository_FindPlayer_def split: if_splits list.splits)
  assume r: "r = Inr (Some data)"
  then obtain row rest where rr: "rows = row # rest" "read_player row = Inr data"
    using f q by (auto simp: PlayerRepository_FindPlayer_def split: if_splits list.splits)
  then have "rows = map row_item (select_rows (SelectPlayer pid) C)" using rows by simp
  then obtain p where "um_find (tb_player C) pid = Some p" "row = player_row pid p"
    using rr by (auto simp: player_row_def split: option.splits)
  then show "\<exists>p. um_find (tb_player C) pid = Some p \<and> data = p\<lparr>pd_player_id := pid\<rparr>"
    using rr(2) read_player_row by blast
qed

definition score_stmt :: "i64 \<Rightarrow> i32 \<Rightarrow> sql_stmt" where
  "score_stmt pid delta =
     UpsertPlayerScore pid (1000 + delta) delta (if delta > 0 then 1 else 0) (if delta < 0 then 1 else 0)"

lemma UpdatePlayerScore_eq:
  "PlayerRepository_UpdatePlayerScore api True pid delta m = MysqlClient_Execute api (score_stmt pid delta) m"
  by (simp add: PlayerRepository_UpdatePlayerScore_def score_stmt_def)

lemma UpdatePlayerScore_tx:
  assumes d: "innodb api v lit" and t: "tx_at v C T m"
    and e: "PlayerRepository_UpdatePlayerScore api True pid delta m = (b, m')"
  shows "in_tx v C m'"
    and "b \<Longrightarrow> tx_at v C (exec_stmt lit (score_stmt pid delta) T) m'"
proof -
  have "score_stmt pid delta \<noteq> StartTransaction" by (simp add: score_stmt_def)
  note x = Execute_tx [OF d t this e [unfolded UpdatePlayerScore_eq]]
  show "in_tx v C m'" by (rule x(1))
  show "b \<Longrightarrow> tx_at v C (exec_stmt lit (score_stmt pid delta) T) m'" using x(2) by blast
qed

end
