(* ===== verification/Battle_Repository.thy ===== *)
theory Battle_Repository
  imports Player_Repository
begin

text \<open>
  The battle repository: \<open>src/src/storage/battle_repository.h\<close> and \<open>battle_repository.cpp\<close>.  The core is
  \<open>ApplySettlement\<close>, which writes the results, the settlement log and the scores of one battle in one
  transaction and recognises a repeated request.
\<close>

record Battle =
  bt_battle_id :: i64
  bt_room_id :: i64
  bt_winner_id :: i64
  bt_result_json :: string

record BattlePlayerResult =
  bpr_battle_id :: i64
  bpr_player_id :: i64
  bpr_result :: string
  bpr_score_delta :: i32

record SettlementLog =
  sl_settlement_id :: i64
  sl_battle_id :: i64
  sl_player_id :: i64
  sl_score_delta :: i32

definition BattleRepository_CreateBattle ::
    "'d mysql_api \<Rightarrow> bool \<Rightarrow> i64 \<Rightarrow> 'd mysql \<Rightarrow> i64 \<times> 'd mysql" where
  "BattleRepository_CreateBattle api has_db room_id m =
     (if \<not> has_db \<or> room_id \<le> 0 then (0, m)
      else MysqlClient_ExecuteInsert api (InsertBattleAuto room_id) m)"

definition BattleRepository_InsertBattle ::
    "'d mysql_api \<Rightarrow> bool \<Rightarrow> Battle \<Rightarrow> 'd mysql \<Rightarrow> bool \<times> 'd mysql" where
  "BattleRepository_InsertBattle api has_db battle m =
     (if \<not> has_db then (False, m)
      else
        let (json, m1) = MysqlClient_EscapeString api (bt_result_json battle) m;
            (n, m2) = MysqlClient_ExecuteAffected api
              (InsertBattleRow (bt_battle_id battle) (bt_room_id battle) (bt_winner_id battle) json) m1
        in (n > 0, m2))"

definition BattleRepository_InsertBattlePlayerResult ::
    "'d mysql_api \<Rightarrow> bool \<Rightarrow> BattlePlayerResult \<Rightarrow> 'd mysql \<Rightarrow> bool \<times> 'd mysql" where
  "BattleRepository_InsertBattlePlayerResult api has_db result m =
     (if \<not> has_db then (False, m)
      else
        let (escaped_result, m1) = MysqlClient_EscapeString api (bpr_result result) m;
            (n, m2) = MysqlClient_ExecuteAffected api
              (InsertResult (bpr_battle_id result) (bpr_player_id result) escaped_result (bpr_score_delta result)) m1
        in (n > 0, m2))"

definition BattleRepository_InsertSettlementLog ::
    "'d mysql_api \<Rightarrow> bool \<Rightarrow> SettlementLog \<Rightarrow> 'd mysql \<Rightarrow> bool \<times> 'd mysql" where
  "BattleRepository_InsertSettlementLog api has_db slog m =
     (if \<not> has_db then (False, m)
      else
        let (n, m1) = MysqlClient_ExecuteAffected api
              (InsertLog (sl_settlement_id slog) (sl_battle_id slog) (sl_player_id slog) (sl_score_delta slog)) m
        in (n > 0, m1))"

definition BattleRepository_HasSettlement ::
    "'d mysql_api \<Rightarrow> bool \<Rightarrow> i64 \<Rightarrow> i64 \<Rightarrow> 'd mysql \<Rightarrow> bool \<times> 'd mysql" where
  "BattleRepository_HasSettlement api has_db bid pid m =
     (if \<not> has_db then (False, m)
      else let (rows, m1) = MysqlClient_Query api (SelectLog bid pid) m in (rows \<noteq> [], m1))"

subsection \<open>Settling a battle\<close>

text \<open>The loop that checks the ordered results; \<open>None\<close> is \<open>return false\<close>, else the winner count.\<close>

fun check_results :: "Battle \<Rightarrow> BattlePlayerResult list \<Rightarrow> i32 \<Rightarrow> i64 \<Rightarrow> i32 option" where
  "check_results battle [] winner_count previous_player = Some winner_count"
| "check_results battle (result # rest) winner_count previous_player =
     (let winner = (bpr_player_id result = bt_winner_id battle)
      in if bpr_battle_id result \<noteq> bt_battle_id battle \<or> bpr_player_id result \<le> previous_player \<or>
            bpr_result result \<noteq> (if winner then ''WIN'' else ''LOSE'') \<or>
            bpr_score_delta result \<noteq> (if winner then 20 else - 10)
         then None
         else check_results battle rest (winner_count + (if winner then 1 else 0)) (bpr_player_id result))"

text \<open>The comparison of the saved rows with the request, for \<open>saved.size() == ordered.size()\<close>.\<close>

fun saved_match :: "QueryRow list \<Rightarrow> BattlePlayerResult list \<Rightarrow> cpp_exception + bool" where
  "saved_match (row # rows) (result # rest) =
     try_then (row_at row ''player_id'') (\<lambda>s. try_then (stoll s) (\<lambda>pid.
       if pid \<noteq> bpr_player_id result then Inr False
       else try_then (row_at row ''result'') (\<lambda>res.
         if res \<noteq> bpr_result result then Inr False
         else try_then (row_at row ''score_delta'') (\<lambda>s. try_then (stoi s) (\<lambda>delta.
           if delta \<noteq> bpr_score_delta result then Inr False else saved_match rows rest)))))"
| "saved_match _ _ = Inr True"

text \<open>The loop over the players of the battle; the conditions are evaluated left to right.\<close>

fun settle_players ::
    "'d mysql_api \<Rightarrow> Battle \<Rightarrow> BattlePlayerResult list \<Rightarrow> 'd mysql \<Rightarrow> bool \<times> 'd mysql" where
  "settle_players api battle [] m = (True, m)"
| "settle_players api battle (result # rest) m =
     (let slog = \<lparr>sl_settlement_id = 0, sl_battle_id = bt_battle_id battle, sl_player_id = bpr_player_id result,
                 sl_score_delta = bpr_score_delta result\<rparr>;
          (b1, m1) = BattleRepository_InsertBattlePlayerResult api True result m
      in if \<not> b1 then (False, m1)
         else
           let (b2, m2) = BattleRepository_InsertSettlementLog api True slog m1
           in if \<not> b2 then (False, m2)
              else
                let (b3, m3) = PlayerRepository_UpdatePlayerScore api True (bpr_player_id result)
                      (bpr_score_delta result) m2
                in if \<not> b3 then (False, m3) else settle_players api battle rest m3)"

definition resettle ::
    "'d mysql_api \<Rightarrow> Battle \<Rightarrow> BattlePlayerResult list \<Rightarrow> QueryRow \<Rightarrow> 'd mysql \<Rightarrow> (cpp_exception + bool) \<times> 'd mysql" where
  "resettle api battle ordered row m =
     (case try_then (row_at row ''winner_id'') stoll of
        Inl e \<Rightarrow> (Inl e, m)
      | Inr saved_winner \<Rightarrow>
          if saved_winner \<noteq> bt_winner_id battle then (Inr False, m)
          else
            let (saved, m1) = MysqlClient_Query api (SelectResultsForUpdate (bt_battle_id battle)) m
            in if length saved \<noteq> length ordered then (Inr False, m1) else (saved_match saved ordered, m1))"

definition first_settle ::
    "'d mysql_api \<Rightarrow> Battle \<Rightarrow> BattlePlayerResult list \<Rightarrow> 'd mysql \<Rightarrow> (cpp_exception + bool) \<times> 'd mysql" where
  "first_settle api battle ordered m =
     (let (ok, m1) = settle_players api battle ordered m
      in if \<not> ok then (Inr False, m1)
         else
           let (n, m2) = MysqlClient_ExecuteAffected api
                 (UpdateBattleSettled (bt_battle_id battle) (bt_winner_id battle)) m1
           in (Inr (n = 1), m2))"

definition settlement_callback ::
    "'d mysql_api \<Rightarrow> Battle \<Rightarrow> BattlePlayerResult list \<Rightarrow> 'd mysql \<Rightarrow> (cpp_exception + bool) \<times> 'd mysql" where
  "settlement_callback api battle ordered m =
     (let (rows, m1) = MysqlClient_Query api (SelectBattleForUpdate (bt_battle_id battle)) m
      in if length rows \<noteq> 1 then (Inr False, m1)
         else case try_then (row_at (hd rows) ''room_id'') stoll of
                Inl e \<Rightarrow> (Inl e, m1)
              | Inr room \<Rightarrow>
                  if room \<noteq> bt_room_id battle then (Inr False, m1)
                  else case row_at (hd rows) ''settled'' of
                         Inl e \<Rightarrow> (Inl e, m1)
                       | Inr settled \<Rightarrow>
                           if settled = ''1'' then resettle api battle ordered (hd rows) m1
                           else first_settle api battle ordered m1)"

text \<open>\<open>std::sort\<close> need not be stable, but two results with the same player fail the check in any order.\<close>

definition BattleRepository_ApplySettlement ::
    "'d mysql_api \<Rightarrow> bool \<Rightarrow> Battle \<Rightarrow> BattlePlayerResult list \<Rightarrow> 'd mysql \<Rightarrow> (cpp_exception + bool) \<times> 'd mysql" where
  "BattleRepository_ApplySettlement api has_db battle results m =
     (if \<not> has_db \<or> bt_battle_id battle \<le> 0 \<or> bt_room_id battle \<le> 0 \<or> bt_winner_id battle \<le> 0 \<or> results = []
      then (Inr False, m)
      else
        let ordered = sort_key bpr_player_id results
        in case check_results battle ordered 0 0 of
             None \<Rightarrow> (Inr False, m)
           | Some winner_count \<Rightarrow>
               if winner_count \<noteq> 1 then (Inr False, m)
               else MysqlClient_RunTransaction api (Some (settlement_callback api battle ordered)) m)"

subsection \<open>The effect of a settlement on the tables\<close>

definition settle_one :: "(string \<Rightarrow> string) \<Rightarrow> BattlePlayerResult \<Rightarrow> tables \<Rightarrow> tables" where
  "settle_one lit r T =
     exec_stmt lit (score_stmt (bpr_player_id r) (bpr_score_delta r))
       (exec_stmt lit (InsertLog 0 (bpr_battle_id r) (bpr_player_id r) (bpr_score_delta r))
         (T\<lparr>tb_result := um_put (bpr_battle_id r, bpr_player_id r) (bpr_result r, bpr_score_delta r) (tb_result T)\<rparr>))"

fun settle_all :: "(string \<Rightarrow> string) \<Rightarrow> BattlePlayerResult list \<Rightarrow> tables \<Rightarrow> tables" where
  "settle_all lit [] T = T"
| "settle_all lit (r # rs) T = settle_all lit rs (settle_one lit r T)"

definition settled_tables :: "(string \<Rightarrow> string) \<Rightarrow> Battle \<Rightarrow> BattlePlayerResult list \<Rightarrow> tables \<Rightarrow> tables" where
  "settled_tables lit battle rs T =
     exec_stmt lit (UpdateBattleSettled (bt_battle_id battle) (bt_winner_id battle)) (settle_all lit rs T)"

definition settled_same :: "Battle \<Rightarrow> BattlePlayerResult list \<Rightarrow> tables \<Rightarrow> bool" where
  "settled_same battle rs T \<longleftrightarrow>
     (\<exists>b. um_find (tb_battle T) (bt_battle_id battle) = Some b \<and> br_settled b = 1 \<and>
          br_room_id b = bt_room_id battle \<and> br_winner_id b = bt_winner_id battle) \<and>
     battle_results (bt_battle_id battle) T = map (\<lambda>r. (bpr_player_id r, bpr_result r, bpr_score_delta r)) rs"

definition unsettled :: "Battle \<Rightarrow> tables \<Rightarrow> bool" where
  "unsettled battle T \<longleftrightarrow>
     (\<exists>b. um_find (tb_battle T) (bt_battle_id battle) = Some b \<and> br_settled b \<noteq> 1 \<and>
          br_room_id b = bt_room_id battle)"

lemma InsertResult_tx:
  assumes d: "innodb api v lit" and t: "tx_at v C T m"
    and e: "BattleRepository_InsertBattlePlayerResult api True r m = (b, m')"
  shows "in_tx v C m'"
    and "b \<Longrightarrow> tx_at v C (T\<lparr>tb_result := um_put (bpr_battle_id r, bpr_player_id r)
                            (bpr_result r, bpr_score_delta r) (tb_result T)\<rparr>) m' \<and>
               \<not> um_has (tb_result T) (bpr_battle_id r, bpr_player_id r)"
proof -
  obtain s m1 where s: "MysqlClient_EscapeString api (bpr_result r) m = (s, m1)" by fastforce
  have m1: "m1 = m" "lit s = bpr_result r" using Escape_tx [OF d tx_at_in_tx [OF t] s] by simp_all
  let ?st = "InsertResult (bpr_battle_id r) (bpr_player_id r) s (bpr_score_delta r)"
  obtain n m2 where n: "MysqlClient_ExecuteAffected api ?st m = (n, m2)" by fastforce
  have r: "b = (n > 0)" "m' = m2"
    using e s n m1 by (simp_all add: BattleRepository_InsertBattlePlayerResult_def)
  note x = ExecuteAffected_tx [OF d t _ n, simplified]
  show "in_tx v C m'" using x(1) r by simp
  show "tx_at v C (T\<lparr>tb_result := um_put (bpr_battle_id r, bpr_player_id r)
                            (bpr_result r, bpr_score_delta r) (tb_result T)\<rparr>) m' \<and>
               \<not> um_has (tb_result T) (bpr_battle_id r, bpr_player_id r)" if b
    using that x(2) r m1(2) by simp
qed

lemma InsertLog_tx:
  assumes d: "innodb api v lit" and t: "tx_at v C T m"
    and e: "BattleRepository_InsertSettlementLog api True slog m = (b, m')"
  shows "in_tx v C m'"
    and "b \<Longrightarrow> tx_at v C (exec_stmt lit (InsertLog (sl_settlement_id slog) (sl_battle_id slog) (sl_player_id slog)
                 (sl_score_delta slog)) T) m'"
proof -
  let ?st = "InsertLog (sl_settlement_id slog) (sl_battle_id slog) (sl_player_id slog) (sl_score_delta slog)"
  obtain n m2 where n: "MysqlClient_ExecuteAffected api ?st m = (n, m2)" by fastforce
  have r: "b = (n > 0)" "m' = m2"
    using e n by (simp_all add: BattleRepository_InsertSettlementLog_def)
  have ne: "?st \<noteq> StartTransaction" by simp
  note x = ExecuteAffected_tx [OF d t ne n]
  show "in_tx v C m'" using x(1) r by simp
  show "b \<Longrightarrow> tx_at v C (exec_stmt lit ?st T) m'" using x(2) r by simp
qed

lemma settle_players_tx:
  assumes d: "innodb api v lit" and "tx_at v C T m" and "\<forall>r\<in>set rs. bpr_battle_id r = bt_battle_id battle"
    and "settle_players api battle rs m = (b, m')"
  shows "in_tx v C m' \<and> (b \<longrightarrow> tx_at v C (settle_all lit rs T) m')"
  using assms(2-)
proof (induction rs arbitrary: T m)
  case Nil
  then show ?case by simp
next
  case (Cons r rs)
  let ?slog = "\<lparr>sl_settlement_id = 0, sl_battle_id = bt_battle_id battle, sl_player_id = bpr_player_id r,
                 sl_score_delta = bpr_score_delta r\<rparr>"
  obtain b1 m1 where 1: "BattleRepository_InsertBattlePlayerResult api True r m = (b1, m1)" by fastforce
  obtain b2 m2 where 2: "BattleRepository_InsertSettlementLog api True ?slog m1 = (b2, m2)" by fastforce
  obtain b3 m3 where 3: "PlayerRepository_UpdatePlayerScore api True (bpr_player_id r) (bpr_score_delta r) m2 = (b3, m3)"
    by fastforce
  have eq: "(b, m') = (if \<not> b1 then (False, m1) else if \<not> b2 then (False, m2) else if \<not> b3 then (False, m3)
      else settle_players api battle rs m3)"
    using Cons.prems(3) 1 2 3 by (auto simp: Let_def)
  have bid: "bpr_battle_id r = bt_battle_id battle" using Cons.prems(2) by simp
  note s1 = InsertResult_tx [OF d Cons.prems(1) 1]
  show ?case
  proof (cases "b1 \<and> b2 \<and> b3")
    case True
    note s2 = InsertLog_tx [OF d conjunct1 [OF s1(2)] 2]
    have t3: "tx_at v C (settle_one lit r T) m3"
      using UpdatePlayerScore_tx(2) [OF d s2(2) 3] True bid by (simp add: settle_one_def)
    show ?thesis using Cons.IH [OF t3] Cons.prems(2) eq True by simp
  next
    case False
    have "b1 \<Longrightarrow> in_tx v C m2" using InsertLog_tx(1) [OF d conjunct1 [OF s1(2)] 2] by simp
    moreover have "b1 \<Longrightarrow> b2 \<Longrightarrow> in_tx v C m3"
      using UpdatePlayerScore_tx(1) [OF d InsertLog_tx(2) [OF d conjunct1 [OF s1(2)] 2] 3] by simp
    ultimately show ?thesis using s1(1) eq False by (auto split: if_splits)
  qed
qed

definition result_row :: "i64 \<times> string \<times> i32 \<Rightarrow> raw_row" where
  "result_row x = (case x of (p, r, d) \<Rightarrow>
     [col ''player_id'' (to_string p), col ''result'' r, col ''score_delta'' (to_string d)])"

definition result_key :: "BattlePlayerResult \<Rightarrow> i64 \<times> string \<times> i32" where
  "result_key r = (bpr_player_id r, bpr_result r, bpr_score_delta r)"

lemma result_row_find:
  "um_find (row_item (result_row (p, r, d))) ''player_id'' = Some (to_string p)"
  "um_find (row_item (result_row (p, r, d))) ''result'' = Some r"
  "um_find (row_item (result_row (p, r, d))) ''score_delta'' = Some (to_string d)"
  by (simp_all add: result_row_def row_item_def col_def)

lemma saved_match_rows:
  assumes "length xs = length rs"
  shows "saved_match (map (\<lambda>x. row_item (result_row x)) xs) rs = Inr True \<Longrightarrow> xs = map result_key rs"
  using assms
proof (induction xs rs rule: list_induct2)
  case Nil
  then show ?case by simp
next
  case (Cons x xs r rs)
  then show ?case
    by (cases x) (auto simp: result_row_find result_key_def split: if_splits)
qed

lemma to_string_1: "to_string i = ''1'' \<longleftrightarrow> i = 1"
proof
  have "to_string 1 = ''1''" by code_simp
  then show "to_string i = ''1'' \<Longrightarrow> i = 1" and "i = 1 \<Longrightarrow> to_string i = ''1''" using inj_to_string by auto
qed

lemma battle_row_find:
  defines "row b \<equiv> row_item [col ''room_id'' (to_string (br_room_id b)), col ''winner_id'' (to_string (br_winner_id b)),
                    col ''settled'' (to_string (br_settled b))]"
  shows "um_find (row b) ''room_id'' = Some (to_string (br_room_id b))"
    "um_find (row b) ''winner_id'' = Some (to_string (br_winner_id b))"
    "um_find (row b) ''settled'' = Some (to_string (br_settled b))"
  by (simp_all add: row_def row_item_def col_def)

lemma resettle_tx:
  assumes d: "innodb api v lit" and t: "tx_at v C T m" and rs: "rs \<noteq> []"
    and w: "um_find row ''winner_id'' = Some (to_string w)"
    and e: "resettle api battle rs row m = (r, m')"
  shows "in_tx v C m'"
    and "r = Inr True \<Longrightarrow> tx_at v C T m' \<and> w = bt_winner_id battle \<and>
               battle_results (bt_battle_id battle) T = map result_key rs"
proof -
  obtain saved m1 where q: "MysqlClient_Query api (SelectResultsForUpdate (bt_battle_id battle)) m = (saved, m1)"
    by fastforce
  note s = Query_tx [OF d t _ q, simplified]
  show "in_tx v C m'"
    using e q s(1) t by (auto simp: resettle_def Let_def split: sum.splits if_splits)
  show "tx_at v C T m' \<and> w = bt_winner_id battle \<and> battle_results (bt_battle_id battle) T = map result_key rs"
    if r: "r = Inr True"
  proof -
    have x: "m' = m1" "length saved = length rs" "saved_match saved rs = Inr True" "w = bt_winner_id battle"
      using e q r w by (auto simp: resettle_def Let_def split: sum.splits if_splits)
    then have "saved \<noteq> []" using rs by auto
    then have t1: "tx_at v C T m1" and sv: "saved = map (\<lambda>x. row_item (result_row x)) (battle_results (bt_battle_id battle) T)"
      using s(2) by (simp_all add: result_row_def o_def split_beta)
    moreover have "battle_results (bt_battle_id battle) T = map result_key rs"
      using saved_match_rows [of "battle_results (bt_battle_id battle) T" rs] x sv by simp
    ultimately show ?thesis using x by simp
  qed
qed

lemma first_settle_tx:
  assumes d: "innodb api v lit" and t: "tx_at v C T m" and rs: "\<forall>r\<in>set rs. bpr_battle_id r = bt_battle_id battle"
    and e: "first_settle api battle rs m = (r, m')"
  shows "in_tx v C m'" and "r = Inr True \<Longrightarrow> tx_at v C (settled_tables lit battle rs T) m'"
proof -
  obtain ok m1 where p: "settle_players api battle rs m = (ok, m1)" by fastforce
  obtain n m2 where n: "MysqlClient_ExecuteAffected api
      (UpdateBattleSettled (bt_battle_id battle) (bt_winner_id battle)) m1 = (n, m2)" by fastforce
  note s = settle_players_tx [OF d t rs p]
  have eq: "(r, m') = (if \<not> ok then (Inr False, m1) else (Inr (n = 1), m2))"
    using e p n by (auto simp: first_settle_def Let_def split: if_splits)
  note u = ExecuteAffected_tx [OF d _ _ n]
  show "in_tx v C m'" using eq s u by (auto split: if_splits)
  show "r = Inr True \<Longrightarrow> tx_at v C (settled_tables lit battle rs T) m'"
    using eq s u(2) by (auto simp: settled_tables_def split: if_splits)
qed

lemma settlement_callback_ok:
  assumes d: "innodb api v lit" and rs: "\<forall>r\<in>set rs. bpr_battle_id r = bt_battle_id battle" "rs \<noteq> []"
  shows "callback_ok v C (\<lambda>T. settled_same battle rs C \<and> T = C \<or>
           unsettled battle C \<and> T = settled_tables lit battle rs C) (settlement_callback api battle rs)"
  unfolding callback_ok_def
proof (intro allI impI)
  fix m r m'
  assume t: "tx_at v C C m" and cb: "settlement_callback api battle rs m = (r, m')"
  obtain rows m1 where q: "MysqlClient_Query api (SelectBattleForUpdate (bt_battle_id battle)) m = (rows, m1)" by fastforce
  note s = Query_tx [OF d t _ q]
  show "in_tx v C m' \<and> (r = Inr True \<longrightarrow> (\<exists>T. (settled_same battle rs C \<and> T = C \<or>
           unsettled battle C \<and> T = settled_tables lit battle rs C) \<and> tx_at v C T m'))"
  proof (cases "length rows = 1")
    case False
    then show ?thesis using cb q s(1) by (auto simp: settlement_callback_def)
  next
    case True
    then have ne: "rows \<noteq> []" by auto
    then have t1: "tx_at v C C m1" using s(2) by simp
    obtain b where b: "um_find (tb_battle C) (bt_battle_id battle) = Some b"
        "hd rows = row_item [col ''room_id'' (to_string (br_room_id b)), col ''winner_id'' (to_string (br_winner_id b)),
                    col ''settled'' (to_string (br_settled b))]"
      using s(2) ne by (auto split: option.splits)
    note f = battle_row_find [of b, folded b(2)]
    show ?thesis
    proof (cases "in_i64 (br_room_id b) \<and> br_room_id b = bt_room_id battle")
      case False
      have sl: "in_i64 x \<or> (\<exists>e. stoll (to_string x) = Inl e)" for x by (auto simp: stoll_def)
      show ?thesis
        using cb q True f False t1 sl [of "br_room_id b"]
        by (auto simp: settlement_callback_def row_at_def)
    next
      case room: True
      show ?thesis
      proof (cases "br_settled b = 1")
        case set1: True
        then have "resettle api battle rs (hd rows) m1 = (r, m')"
          using cb q True f conjunct1 [OF room] conjunct2 [OF room]
          by (simp add: settlement_callback_def row_at_def to_string_1)
        note x = resettle_tx [OF d t1 rs(2) f(2) this]
        show ?thesis
          using x b(1) room set1 by (auto simp: settled_same_def result_key_def [abs_def])
      next
        case set0: False
        then have "first_settle api battle rs m1 = (r, m')"
          using cb q True f conjunct1 [OF room] conjunct2 [OF room]
          by (simp add: settlement_callback_def row_at_def to_string_1)
        note x = first_settle_tx [OF d t1 rs(1) this]
        show ?thesis using x b(1) room set0 by (auto simp: unsettled_def)
      qed
    qed
  qed
qed

lemma check_results_Cons:
  assumes "check_results battle (r # rs) n p = Some k"
  shows "bpr_battle_id r = bt_battle_id battle" and "p < bpr_player_id r"
    and "bpr_result r = (if bpr_player_id r = bt_winner_id battle then ''WIN'' else ''LOSE'')"
    and "bpr_score_delta r = (if bpr_player_id r = bt_winner_id battle then 20 else - 10)"
    and "check_results battle rs (n + (if bpr_player_id r = bt_winner_id battle then 1 else 0)) (bpr_player_id r) = Some k"
proof -
  let ?bad = "bpr_battle_id r \<noteq> bt_battle_id battle \<or> bpr_player_id r \<le> p \<or>
            bpr_result r \<noteq> (if bpr_player_id r = bt_winner_id battle then ''WIN'' else ''LOSE'') \<or>
            bpr_score_delta r \<noteq> (if bpr_player_id r = bt_winner_id battle then 20 else - 10)"
  have x: "(if ?bad then None else check_results battle rs
      (n + (if bpr_player_id r = bt_winner_id battle then 1 else 0)) (bpr_player_id r)) = Some k"
    using assms unfolding check_results.simps Let_def .
  then have ok: "\<not> ?bad" by (metis option.distinct(1))
  from ok show "bpr_battle_id r = bt_battle_id battle" by blast
  from ok show "p < bpr_player_id r" by linarith
  from ok show "bpr_result r = (if bpr_player_id r = bt_winner_id battle then ''WIN'' else ''LOSE'')" by blast
  from ok show "bpr_score_delta r = (if bpr_player_id r = bt_winner_id battle then 20 else - 10)" by blast
  from x ok show "check_results battle rs (n + (if bpr_player_id r = bt_winner_id battle then 1 else 0)) (bpr_player_id r) = Some k"
    by (simp only: if_not_P not_False_eq_True)
qed

lemma check_results_battle:
  "check_results battle rs n p = Some k \<Longrightarrow> \<forall>r\<in>set rs. bpr_battle_id r = bt_battle_id battle"
proof (induction rs arbitrary: n p)
  case (Cons r rs)
  from Cons.IH [OF check_results_Cons(5) [OF Cons.prems]] check_results_Cons(1) [OF Cons.prems] show ?case by simp
qed simp

lemma ApplySettlement_atomic:
  assumes d: "innodb api v lit" and i: "idle v C m"
    and e: "BattleRepository_ApplySettlement api has_db battle results m = (r, m')"
  defines "rs \<equiv> sort_key bpr_player_id results"
  shows "r \<noteq> Inr True \<and> idle v C m' \<or> settled_same battle rs C \<and> idle v C m' \<or>
         unsettled battle C \<and> check_results battle rs 0 0 = Some 1 \<and> idle v (settled_tables lit battle rs C) m'"
proof (cases "\<not> has_db \<or> bt_battle_id battle \<le> 0 \<or> bt_room_id battle \<le> 0 \<or> bt_winner_id battle \<le> 0 \<or> results = [] \<or>
    check_results battle rs 0 0 \<noteq> Some 1")
  case True
  then show ?thesis
    using e i by (auto simp: BattleRepository_ApplySettlement_def rs_def Let_def split: if_splits option.splits)
next
  case False
  then have run: "MysqlClient_RunTransaction api (Some (settlement_callback api battle rs)) m = (r, m')"
    using e by (simp add: BattleRepository_ApplySettlement_def rs_def)
  have "rs \<noteq> []" using False by (metis length_0_conv length_sort rs_def)
  then have "callback_ok v C (\<lambda>T. settled_same battle rs C \<and> T = C \<or>
           unsettled battle C \<and> T = settled_tables lit battle rs C) (settlement_callback api battle rs)"
    using settlement_callback_ok [OF d] check_results_battle False by blast
  from RunTransaction_atomic [OF d i this run] False show ?thesis by blast
qed

subsection \<open>What a settlement changes\<close>

definition score_of :: "tables \<Rightarrow> i64 \<Rightarrow> i32" where
  "score_of T p = (case um_find (tb_player T) p of None \<Rightarrow> 1000 | Some x \<Rightarrow> pd_score x)"

definition wins_of :: "tables \<Rightarrow> i64 \<Rightarrow> i32" where
  "wins_of T p = (case um_find (tb_player T) p of None \<Rightarrow> 0 | Some x \<Rightarrow> pd_win_count x)"

definition losses_of :: "tables \<Rightarrow> i64 \<Rightarrow> i32" where
  "losses_of T p = (case um_find (tb_player T) p of None \<Rightarrow> 0 | Some x \<Rightarrow> pd_lose_count x)"

lemma settle_one_player:
  "score_of (settle_one lit r T) p = score_of T p + (if p = bpr_player_id r then bpr_score_delta r else 0)"
  "wins_of (settle_one lit r T) p = wins_of T p + (if p = bpr_player_id r \<and> bpr_score_delta r > 0 then 1 else 0)"
  "losses_of (settle_one lit r T) p = losses_of T p + (if p = bpr_player_id r \<and> bpr_score_delta r < 0 then 1 else 0)"
  by (auto simp: settle_one_def score_stmt_def score_of_def wins_of_def losses_of_def Let_def split: option.splits)

lemma settle_one_frame [simp]:
  "tb_battle (settle_one lit r T) = tb_battle T"
  "tb_result (settle_one lit r T) =
     um_put (bpr_battle_id r, bpr_player_id r) (bpr_result r, bpr_score_delta r) (tb_result T)"
  by (simp_all add: settle_one_def score_stmt_def Let_def)

lemma settle_all_battle [simp]: "tb_battle (settle_all lit rs T) = tb_battle T"
  by (induction rs arbitrary: T) simp_all

text \<open>The change of one player's columns over a list of results.\<close>

lemma settle_all_player:
  "score_of (settle_all lit rs T) p = score_of T p + (\<Sum>r\<leftarrow>rs. if p = bpr_player_id r then bpr_score_delta r else 0)"
  "wins_of (settle_all lit rs T) p =
     wins_of T p + (\<Sum>r\<leftarrow>rs. if p = bpr_player_id r \<and> bpr_score_delta r > 0 then 1 else 0)"
  "losses_of (settle_all lit rs T) p =
     losses_of T p + (\<Sum>r\<leftarrow>rs. if p = bpr_player_id r \<and> bpr_score_delta r < 0 then 1 else 0)"
  by (induction rs arbitrary: T) (simp_all add: settle_one_player)

lemma check_results_sorted:
  "check_results battle rs n p = Some k \<Longrightarrow> sorted_wrt (<) (p # map bpr_player_id rs)"
proof (induction rs arbitrary: n p)
  case (Cons r rs)
  from Cons.IH [OF check_results_Cons(5) [OF Cons.prems]] check_results_Cons(2) [OF Cons.prems] show ?case
    by fastforce
qed simp

lemma check_results_entry:
  "check_results battle rs n p = Some k \<Longrightarrow> r \<in> set rs \<Longrightarrow>
     bpr_result r = (if bpr_player_id r = bt_winner_id battle then ''WIN'' else ''LOSE'') \<and>
     bpr_score_delta r = (if bpr_player_id r = bt_winner_id battle then 20 else - 10)"
proof (induction rs arbitrary: n p)
  case (Cons x rs)
  note c = check_results_Cons [OF Cons.prems(1)]
  show ?case using c(3,4) Cons.IH [OF c(5)] Cons.prems(2) by (cases "r = x") simp_all
qed simp

lemma sum_list_none: "\<forall>x\<in>set rs. f x \<noteq> p \<Longrightarrow> (\<Sum>x\<leftarrow>rs. if p = f x \<and> P x then g x else 0) = (0::int)"
  by (induction rs) auto

lemma sum_list_single:
  assumes "distinct (map f rs)" and "r \<in> set rs"
  shows "(\<Sum>x\<leftarrow>rs. if f r = f x \<and> P x then g x else 0) = (if P r then g r else (0::int))"
  using assms
proof (induction rs)
  case (Cons y ys)
  show ?case
  proof (cases "f r = f y")
    case True
    then have "r = y" using Cons.prems by (auto simp: image_iff)
    moreover have "(\<Sum>x\<leftarrow>ys. if f r = f x \<and> P x then g x else 0) = 0"
      using Cons.prems True by (intro sum_list_none) (auto simp: image_iff)
    ultimately show ?thesis by simp
  next
    case False
    then show ?thesis using Cons by auto
  qed
qed simp

text \<open>One accepted settlement: the winner gains 20 points and a win, everyone else in the list loses
  10 points and gets a loss, nobody else changes, and the battle is marked.\<close>

definition settlement_effect :: "Battle \<Rightarrow> i64 set \<Rightarrow> tables \<Rightarrow> tables \<Rightarrow> bool" where
  "settlement_effect battle ps C T \<longleftrightarrow>
     (\<forall>p. score_of T p = score_of C p + (if p \<notin> ps then 0 else if p = bt_winner_id battle then 20 else - 10) \<and>
          wins_of T p = wins_of C p + (if p \<in> ps \<and> p = bt_winner_id battle then 1 else 0) \<and>
          losses_of T p = losses_of C p + (if p \<in> ps \<and> p \<noteq> bt_winner_id battle then 1 else 0)) \<and>
     (\<exists>b. um_find (tb_battle T) (bt_battle_id battle) = Some b \<and> br_settled b = 1 \<and> br_winner_id b = bt_winner_id battle)"

lemma settled_tables_effect:
  assumes c: "check_results battle rs 0 0 = Some k" and u: "unsettled battle C"
  shows "settlement_effect battle (bpr_player_id ` set rs) C (settled_tables lit battle rs C)"
proof -
  let ?T = "settled_tables lit battle rs C"
  have same: "score_of ?T = score_of (settle_all lit rs C)" "wins_of ?T = wins_of (settle_all lit rs C)"
      "losses_of ?T = losses_of (settle_all lit rs C)"
    by (auto simp: settled_tables_def score_of_def wins_of_def losses_of_def)
  have dist: "distinct (map bpr_player_id rs)"
    using check_results_sorted [OF c] by (auto simp: strict_sorted_iff)
  have "score_of ?T p = score_of C p + (if p \<notin> bpr_player_id ` set rs then 0 else if p = bt_winner_id battle then 20 else - 10) \<and>
          wins_of ?T p = wins_of C p + (if p \<in> bpr_player_id ` set rs \<and> p = bt_winner_id battle then 1 else 0) \<and>
          losses_of ?T p = losses_of C p + (if p \<in> bpr_player_id ` set rs \<and> p \<noteq> bt_winner_id battle then 1 else 0)" for p
  proof (cases "p \<in> bpr_player_id ` set rs")
    case True
    then obtain r where r: "r \<in> set rs" "p = bpr_player_id r" by blast
    then show ?thesis
      using sum_list_single [OF dist r(1), of "\<lambda>_. True" bpr_score_delta]
        sum_list_single [OF dist r(1), of "\<lambda>x. bpr_score_delta x > 0" "\<lambda>_. 1"]
        sum_list_single [OF dist r(1), of "\<lambda>x. bpr_score_delta x < 0" "\<lambda>_. 1"]
        conjunct2 [OF check_results_entry [OF c r(1)]]
      by (simp add: same settle_all_player)
  next
    case False
    then have "\<forall>r\<in>set rs. bpr_player_id r \<noteq> p" by auto
    from sum_list_none [OF this, of "\<lambda>_. True" bpr_score_delta]
      sum_list_none [OF this, of "\<lambda>x. bpr_score_delta x > 0" "\<lambda>_. 1"]
      sum_list_none [OF this, of "\<lambda>x. bpr_score_delta x < 0" "\<lambda>_. 1"]
    show ?thesis using False by (simp add: same settle_all_player)
  qed
  moreover have "\<exists>b. um_find (tb_battle ?T) (bt_battle_id battle) = Some b \<and> br_settled b = 1 \<and> br_winner_id b = bt_winner_id battle"
    using u by (auto simp: unsettled_def settled_tables_def)
  ultimately show ?thesis by (simp add: settlement_effect_def)
qed

lemma settle_all_results:
  assumes "distinct (map bpr_player_id rs)" and "\<forall>r\<in>set rs. bpr_battle_id r = bid"
    and "\<forall>r\<in>set rs. (bid, bpr_player_id r) \<notin> fst ` set (tb_result T)"
  shows "tb_result (settle_all lit rs T) =
     tb_result T @ map (\<lambda>r. ((bid, bpr_player_id r), (bpr_result r, bpr_score_delta r))) rs"
  using assms
proof (induction rs arbitrary: T)
  case (Cons r rs)
  have one: "tb_result (settle_one lit r T) = tb_result T @ [((bid, bpr_player_id r), (bpr_result r, bpr_score_delta r))]"
    using Cons.prems by (simp add: um_put_fresh)
  have fresh: "\<forall>x\<in>set rs. (bid, bpr_player_id x) \<notin> fst ` set (tb_result (settle_one lit r T))"
  proof
    fix x assume x: "x \<in> set rs"
    then have "bpr_player_id x \<noteq> bpr_player_id r" using Cons.prems(1) by (metis distinct.simps(2) image_eqI list.map(2) list.set_map)
    moreover have "(bid, bpr_player_id x) \<notin> fst ` set (tb_result T)" using Cons.prems(3) x by simp
    ultimately show "(bid, bpr_player_id x) \<notin> fst ` set (tb_result (settle_one lit r T))"
      unfolding one by simp
  qed
  have "tb_result (settle_all lit rs (settle_one lit r T)) =
      tb_result (settle_one lit r T) @ map (\<lambda>r. ((bid, bpr_player_id r), (bpr_result r, bpr_score_delta r))) rs"
    using Cons.prems(1,2) fresh by (intro Cons.IH) simp_all
  then show ?case by (simp add: one del: settle_one_frame)
qed simp

lemma settled_tables_same:
  assumes c: "check_results battle rs 0 0 = Some k" and u: "unsettled battle C"
    and orphans: "battle_results (bt_battle_id battle) C = []"
  shows "settled_same battle rs (settled_tables lit battle rs C)"
proof -
  let ?T = "settled_tables lit battle rs C" and ?bid = "bt_battle_id battle"
  have dist: "distinct (map bpr_player_id rs)" and srt: "sorted (map bpr_player_id rs)"
    using check_results_sorted [OF c] by (auto simp: strict_sorted_iff)
  have none: "filter (\<lambda>((b, p), r). b = ?bid) (tb_result C) = []"
    using orphans unfolding battle_results_def by (metis (no_types, lifting) Nil_is_map_conv length_0_conv length_sort)
  then have fresh: "(?bid, p) \<notin> fst ` set (tb_result C)" for p by (auto simp: filter_empty_conv)
  have "tb_result ?T = tb_result C @ map (\<lambda>r. ((?bid, bpr_player_id r), (bpr_result r, bpr_score_delta r))) rs"
    using settle_all_results [OF dist check_results_battle [OF c], of C lit] fresh by (simp add: settled_tables_def)
  then have "battle_results ?bid ?T = sort_key fst (map result_key rs)"
    using none by (simp add: battle_results_def filter_map o_def result_key_def [abs_def])
  also have "\<dots> = map result_key rs"
    using srt by (intro sort_key_id_if_sorted) (simp add: o_def result_key_def)
  finally show ?thesis
    using u by (auto simp: settled_same_def unsettled_def settled_tables_def result_key_def [abs_def])
qed

end
