(* ===== verification/Redis_Client.thy ===== *)
theory Redis_Client
  imports Config_Manager
begin

text \<open>
  The Redis client: \<open>src/src/storage/redis_client.h\<close> and \<open>redis_client.cpp\<close>.  hiredis and the Redis
  server are the parameter \<open>api\<close>, functions on an arbitrary state \<open>'r\<close> of the outside world; what the
  code relies on is the predicate \<open>redis_laws\<close> about the sorted sets.
\<close>

datatype redis_cmd =
    ZADD string i32 string
  | ZREVRANGE_WITHSCORES string i32 i32
  | SET string string
  | GET string

datatype reply_type = REDIS_REPLY_STRING | REDIS_REPLY_ARRAY | REDIS_REPLY_INTEGER | REDIS_REPLY_NIL
  | REDIS_REPLY_STATUS | REDIS_REPLY_ERROR

text \<open>A reply: its type, its string if it has one, and the elements of an array, which may be null.\<close>

datatype redis_reply = Reply (reply_kind: reply_type) (reply_str: "string option") (reply_elements: "redis_reply option list")

datatype redis_context = NullContext | ErrorContext | ReadyContext

record 'r hiredis =
  redisConnect :: "string \<Rightarrow> i32 \<Rightarrow> 'r \<Rightarrow> redis_context \<times> 'r"
  redisFree :: "'r \<Rightarrow> 'r"
  redisCommand :: "redis_cmd \<Rightarrow> 'r \<Rightarrow> redis_reply option \<times> 'r"

record 'r redis =
  rd_context :: bool  \<comment> \<open>\<open>context_ != nullptr\<close>\<close>
  rd_cfg :: RedisConfig  \<comment> \<open>\<open>ConfigManager::Instance().Redis()\<close>\<close>
  rd_world :: 'r

definition NUL :: char where "NUL = CHR 0x00"

text \<open>What \<open>c_str()\<close> passes to a \<open>%s\<close>: the string up to its first NUL.\<close>

definition c_str :: "string \<Rightarrow> string" where
  "c_str s = takeWhile (\<lambda>c. c \<noteq> NUL) s"

definition atoi :: "string \<Rightarrow> i32" where
  "atoi s = wrap32 (strtoll s)"

definition RedisClient_Disconnect :: "'r hiredis \<Rightarrow> 'r redis \<Rightarrow> 'r redis" where
  "RedisClient_Disconnect api r =
     (if rd_context r then r\<lparr>rd_context := False, rd_world := redisFree api (rd_world r)\<rparr> else r)"

definition RedisClient_Connect :: "'r hiredis \<Rightarrow> 'r redis \<Rightarrow> bool \<times> 'r redis" where
  "RedisClient_Connect api r =
     (let r1 = RedisClient_Disconnect api r;
          (ctx, w) = redisConnect api (redis_host (rd_cfg r1)) (redis_port (rd_cfg r1)) (rd_world r1);
          r2 = r1\<lparr>rd_context := (ctx \<noteq> NullContext), rd_world := w\<rparr>
      in if ctx \<noteq> ReadyContext then (False, RedisClient_Disconnect api r2) else (True, r2))"

definition has_context :: "'r hiredis \<Rightarrow> 'r redis \<Rightarrow> bool \<times> 'r redis" where
  "has_context api r = (if rd_context r then (True, r) else RedisClient_Connect api r)"

definition RedisClient_ZAdd :: "'r hiredis \<Rightarrow> string \<Rightarrow> i32 \<Rightarrow> string \<Rightarrow> 'r redis \<Rightarrow> bool \<times> 'r redis" where
  "RedisClient_ZAdd api key score member r =
     (let (c, r1) = has_context api r
      in if \<not> c then (False, r1)
         else
           let (reply, w) = redisCommand api (ZADD (c_str key) score (c_str member)) (rd_world r1);
               r2 = r1\<lparr>rd_world := w\<rparr>
           in case reply of
                None \<Rightarrow> (False, RedisClient_Disconnect api r2)
              | Some rep \<Rightarrow> (reply_kind rep \<noteq> REDIS_REPLY_ERROR, r2))"

text \<open>The loop over pairs of elements; an odd last element is not looked at.\<close>

fun score_pairs :: "redis_reply option list \<Rightarrow> (string \<times> i32) list" where
  "score_pairs (member # score # rest) =
     (case (member, score) of
        (Some m, Some s) \<Rightarrow>
          (case (reply_str m, reply_str s) of
             (Some mstr, Some sstr) \<Rightarrow> (mstr, atoi sstr) # score_pairs rest
           | _ \<Rightarrow> score_pairs rest)
      | _ \<Rightarrow> score_pairs rest)"
| "score_pairs _ = []"

definition RedisClient_ZRevRange :: "'r hiredis \<Rightarrow> string \<Rightarrow> i32 \<Rightarrow> i32 \<Rightarrow> 'r redis \<Rightarrow> (string \<times> i32) list \<times> 'r redis" where
  "RedisClient_ZRevRange api key start stop r =
     (let (c, r1) = has_context api r
      in if \<not> c then ([], r1)
         else
           let (reply, w) = redisCommand api (ZREVRANGE_WITHSCORES (c_str key) start stop) (rd_world r1);
               r2 = r1\<lparr>rd_world := w\<rparr>
           in case reply of
                None \<Rightarrow> ([], RedisClient_Disconnect api r2)
              | Some rep \<Rightarrow> if reply_kind rep \<noteq> REDIS_REPLY_ARRAY then ([], r2) else (score_pairs (reply_elements rep), r2))"

definition RedisClient_Set :: "'r hiredis \<Rightarrow> string \<Rightarrow> string \<Rightarrow> 'r redis \<Rightarrow> bool \<times> 'r redis" where
  "RedisClient_Set api key value r =
     (let (c, r1) = has_context api r
      in if \<not> c then (False, r1)
         else
           let (reply, w) = redisCommand api (SET (c_str key) (c_str value)) (rd_world r1);
               r2 = r1\<lparr>rd_world := w\<rparr>
           in case reply of
                None \<Rightarrow> (False, RedisClient_Disconnect api r2)
              | Some rep \<Rightarrow> (reply_kind rep \<noteq> REDIS_REPLY_ERROR, r2))"

definition RedisClient_Get :: "'r hiredis \<Rightarrow> string \<Rightarrow> 'r redis \<Rightarrow> string \<times> 'r redis" where
  "RedisClient_Get api key r =
     (let (c, r1) = has_context api r
      in if \<not> c then ([], r1)
         else
           let (reply, w) = redisCommand api (GET (c_str key)) (rd_world r1);
               r2 = r1\<lparr>rd_world := w\<rparr>
           in case reply of
                None \<Rightarrow> ([], RedisClient_Disconnect api r2)
              | Some rep \<Rightarrow>
                  ((if reply_kind rep = REDIS_REPLY_STRING
                    then (case reply_str rep of None \<Rightarrow> [] | Some s \<Rightarrow> s) else []), r2))"

subsection \<open>The behaviour of the Redis server\<close>

text \<open>\<open>zset w key\<close> is the sorted set under a key, listed from the highest score to the lowest as
  \<open>ZREVRANGE\<close> lists it.  An answered \<open>ZADD\<close> has set the score of its member; one that is not answered
  may have; connections change nothing.\<close>

type_synonym zset = "(string, i32) umap"

definition zset_ordered :: "zset \<Rightarrow> bool" where
  "zset_ordered z \<longleftrightarrow> um_wf z \<and> sorted_wrt (\<lambda>a b. snd a \<ge> snd b) z"

definition redis_laws :: "'r hiredis \<Rightarrow> ('r \<Rightarrow> string \<Rightarrow> zset) \<Rightarrow> bool" where
  "redis_laws api zset \<longleftrightarrow>
     (\<forall>h p w c w'. redisConnect api h p w = (c, w') \<longrightarrow> zset w' = zset w) \<and>
     (\<forall>w. zset (redisFree api w) = zset w) \<and>
     (\<forall>w key. zset_ordered (zset w key)) \<and>
     (\<forall>key score member w rep w' k. redisCommand api (ZADD key score member) w = (Some rep, w') \<longrightarrow>
        reply_kind rep \<noteq> REDIS_REPLY_ERROR \<longrightarrow>
        map_of (zset w' k) = (if k = key then (map_of (zset w k))(member \<mapsto> score) else map_of (zset w k))) \<and>
     (\<forall>key start stop w rep w'. redisCommand api (ZREVRANGE_WITHSCORES key start stop) w = (Some rep, w') \<longrightarrow>
        0 \<le> start \<longrightarrow> reply_kind rep = REDIS_REPLY_ARRAY \<longrightarrow>
        reply_elements rep =
          concat (map (\<lambda>(m, s). [Some (Reply REDIS_REPLY_STRING (Some m) []),
                                 Some (Reply REDIS_REPLY_STRING (Some (to_string s)) [])])
                    (take (nat (stop + 1 - start)) (drop (nat start) (zset w key)))))"

lemma redis_ZAdd:
  assumes l: "redis_laws api zset" and e: "RedisClient_ZAdd api key score member r = (True, r')"
  shows "map_of (zset (rd_world r') (c_str key)) = (map_of (zset (rd_world r) (c_str key)))(c_str member \<mapsto> score)"
proof -
  have con: "redisConnect api h p w = (c, w') \<Longrightarrow> zset w' = zset w" for h p w c w'
    using l by (auto simp: redis_laws_def)
  have fr: "zset (redisFree api w) = zset w" for w using l by (auto simp: redis_laws_def)
  have dis: "zset (rd_world (RedisClient_Disconnect api r)) = zset (rd_world r)" for r
    by (simp add: RedisClient_Disconnect_def fr)
  obtain c r1 where h: "has_context api r = (c, r1)" by fastforce
  have r1: "zset (rd_world r1) = zset (rd_world r)"
    using h con dis by (fastforce simp: has_context_def RedisClient_Connect_def Let_def split: if_splits prod.splits)
  obtain rep w where q: "redisCommand api (ZADD (c_str key) score (c_str member)) (rd_world r1) = (Some rep, w)"
      "reply_kind rep \<noteq> REDIS_REPLY_ERROR" "rd_world r' = w"
    using e h by (auto simp: RedisClient_ZAdd_def Let_def split: if_splits prod.splits option.splits)
  then show ?thesis using l r1 unfolding redis_laws_def by metis
qed

text \<open>A server that can always be reached and that accepts every \<open>ZADD\<close>.\<close>

definition redis_no_faults :: "'r hiredis \<Rightarrow> bool" where
  "redis_no_faults api \<longleftrightarrow>
     (\<forall>h p w. fst (redisConnect api h p w) = ReadyContext) \<and>
     (\<forall>key score member w. \<exists>rep. fst (redisCommand api (ZADD key score member) w) = Some rep \<and>
        reply_kind rep \<noteq> REDIS_REPLY_ERROR)"

lemma no_faults_ZAdd:
  assumes "redis_no_faults api"
  shows "fst (RedisClient_ZAdd api key score member r)"
proof -
  obtain c r1 where h: "has_context api r = (c, r1)" by fastforce
  have "c" using assms h by (auto simp: redis_no_faults_def has_context_def RedisClient_Connect_def Let_def
      split: if_splits prod.splits) (metis fst_conv)+
  moreover obtain rep w where "redisCommand api (ZADD (c_str key) score (c_str member)) (rd_world r1) = (Some rep, w)"
      "reply_kind rep \<noteq> REDIS_REPLY_ERROR"
    using assms unfolding redis_no_faults_def by (metis prod.collapse)
  ultimately show ?thesis using h by (simp add: RedisClient_ZAdd_def)
qed

subsection \<open>A Redis server\<close>

text \<open>An instance of the assumptions, used by the witnesses: it always answers.\<close>

definition sim_zset :: "(string \<Rightarrow> zset) \<Rightarrow> string \<Rightarrow> zset" where
  "sim_zset w key = rev (sort_key snd (AList.clearjunk (w key)))"

fun sim_command :: "redis_cmd \<Rightarrow> (string \<Rightarrow> zset) \<Rightarrow> redis_reply option \<times> (string \<Rightarrow> zset)" where
  "sim_command (ZADD key score member) w = (Some (Reply REDIS_REPLY_INTEGER None []), w(key := (member, score) # w key))"
| "sim_command (ZREVRANGE_WITHSCORES key start stop) w =
     (Some (Reply REDIS_REPLY_ARRAY None
        (concat (map (\<lambda>(m, s). [Some (Reply REDIS_REPLY_STRING (Some m) []),
                                 Some (Reply REDIS_REPLY_STRING (Some (to_string s)) [])])
                    (take (nat (stop + 1 - start)) (drop (nat start) (sim_zset w key)))))), w)"
| "sim_command _ w = (Some (Reply REDIS_REPLY_STATUS None []), w)"

definition sim_redis :: "(string \<Rightarrow> zset) hiredis" where
  "sim_redis = \<lparr>redisConnect = (\<lambda>h p w. (ReadyContext, w)), redisFree = (\<lambda>w. w), redisCommand = sim_command\<rparr>"

lemma sim_zset_map: "map_of (sim_zset w key) = map_of (w key)"
proof -
  have "distinct (map fst (sort_key snd (AList.clearjunk (w key))))"
    by (metis distinct_clearjunk distinct_map distinct_sort set_sort)
  then have "distinct (map fst (sim_zset w key))" by (simp add: sim_zset_def rev_map [symmetric])
  then have "map_of (sim_zset w key) = map_of (AList.clearjunk (w key))"
    by (intro map_of_eqI) (auto simp: sim_zset_def distinct_clearjunk)
  then show ?thesis by (simp add: map_of_clearjunk)
qed

lemma sim_redis_laws: "redis_laws sim_redis sim_zset"
proof -
  have "zset_ordered (sim_zset w key)" for w key
  proof -
    have "distinct (map fst (sort_key snd (AList.clearjunk (w key))))"
      by (metis distinct_clearjunk distinct_map distinct_sort set_sort)
    moreover have "sorted_wrt (\<lambda>a b. snd a \<le> snd b) (sort_key snd (AList.clearjunk (w key)))"
      using sorted_sort_key [of snd "AList.clearjunk (w key)"] by (simp add: sorted_map)
    ultimately show ?thesis
      by (simp add: zset_ordered_def sim_zset_def um_wf_def rev_map [symmetric] sorted_wrt_rev)
  qed
  then show ?thesis
    by (auto simp: redis_laws_def sim_redis_def sim_zset_map)
qed

lemma sim_redis_no_faults: "redis_no_faults sim_redis"
  by (simp add: redis_no_faults_def sim_redis_def)

end
