(* ===== verification/Rank_Service.thy ===== *)
theory Rank_Service
  imports Redis_Client Net
begin

text \<open>
  The leaderboard: \<open>src/src/rank/rank_service.h\<close> and \<open>rank_service.cpp\<close>.  The flag \<open>has_redis\<close> says that
  \<open>redis_\<close> is not null.  The sum \<open>offset + limit - 1\<close> is an \<open>int\<close> taken from a client's request:
  \<open>None\<close> is its signed overflow, which is undefined in C++.
\<close>

definition kRankScoreKey :: string where "kRankScoreKey = ''rank:score''"

definition RankService_Init :: "'r hiredis \<Rightarrow> bool \<Rightarrow> 'r redis \<Rightarrow> bool \<times> 'r redis" where
  "RankService_Init api has_redis r = (if \<not> has_redis then (True, r) else RedisClient_Connect api r)"

definition RankService_UpdateScore :: "'r hiredis \<Rightarrow> bool \<Rightarrow> i64 \<Rightarrow> i32 \<Rightarrow> 'r redis \<Rightarrow> bool \<times> 'r redis" where
  "RankService_UpdateScore api has_redis pid score r =
     (if \<not> has_redis then (False, r) else RedisClient_ZAdd api kRankScoreKey score (to_string pid) r)"

definition rank_entry :: "i32 \<Rightarrow> nat \<Rightarrow> string \<times> i32 \<Rightarrow> RankEntry" where
  "rank_entry offset i item =
     \<lparr>re_player_id = strtoll (c_str (fst item)), re_name = ''player_'' @ fst item, re_score = snd item,
      re_rank = offset + int i + 1\<rparr>"

definition RankService_GetTopN :: "'r hiredis \<Rightarrow> bool \<Rightarrow> i32 \<Rightarrow> i32 \<Rightarrow> 'r redis \<Rightarrow> (RankEntry list \<times> 'r redis) option" where
  "RankService_GetTopN api has_redis offset limit r =
     (if \<not> has_redis \<or> limit \<le> 0 then Some ([], r)
      else
        let offset' = (if offset < 0 then 0 else offset)
        in if \<not> in_i32 (offset' + limit) then None
           else
             let stop = offset' + limit - 1;
                 (items, r1) = RedisClient_ZRevRange api kRankScoreKey offset' stop r
             in Some (map (\<lambda>i. rank_entry offset' i (items ! i)) [0..<length items], r1))"

text \<open>\<open>request\<close> is the parsed request, \<open>None\<close> when it does not parse.\<close>

definition RankService_HandleRankRequest ::
    "'r hiredis \<Rightarrow> bool \<Rightarrow> sptr \<Rightarrow> (i32 \<times> i32) option \<Rightarrow> 'f net \<times> 'r redis \<Rightarrow> ('f net \<times> 'r redis) option" where
  "RankService_HandleRankRequest api has_redis s request nr =
     (case (request, nr) of
        (None, _) \<Rightarrow> Some nr
      | (Some (offset, limit), (n, r)) \<Rightarrow>
          (case RankService_GetTopN api has_redis offset limit r of
             None \<Rightarrow> None
           | Some (items, r') \<Rightarrow> Some (Session_Send s MSG_RANK_RESP (RankResponse items) n, r')))"

subsection \<open>Properties\<close>

lemma score_pairs_range:
  "score_pairs (concat (map (\<lambda>(m, s). [Some (Reply REDIS_REPLY_STRING (Some m) []),
     Some (Reply REDIS_REPLY_STRING (Some (to_string s)) [])]) xs)) = map (\<lambda>(m, s). (m, atoi (to_string s))) xs"
  by (induction xs) auto

lemma atoi_to_string: "in_i32 i \<Longrightarrow> atoi (to_string i) = i"
proof -
  assume "in_i32 i"
  then have "in_i64 i" by (simp add: in_i32_def in_i64_def)
  then show ?thesis using \<open>in_i32 i\<close> by (simp add: atoi_def)
qed

lemma c_str_to_string [simp]: "c_str (to_string i) = to_string i"
proof -
  have "c \<noteq> NUL" if "is_digit c" for c using that by (auto simp: is_digit_def NUL_def)
  then have "\<forall>c\<in>set (dec n). c \<noteq> NUL" for n using dec_digits [of n] by (auto simp: list_all_iff)
  then show ?thesis unfolding c_str_def to_string_def by (auto simp: takeWhile_eq_all_conv NUL_def)
qed

lemma c_str_kRankScoreKey [simp]: "c_str kRankScoreKey = kRankScoreKey"
  by (simp add: c_str_def kRankScoreKey_def NUL_def)

lemma UpdateScore_zset:
  assumes "redis_laws api zset" and "RankService_UpdateScore api has_redis pid score r = (True, r')"
  shows "map_of (zset (rd_world r') kRankScoreKey) = (map_of (zset (rd_world r) kRankScoreKey))(to_string pid \<mapsto> score)"
proof -
  have "RedisClient_ZAdd api kRankScoreKey score (to_string pid) r = (True, r')"
    using assms(2) by (simp add: RankService_UpdateScore_def split: if_splits)
  from redis_ZAdd [OF assms(1) this] show ?thesis by simp
qed

text \<open>The members of the leaderboard are player ids with 32-bit scores.\<close>

definition leaderboard :: "zset \<Rightarrow> (i64 \<times> i32) list \<Rightarrow> bool" where
  "leaderboard z xs \<longleftrightarrow> z = map (\<lambda>(p, s). (to_string p, s)) xs \<and> (\<forall>(p, s)\<in>set xs. in_i64 p \<and> in_i32 s)"

lemma leaderboard_entry: "leaderboard z xs \<Longrightarrow> i < length xs \<Longrightarrow> in_i64 (fst (xs ! i))"
  by (metis (no_types, lifting) case_prodD leaderboard_def nth_mem prod.collapse)

text \<open>What an answered query returns.\<close>

lemma page_items:
  assumes l: "redis_laws api zset" and lb: "leaderboard (zset w kRankScoreKey) xs"
    and q: "redisCommand api (ZREVRANGE_WITHSCORES kRankScoreKey first (first + limit - 1)) w = (Some rep, w')"
    and kind: "reply_kind rep = REDIS_REPLY_ARRAY" and "0 \<le> first"
  shows "score_pairs (reply_elements rep) = map (\<lambda>(p, s). (to_string p, s)) (take (nat limit) (drop (nat first) xs))"
proof -
  let ?ys = "take (nat limit) (drop (nat first) xs)"
  have "reply_elements rep = concat (map (\<lambda>(m, s). [Some (Reply REDIS_REPLY_STRING (Some m) []),
      Some (Reply REDIS_REPLY_STRING (Some (to_string s)) [])])
      (take (nat (first + limit - 1 + 1 - first)) (drop (nat first) (zset w kRankScoreKey))))"
    using l q kind assms(5) unfolding redis_laws_def by blast
  then have "score_pairs (reply_elements rep) =
      map (\<lambda>(m, s). (m, atoi (to_string s))) (map (\<lambda>(p, s). (to_string p, s)) ?ys)"
    using lb score_pairs_range [of "map (\<lambda>(p, s). (to_string p, s)) ?ys"]
    by (simp add: leaderboard_def take_map drop_map)
  also have "\<dots> = map (\<lambda>(p, s). (to_string p, s)) ?ys"
    using lb by (auto simp: leaderboard_def atoi_to_string dest!: in_set_takeD in_set_dropD)
  finally show ?thesis .
qed

text \<open>C30. A page of the leaderboard.  With a positive \<open>limit\<close> and a server that answers the query,
  \<open>GetTopN(offset, limit)\<close> returns exactly the entries at positions \<open>offset\<close> to \<open>offset + limit - 1\<close> of the
  sorted set (fewer at its end; a negative \<open>offset\<close> counts as 0), in its order, with the player ids, names
  and scores stored there and consecutive ranks starting at \<open>offset + 1\<close>.  Only when \<open>limit\<close> is not
  positive or the server does not answer with an array is the page empty regardless.\<close>

theorem GetTopN_page:
  assumes l: "redis_laws api zset" and lb: "leaderboard (zset (rd_world r) kRankScoreKey) xs"
    and g: "RankService_GetTopN api True offset limit r = Some (entries, r')" and ctx: "rd_context r"
  defines "first \<equiv> max 0 offset"
  defines "answer \<equiv> fst (redisCommand api (ZREVRANGE_WITHSCORES kRankScoreKey first (first + limit - 1)) (rd_world r))"
  shows "entries =
    (if 0 < limit \<and> map_option reply_kind answer = Some REDIS_REPLY_ARRAY
     then map (\<lambda>i. let (pid, score) = xs ! (nat first + i) in
                 \<lparr>re_player_id = pid, re_name = ''player_'' @ to_string pid, re_score = score, re_rank = first + int i + 1\<rparr>)
            [0..<length (take (nat limit) (drop (nat first) xs))]
     else [])"
proof (cases "0 < limit \<and> map_option reply_kind answer = Some REDIS_REPLY_ARRAY")
  case False
  then show ?thesis using g ctx
    by (cases answer) (auto simp: RankService_GetTopN_def RedisClient_ZRevRange_def has_context_def Let_def answer_def
        first_def max_def split: if_splits prod.splits option.splits)
next
  case True
  then obtain rep w where q: "redisCommand api (ZREVRANGE_WITHSCORES kRankScoreKey first (first + limit - 1)) (rd_world r) = (Some rep, w)"
      and kind: "reply_kind rep = REDIS_REPLY_ARRAY"
    unfolding answer_def by (metis (no_types, lifting) map_option_eq_Some prod.collapse)
  let ?items = "score_pairs (reply_elements rep)" and ?ys = "take (nat limit) (drop (nat first) xs)"
  have "entries = map (\<lambda>i. rank_entry first i (?items ! i)) [0..<length ?items]"
    using g ctx q kind True
    by (auto simp: RankService_GetTopN_def RedisClient_ZRevRange_def has_context_def Let_def first_def max_def split: if_splits)
  moreover have items: "?items = map (\<lambda>(p, s). (to_string p, s)) ?ys"
    by (rule page_items [OF l lb q kind]) (simp add: first_def)
  moreover have "rank_entry first i (?items ! i) = (let (pid, score) = xs ! (nat first + i) in
      \<lparr>re_player_id = pid, re_name = ''player_'' @ to_string pid, re_score = score, re_rank = first + int i + 1\<rparr>)"
    if "i < length ?ys" for i
    using leaderboard_entry [OF lb, of "nat first + i"] that by (auto simp: items rank_entry_def split: prod.splits)
  ultimately show ?thesis using True by simp
qed

text \<open>The second and third of three players, and a page with a negative offset.\<close>

theorem GetTopN_page_witness:
  defines "r \<equiv> \<lparr>rd_context = True, rd_cfg = \<lparr>redis_host = [], redis_port = 6379\<rparr>,
     rd_world = (\<lambda>key. [(to_string 7, 1010), (to_string 9, 1020), (to_string 8, 990)])\<rparr>"
  shows "fst (the (RankService_GetTopN sim_redis True 1 5 r)) =
       [\<lparr>re_player_id = 7, re_name = ''player_'' @ to_string 7, re_score = 1010, re_rank = 2\<rparr>,
        \<lparr>re_player_id = 8, re_name = ''player_'' @ to_string 8, re_score = 990, re_rank = 3\<rparr>] \<and>
     fst (the (RankService_GetTopN sim_redis True (- 4) 1 r)) =
       [\<lparr>re_player_id = 9, re_name = ''player_'' @ to_string 9, re_score = 1020, re_rank = 1\<rparr>]"
proof -
  have ne: "to_string 9 \<noteq> to_string 7" "to_string 8 \<noteq> to_string 7" "to_string 8 \<noteq> to_string 9"
    using inj_to_string by fastforce+
  have lb: "leaderboard (sim_zset (rd_world r) kRankScoreKey) [(9, 1020), (7, 1010), (8, 990)]"
    using ne by (auto simp: leaderboard_def sim_zset_def r_def in_i64_def in_i32_def)
  have ctx: "rd_context r" by (simp add: r_def)
  have ex: "\<exists>e r'. RankService_GetTopN sim_redis True 1 5 r = Some (e, r')"
    "\<exists>e r'. RankService_GetTopN sim_redis True (- 4) 1 r = Some (e, r')"
    by (simp_all add: RankService_GetTopN_def in_i32_def split: prod.splits)
  then obtain e e' r1 r2 where g: "RankService_GetTopN sim_redis True 1 5 r = Some (e, r1)"
      "RankService_GetTopN sim_redis True (- 4) 1 r = Some (e', r2)" by blast
  note p = GetTopN_page [OF sim_redis_laws lb g(1) ctx] GetTopN_page [OF sim_redis_laws lb g(2) ctx]
  have "e = [\<lparr>re_player_id = 7, re_name = ''player_'' @ to_string 7, re_score = 1010, re_rank = 2\<rparr>,
        \<lparr>re_player_id = 8, re_name = ''player_'' @ to_string 8, re_score = 990, re_rank = 3\<rparr>]"
    "e' = [\<lparr>re_player_id = 9, re_name = ''player_'' @ to_string 9, re_score = 1020, re_rank = 1\<rparr>]"
    using p by (simp_all add: sim_redis_def numeral_eq_Suc upt_rec)
  then show ?thesis using g by simp
qed

end
