(* ===== verification/Settlement_Service.thy ===== *)
theory Settlement_Service
  imports Battle_Repository Rank_Service
begin

text \<open>
  The settlement of a finished game: \<open>src/src/game/settlement_service.h\<close> and
  \<open>settlement_service.cpp\<close>.  The state is the MySQL client and the Redis client; the pointers of the
  service are the flags of \<open>settlement_ptrs\<close>.
\<close>

record settlement_ptrs =
  battle_repository_set :: bool
  player_repository_set :: bool
  rank_service_set :: bool
  mysql_set :: bool  \<comment> \<open>\<open>mysql_\<close> of both repositories\<close>
  redis_set :: bool  \<comment> \<open>\<open>redis_\<close> of the rank service\<close>

text \<open>The loop over the participants that refreshes the leaderboard.\<close>

fun refresh_ranks ::
    "'d mysql_api \<Rightarrow> 'r hiredis \<Rightarrow> settlement_ptrs \<Rightarrow> i64 list \<Rightarrow> 'd mysql \<times> 'r redis
       \<Rightarrow> (cpp_exception + bool) \<times> 'd mysql \<times> 'r redis" where
  "refresh_ranks api rapi ptrs [] (m, r) = (Inr True, m, r)"
| "refresh_ranks api rapi ptrs (player_id # rest) (m, r) =
     (let (found, m1) = PlayerRepository_FindPlayer api (mysql_set ptrs) player_id m
      in case found of
           Inl e \<Rightarrow> (Inl e, m1, r)
         | Inr None \<Rightarrow> (Inr False, m1, r)
         | Inr (Some data) \<Rightarrow>
             let (ok, r1) = RankService_UpdateScore rapi (redis_set ptrs) player_id (pd_score data) r
             in if \<not> ok then (Inr False, m1, r1) else refresh_ranks api rapi ptrs rest (m1, r1))"

text \<open>\<open>std::set\<close> iterates in increasing order, without duplicates.\<close>

definition participants :: "i64 \<Rightarrow> i64 list \<Rightarrow> i64 list" where
  "participants winner losers = sort (remdups (winner # losers))"

definition participant_result :: "i64 \<Rightarrow> i64 \<Rightarrow> i64 \<Rightarrow> BattlePlayerResult" where
  "participant_result bid winner player =
     \<lparr>bpr_battle_id = bid, bpr_player_id = player,
      bpr_result = (if player = winner then ''WIN'' else ''LOSE''),
      bpr_score_delta = (if player = winner then 20 else - 10)\<rparr>"

definition SettlementService_SettleBattle ::
    "'d mysql_api \<Rightarrow> 'r hiredis \<Rightarrow> settlement_ptrs \<Rightarrow> i64 \<Rightarrow> i64 \<Rightarrow> i64 \<Rightarrow> i64 list \<Rightarrow> 'd mysql \<times> 'r redis
       \<Rightarrow> (cpp_exception + bool) \<times> 'd mysql \<times> 'r redis" where
  "SettlementService_SettleBattle api rapi ptrs bid room winner losers st =
     (if \<not> battle_repository_set ptrs \<or> (rank_service_set ptrs \<and> \<not> player_repository_set ptrs) \<or>
         bid \<le> 0 \<or> room \<le> 0 \<or> winner \<le> 0 then (Inr False, st)
      else if \<exists>player\<in>set losers. player \<le> 0 \<or> player = winner then (Inr False, st)
      else
        let ps = participants winner losers;
            battle = \<lparr>bt_battle_id = bid, bt_room_id = room, bt_winner_id = winner, bt_result_json = []\<rparr>;
            results = map (participant_result bid winner) ps;
            (m, r) = st;
            (applied, m1) = BattleRepository_ApplySettlement api (mysql_set ptrs) battle results m
        in case applied of
             Inl e \<Rightarrow> (Inl e, m1, r)
           | Inr ok \<Rightarrow>
               if \<not> ok then (Inr False, m1, r)
               else if rank_service_set ptrs then refresh_ranks api rapi ptrs ps (m1, r)
               else (Inr True, m1, r))"

text \<open>A caller that tries again, each time with the losers in some order.\<close>

fun settle_attempts ::
    "'d mysql_api \<Rightarrow> 'r hiredis \<Rightarrow> settlement_ptrs \<Rightarrow> i64 \<Rightarrow> i64 \<Rightarrow> i64 \<Rightarrow> i64 list list \<Rightarrow> 'd mysql \<times> 'r redis
       \<Rightarrow> (cpp_exception + bool) list \<times> 'd mysql \<times> 'r redis" where
  "settle_attempts api rapi ptrs bid room winner [] st = ([], st)"
| "settle_attempts api rapi ptrs bid room winner (losers # again) st =
     (let (res, st1) = SettlementService_SettleBattle api rapi ptrs bid room winner losers st;
          (ress, st2) = settle_attempts api rapi ptrs bid room winner again st1
      in (res # ress, st2))"

subsection \<open>One attempt\<close>

lemma participants_set [simp]: "set (participants w ls) = insert w (set ls)"
  unfolding participants_def by (simp only: set_sort set_remdups list.set)

lemma participants_cong: "set ls = set ls' \<Longrightarrow> participants w ls = participants w ls'"
  unfolding participants_def by (rule sorted_distinct_set_unique) simp_all

lemma participants_sorted: "sorted (participants w ls)" "distinct (participants w ls)"
  by (simp_all add: participants_def)

lemma results_ordered:
  "sort_key bpr_player_id (map (participant_result bid w) (participants w ls)) =
     map (participant_result bid w) (participants w ls)"
  by (rule sort_key_id_if_sorted) (simp add: o_def participant_result_def participants_sorted)

lemma refresh_ranks_idle:
  assumes d: "innodb api v lit"
  shows "idle v C m \<Longrightarrow> refresh_ranks api rapi ptrs ps (m, r) = (res, m', r') \<Longrightarrow> idle v C m'"
proof (induction ps arbitrary: m r)
  case (Cons p ps)
  obtain found m1 where f: "PlayerRepository_FindPlayer api (mysql_set ptrs) p m = (found, m1)" by fastforce
  have "idle v C m1" by (rule FindPlayer_idle(1) [OF d Cons.prems(1) f])
  then show ?case
    using Cons.prems(2) f Cons.IH by (auto simp: Let_def split: sum.splits option.splits prod.splits if_splits)
qed simp

definition the_battle :: "i64 \<Rightarrow> i64 \<Rightarrow> i64 \<Rightarrow> Battle" where
  "the_battle bid room w = \<lparr>bt_battle_id = bid, bt_room_id = room, bt_winner_id = w, bt_result_json = []\<rparr>"

definition the_results :: "i64 \<Rightarrow> i64 \<Rightarrow> i64 list \<Rightarrow> BattlePlayerResult list" where
  "the_results bid w ls = map (participant_result bid w) (participants w ls)"

lemma SettleBattle_atomic:
  assumes d: "innodb api v lit" and i: "idle v C m"
    and e: "SettlementService_SettleBattle api rapi ptrs bid room w ls (m, r) = (res, m', r')"
  defines "b \<equiv> the_battle bid room w" and "rs \<equiv> the_results bid w ls"
  shows "res \<noteq> Inr True \<and> idle v C m' \<or> settled_same b rs C \<and> idle v C m' \<or>
         unsettled b C \<and> check_results b rs 0 0 = Some 1 \<and> idle v (settled_tables lit b rs C) m'"
proof -
  obtain applied m1 where a: "BattleRepository_ApplySettlement api (mysql_set ptrs) b rs m = (applied, m1)" by fastforce
  note at = ApplySettlement_atomic [OF d i a, unfolded rs_def the_results_def results_ordered]
  show ?thesis
  proof (cases "applied = Inr True \<and> rank_service_set ptrs \<and> (res, m', r') = refresh_ranks api rapi ptrs (participants w ls) (m1, r)")
    case True
    then show ?thesis
      using at refresh_ranks_idle [OF d] unfolding rs_def the_results_def by metis
  next
    case False
    then have "(res \<noteq> Inr True \<or> applied = Inr True) \<and> m' = m1 \<or> res \<noteq> Inr True \<and> m' = m"
      using e a unfolding SettlementService_SettleBattle_def b_def rs_def the_battle_def the_results_def
      by (auto simp: Let_def split: if_splits sum.splits)
    then show ?thesis using at i unfolding rs_def the_results_def by auto
  qed
qed

lemma the_results_players: "bpr_player_id ` set (the_results bid w ls) = insert w (set ls)"
  by (force simp: the_results_def participant_result_def)

subsection \<open>Retries\<close>

lemma settled_not_unsettled: "settled_same b rs C \<Longrightarrow> \<not> unsettled b C"
  by (auto simp: settled_same_def unsettled_def)

lemma attempts_after_settlement:
  assumes d: "innodb api v lit" and ls: "\<forall>ls\<in>set lss. set ls = L" and settled: "\<not> unsettled (the_battle bid room w) C"
  shows "idle v C m \<Longrightarrow> settle_attempts api rapi ptrs bid room w lss (m, r) = (ress, m', r') \<Longrightarrow> idle v C m'"
  using ls
proof (induction lss arbitrary: m r ress)
  case (Cons l lss)
  obtain res m1 r1 where s: "SettlementService_SettleBattle api rapi ptrs bid room w l (m, r) = (res, m1, r1)"
    by (metis surj_pair)
  have "idle v C m1" using SettleBattle_atomic [OF d Cons.prems(1) s] settled by blast
  then show ?case using Cons s by (auto simp: Let_def split: prod.splits)
qed simp

lemma attempts_exactly_once:
  assumes d: "innodb api v lit" and u: "unsettled (the_battle bid room w) C"
    and ls: "\<forall>ls\<in>set lss. set ls = set l0"
    and nosame: "battle_results bid C = []"
  shows "idle v C m \<Longrightarrow> settle_attempts api rapi ptrs bid room w lss (m, r) = (ress, m', r') \<Longrightarrow>
     (Inr True \<notin> set ress \<and> idle v C m') \<or>
     (check_results (the_battle bid room w) (the_results bid w l0) 0 0 = Some 1 \<and>
      idle v (settled_tables lit (the_battle bid room w) (the_results bid w l0) C) m')"
  using ls
proof (induction lss arbitrary: m r ress)
  case (Cons l lss)
  let ?b = "the_battle bid room w" and ?rs = "the_results bid w l0"
  obtain res m1 r1 where s: "SettlementService_SettleBattle api rapi ptrs bid room w l (m, r) = (res, m1, r1)"
    by (metis surj_pair)
  obtain ress1 m2 r2 where t: "settle_attempts api rapi ptrs bid room w lss (m1, r1) = (ress1, m2, r2)"
    by (metis surj_pair)
  have out: "ress = res # ress1" "m' = m2" "r' = r2" using Cons.prems(2) s t by simp_all
  have "the_results bid w l = ?rs"
    using Cons.prems(3) participants_cong [of l l0 w] by (simp add: the_results_def)
  then have "res \<noteq> Inr True \<and> idle v C m1 \<or>
      check_results ?b ?rs 0 0 = Some 1 \<and> idle v (settled_tables lit ?b ?rs C) m1"
    using SettleBattle_atomic [OF d Cons.prems(1) s] settled_not_unsettled u by metis
  then show ?case
  proof
    assume "res \<noteq> Inr True \<and> idle v C m1"
    then show ?thesis using Cons.IH [of m1 r1 ress1] t Cons.prems(3) out by auto
  next
    assume c: "check_results ?b ?rs 0 0 = Some 1 \<and> idle v (settled_tables lit ?b ?rs C) m1"
    have "battle_results (bt_battle_id ?b) C = []" using nosame by (simp add: the_battle_def)
    then have "\<not> unsettled ?b (settled_tables lit ?b ?rs C)"
      using settled_tables_same c u settled_not_unsettled by blast
    then have "idle v (settled_tables lit ?b ?rs C) m2"
      using attempts_after_settlement [OF d, of lss "set l0"] c t Cons.prems(3) by auto
    then show ?thesis using c out by blast
  qed
qed simp

text \<open>C2. Settlement is atomic and happens at most once, whatever fails.  A caller repeats
  \<open>SettleBattle\<close> any number of times for one battle, with the losers in any order, on a database where
  every call may fail and the answer to a \<open>COMMIT\<close> may be lost.  Afterwards either nothing is
  committed, and then no attempt has returned \<open>true\<close>, or exactly one settlement is: the winner has
  gained 20 points and one win, every loser has lost 10 points and gained one loss, nobody else has
  changed, and the battle is marked with its winner.\<close>

theorem SettleBattle_exactly_once:
  assumes "innodb api v lit" and "idle v C m"
    and "um_find (tb_battle C) bid = Some row" and "br_settled row = 0" and "br_room_id row = room"
    and "battle_results bid C = []"
    and "\<forall>losers\<in>set lss. set losers = L"
    and "settle_attempts api rapi ptrs bid room w lss (m, r) = (ress, m', r')"
  shows "\<exists>T. idle v T m' \<and>
     (Inr True \<notin> set ress \<and> T = C \<or> settlement_effect (the_battle bid room w) (insert w L) C T)"
proof (cases "lss = []")
  case True
  then show ?thesis using assms by auto
next
  case False
  then obtain l0 where l0: "L = set l0" using assms(7) by (metis list.set_intros(1) neq_Nil_conv)
  have u: "unsettled (the_battle bid room w) C" using assms(3-5) by (auto simp: unsettled_def the_battle_def)
  have "\<forall>ls\<in>set lss. set ls = set l0" using assms(7) l0 by simp
  from attempts_exactly_once [OF assms(1) u this assms(6,2,8)]
  consider "Inr True \<notin> set ress" "idle v C m'"
    | "check_results (the_battle bid room w) (the_results bid w l0) 0 0 = Some 1"
      "idle v (settled_tables lit (the_battle bid room w) (the_results bid w l0) C) m'" by blast
  then show ?thesis
  proof cases
    case 2
    from settled_tables_effect [OF 2(1) u, of lit] show ?thesis
      using 2(2) l0 unfolding the_results_players by blast
  qed blast
qed

text \<open>A database with one new battle, room 1000 and players 7 and 9.\<close>

definition tables0 :: tables where
  "tables0 = \<lparr>tb_player = [(7, \<lparr>pd_player_id = 7, pd_name = ''a'', pd_score = 1200, pd_win_count = 10, pd_lose_count = 0\<rparr>)],
     tb_battle = [(1, \<lparr>br_room_id = 1000, br_winner_id = 0, br_settled = 0, br_json = ''{}''\<rparr>)],
     tb_result = [], tb_log = [], next_battle = 2, next_log = 1\<rparr>"

definition sim0 :: "nat list \<Rightarrow> sim" where
  "sim0 faults = \<lparr>s_faults = faults, s_tx = False, s_cur = tables0, s_com = tables0, s_rows = [], s_affected = 0,
     s_insert_id = 0\<rparr>"

definition mysql0 :: "nat list \<Rightarrow> sim mysql" where
  "mysql0 faults = \<lparr>my_conn = False, my_in_transaction = False, my_cfg = mysql_cfg config_default, my_world = sim0 faults\<rparr>"

definition redis0 :: "(string \<Rightarrow> zset) redis" where
  "redis0 = \<lparr>rd_context = False, rd_cfg = redis_cfg config_default, rd_world = (\<lambda>key. [])\<rparr>"

definition ptrs0 :: settlement_ptrs where
  "ptrs0 = \<lparr>battle_repository_set = True, player_repository_set = True, rank_service_set = True, mysql_set = True,
     redis_set = True\<rparr>"

lemma mysql0_idle: "idle sim_view tables0 (mysql0 fs)"
  by (simp add: idle_def mysql0_def sim0_def sim_view_def)

lemma tables0_battle:
  "um_find (tb_battle tables0) 1 = Some \<lparr>br_room_id = 1000, br_winner_id = 0, br_settled = 0, br_json = ''{}''\<rparr>"
  "battle_results 1 tables0 = []"
  by (simp_all add: tables0_def battle_results_def)

text \<open>Three attempts; in the first the answer to the commit is lost.\<close>

theorem SettleBattle_exactly_once_witness:
  "\<exists>T ress m' r'. settle_attempts (sim_api True) sim_redis ptrs0 1 1000 9 [[7], [7], [7, 7]]
        (mysql0 [0, 0, 0, 0, 0, 0, 0, 0, 0, 0, 0, 0, 2], redis0) = (ress, m', r') \<and> idle sim_view T m' \<and>
     (Inr True \<notin> set ress \<and> T = tables0 \<or> settlement_effect (the_battle 1 1000 9) {9, 7} tables0 T)"
proof -
  obtain ress m' r' where e: "settle_attempts (sim_api True) sim_redis ptrs0 1 1000 9 [[7], [7], [7, 7]]
        (mysql0 [0, 0, 0, 0, 0, 0, 0, 0, 0, 0, 0, 0, 2], redis0) = (ress, m', r')" by (metis surj_pair)
  have "\<forall>losers\<in>set [[7], [7], [7, 7]]. set losers = {7::int}" by simp
  from SettleBattle_exactly_once [OF sim_innodb mysql0_idle tables0_battle(1) _ _ tables0_battle(2) this e]
  show ?thesis using e by auto
qed

subsection \<open>The leaderboard after a settlement\<close>

lemma refresh_ranks_sync:
  assumes d: "innodb api v lit" and l: "redis_laws rapi zset"
  shows "idle v C m \<Longrightarrow> refresh_ranks api rapi ptrs ps (m, r) = (Inr True, m', r') \<Longrightarrow>
     (\<forall>p\<in>set ps. um_find (tb_player C) p \<noteq> None \<and>
        map_of (zset (rd_world r') kRankScoreKey) (to_string p) = Some (score_of C p)) \<and>
     (\<forall>k. k \<notin> to_string ` set ps \<longrightarrow>
        map_of (zset (rd_world r') kRankScoreKey) k = map_of (zset (rd_world r) kRankScoreKey) k)"
proof (induction ps arbitrary: m r)
  case (Cons p ps)
  obtain found m1 where f: "PlayerRepository_FindPlayer api (mysql_set ptrs) p m = (found, m1)" by fastforce
  then obtain data where data: "found = Inr (Some data)"
    using Cons.prems(2) by (auto split: sum.splits option.splits)
  obtain ok r1 where u: "RankService_UpdateScore rapi (redis_set ptrs) p (pd_score data) r = (ok, r1)" by fastforce
  have rest: "ok" "refresh_ranks api rapi ptrs ps (m1, r1) = (Inr True, m', r')"
    using Cons.prems(2) f data u by (auto split: if_splits)
  have i1: "idle v C m1" by (rule FindPlayer_idle(1) [OF d Cons.prems(1) f])
  obtain x where x: "um_find (tb_player C) p = Some x" "data = x\<lparr>pd_player_id := p\<rparr>"
    using FindPlayer_idle(2) [OF d Cons.prems(1) f data] by blast
  then have sc: "pd_score data = score_of C p" by (simp add: score_of_def)
  have z: "map_of (zset (rd_world r1) kRankScoreKey) =
      (map_of (zset (rd_world r) kRankScoreKey))(to_string p \<mapsto> score_of C p)"
    using UpdateScore_zset [OF l] u rest(1) sc by auto
  note ih = Cons.IH [OF i1 rest(2)]
  have "map_of (zset (rd_world r') kRankScoreKey) (to_string p) = Some (score_of C p)"
    using ih z by (cases "to_string p \<in> to_string ` set ps") (auto dest: inj_to_string)
  then show ?case using ih z x by auto
qed simp

text \<open>C24. When \<open>SettleBattle\<close> returns \<open>true\<close> the leaderboard agrees with the database: for the winner and
  every loser the score stored in the Redis sorted set is the committed score of the player's row in
  MySQL, also when the call was a retry of a battle that had been settled before.\<close>

theorem SettleBattle_leaderboard_in_sync:
  assumes d: "innodb api v lit" and "redis_laws rapi zset" and i: "idle v C m"
    and "rank_service_set ptrs"
    and e: "SettlementService_SettleBattle api rapi ptrs bid room w ls (m, r) = (Inr True, m', r')"
  shows "\<exists>T. idle v T m' \<and> (\<forall>p\<in>insert w (set ls).
     map_of (zset (rd_world r') kRankScoreKey) (to_string p) = Some (score_of T p))"
proof -
  obtain applied m1 where a: "BattleRepository_ApplySettlement api (mysql_set ptrs) (the_battle bid room w)
      (the_results bid w ls) m = (applied, m1)" by fastforce
  have x: "applied = Inr True" "refresh_ranks api rapi ptrs (participants w ls) (m1, r) = (Inr True, m', r')"
    using e a assms(4) unfolding SettlementService_SettleBattle_def the_battle_def the_results_def
    by (auto simp: Let_def split: if_splits sum.splits)
  obtain T where T: "idle v T m1" using ApplySettlement_atomic [OF d i a] by blast
  show ?thesis
    using refresh_ranks_sync [OF assms(1,2) T x(2)] refresh_ranks_idle [OF d T x(2)] by auto
qed

subsection \<open>A database without faults\<close>

lemma no_faults_has_conn:
  assumes "no_faults api v" and "has_conn api m = (c, m1)" and "\<not> my_in_transaction m"
  shows "c"
  using assms by (auto simp: no_faults_def has_conn_def MysqlClient_Connect_def Let_def split: if_splits prod.splits)
     (metis fst_conv)+

lemma no_faults_query:
  assumes "no_faults api v" and "mysql_query api st d = (ok, d')"
  shows "ok = stmt_ok st (if v_tx (v d) then v_cur (v d) else v_com (v d))"
  using assms unfolding no_faults_def by (metis fst_conv)

lemma no_faults_ExecuteAffected:
  assumes d: "innodb api v lit" and n: "no_faults api v" and t: "tx_at v C T m" and ne: "st \<noteq> StartTransaction"
    and ok: "stmt_ok st T" and e: "MysqlClient_ExecuteAffected api st m = (k, m')"
  shows "tx_at v C (exec_stmt lit st T) m'" and "affected_ok st T k"
proof -
  obtain q w where q: "mysql_query api st (my_world m) = (q, w)" by fastforce
  have "q" using no_faults_query [OF n q] t ok by (simp add: tx_at_def)
  then have "k = wrap64 (mysql_affected_rows api w)" "affected_ok st T (mysql_affected_rows api w)"
    using e tx_at_in_tx [OF t] q query_tx(2) [OF d t ne q] by (auto simp: MysqlClient_ExecuteAffected_def Let_def)
  then have "k \<ge> 0" "affected_ok st T k" using wrap64_affected affected_ok_small by fastforce+
  then show "tx_at v C (exec_stmt lit st T) m'" "affected_ok st T k" using ExecuteAffected_tx(2) [OF d t ne e] by auto
qed

lemma no_faults_Execute:
  assumes d: "innodb api v lit" and n: "no_faults api v" and t: "tx_at v C T m"
    and ok: "stmt_ok st T" and e: "MysqlClient_Execute api st m = (k, m')"
  shows "k"
proof -
  obtain q w where q: "mysql_query api st (my_world m) = (q, w)" by fastforce
  have "q" using no_faults_query [OF n q] t ok by (simp add: tx_at_def)
  then show ?thesis using e tx_at_in_tx [OF t] q by (auto simp: MysqlClient_Execute_def Let_def)
qed

lemma no_faults_Query_rows:
  assumes d: "innodb api v lit" and n: "no_faults api v" and h: "has_conn api m = (True, m1)"
    and ok: "stmt_ok st (if v_tx (v (my_world m1)) then v_cur (v (my_world m1)) else v_com (v (my_world m1)))"
    and e: "MysqlClient_Query api st m = (rows, m')"
  shows "rows = map row_item (select_rows st (if v_tx (v (my_world m1)) then v_cur (v (my_world m1)) else v_com (v (my_world m1))))"
proof -
  obtain q w where q: "mysql_query api st (my_world m1) = (q, w)" by fastforce
  have qt: "q" using no_faults_query [OF n q] ok by simp
  obtain res w' where s: "mysql_store_result api w = (res, w')" by fastforce
  have "res \<noteq> None" using n q qt s unfolding no_faults_def by (metis fst_conv)
  then obtain rs where "res = Some rs" by blast
  then show ?thesis using e h q qt s innodb_rows [OF d, of st "my_world m1" w rs w']
    by (auto simp: MysqlClient_Query_def Let_def)
qed

text \<open>The rows of the players have room for the new counts, and the battle has no results yet.\<close>

definition can_settle :: "tables \<Rightarrow> BattlePlayerResult list \<Rightarrow> bool" where
  "can_settle T rs \<longleftrightarrow>
     (\<forall>r\<in>set rs. stmt_ok (score_stmt (bpr_player_id r) (bpr_score_delta r)) T \<and>
        \<not> um_has (tb_result T) (bpr_battle_id r, bpr_player_id r) \<and> \<not> um_has (tb_log T) (bpr_battle_id r, bpr_player_id r))"

lemma can_settle_rest:
  assumes "can_settle T (r # rs)" and "distinct (map bpr_player_id (r # rs))"
  shows "can_settle (settle_one lit r T) rs"
  unfolding can_settle_def
proof
  fix x assume x: "x \<in> set rs"
  then have "bpr_player_id x \<noteq> bpr_player_id r" using assms(2) by (metis distinct.simps(2) image_eqI list.map(2) list.set_map)
  then show "stmt_ok (score_stmt (bpr_player_id x) (bpr_score_delta x)) (settle_one lit r T) \<and>
        \<not> um_has (tb_result (settle_one lit r T)) (bpr_battle_id x, bpr_player_id x) \<and>
        \<not> um_has (tb_log (settle_one lit r T)) (bpr_battle_id x, bpr_player_id x)"
    using assms(1) x by (simp add: can_settle_def score_stmt_def settle_one_def Let_def)
qed

lemma no_faults_settle_players:
  assumes d: "innodb api v lit" and n: "no_faults api v"
  shows "tx_at v C T m \<Longrightarrow> can_settle T rs \<Longrightarrow> distinct (map bpr_player_id rs) \<Longrightarrow>
     \<forall>r\<in>set rs. bpr_battle_id r = bt_battle_id battle \<Longrightarrow> settle_players api battle rs m = (b, m') \<Longrightarrow> b"
proof (induction rs arbitrary: T m)
  case (Cons r rs)
  let ?log = "\<lparr>sl_settlement_id = 0, sl_battle_id = bt_battle_id battle, sl_player_id = bpr_player_id r,
                 sl_score_delta = bpr_score_delta r\<rparr>"
  let ?T1 = "T\<lparr>tb_result := um_put (bpr_battle_id r, bpr_player_id r) (bpr_result r, bpr_score_delta r) (tb_result T)\<rparr>"
  have bid: "bpr_battle_id r = bt_battle_id battle" using Cons.prems(4) by simp
  have cs: "\<not> um_has (tb_result T) (bpr_battle_id r, bpr_player_id r)" "\<not> um_has (tb_log T) (bpr_battle_id r, bpr_player_id r)"
      "stmt_ok (score_stmt (bpr_player_id r) (bpr_score_delta r)) T"
    using Cons.prems(2) by (simp_all add: can_settle_def)
  obtain b1 m1 where 1: "BattleRepository_InsertBattlePlayerResult api True r m = (b1, m1)" by fastforce
  obtain s me where s: "MysqlClient_EscapeString api (bpr_result r) m = (s, me)" by fastforce
  obtain k1 mk where k1: "MysqlClient_ExecuteAffected api
      (InsertResult (bpr_battle_id r) (bpr_player_id r) s (bpr_score_delta r)) m = (k1, mk)" by fastforce
  have "k1 = 1" using no_faults_ExecuteAffected(2) [OF d n Cons.prems(1) _ _ k1] cs(1) by simp
  then have b1: "b1" using 1 s k1 Escape_tx(1) [OF d tx_at_in_tx [OF Cons.prems(1)] s]
    by (simp add: BattleRepository_InsertBattlePlayerResult_def)
  have t1: "tx_at v C ?T1 m1" using InsertResult_tx(2) [OF d Cons.prems(1) 1 b1] by blast
  obtain b2 m2 where 2: "BattleRepository_InsertSettlementLog api True ?log m1 = (b2, m2)" by fastforce
  obtain k2 mk2 where k2: "MysqlClient_ExecuteAffected api
      (InsertLog 0 (bt_battle_id battle) (bpr_player_id r) (bpr_score_delta r)) m1 = (k2, mk2)" by fastforce
  have "k2 = 1" using no_faults_ExecuteAffected(2) [OF d n t1 _ _ k2] cs(2) bid by simp
  then have b2: "b2" using 2 k2 by (simp add: BattleRepository_InsertSettlementLog_def)
  note t2 = InsertLog_tx(2) [OF d t1 2 b2]
  obtain b3 m3 where 3: "PlayerRepository_UpdatePlayerScore api True (bpr_player_id r) (bpr_score_delta r) m2 = (b3, m3)"
    by fastforce
  have "stmt_ok (score_stmt (bpr_player_id r) (bpr_score_delta r))
      (exec_stmt lit (InsertLog (sl_settlement_id ?log) (sl_battle_id ?log) (sl_player_id ?log) (sl_score_delta ?log)) ?T1)"
    using cs(3) by (simp add: score_stmt_def Let_def)
  then have b3: "b3" using no_faults_Execute [OF d n t2 _ 3 [unfolded UpdatePlayerScore_eq]] by simp
  have t3: "tx_at v C (settle_one lit r T) m3"
    using UpdatePlayerScore_tx(2) [OF d t2 3 b3] bid by (simp add: settle_one_def)
  have "settle_players api battle rs m3 = (b, m')" using Cons.prems(5) 1 2 3 b1 b2 b3 by simp
  then show ?case
    using Cons.IH [OF t3 can_settle_rest [OF Cons.prems(2,3)]] Cons.prems(3,4) by simp
qed simp

lemma no_faults_first_settle:
  assumes d: "innodb api v lit" and n: "no_faults api v" and t: "tx_at v C T m" and cs: "can_settle T rs"
    and dist: "distinct (map bpr_player_id rs)" and bid: "\<forall>r\<in>set rs. bpr_battle_id r = bt_battle_id battle"
    and b: "um_find (tb_battle T) (bt_battle_id battle) = Some b" "br_settled b = 0"
    and e: "first_settle api battle rs m = (r, m')"
  shows "r = Inr True"
proof -
  obtain ok m1 where p: "settle_players api battle rs m = (ok, m1)" by fastforce
  have ok: "ok" by (rule no_faults_settle_players [OF d n t cs dist bid p])
  have t1: "tx_at v C (settle_all lit rs T) m1" using settle_players_tx [OF d t bid p] ok by simp
  obtain k m2 where k: "MysqlClient_ExecuteAffected api
      (UpdateBattleSettled (bt_battle_id battle) (bt_winner_id battle)) m1 = (k, m2)" by fastforce
  have "k = 1" using no_faults_ExecuteAffected(2) [OF d n t1 _ _ k] b by simp
  then show ?thesis using e p ok k by (simp add: first_settle_def)
qed

lemma no_faults_Query_tx:
  assumes d: "innodb api v lit" and n: "no_faults api v" and t: "tx_at v C T m" and ok: "stmt_ok st T"
    and e: "MysqlClient_Query api st m = (rows, m')"
  shows "rows = map row_item (select_rows st T)"
  using no_faults_Query_rows [OF d n has_conn_tx [OF tx_at_in_tx [OF t]] _ e] t ok by (simp add: tx_at_def)

lemma saved_match_self:
  "\<forall>r\<in>set rs. in_i64 (bpr_player_id r) \<and> in_i32 (bpr_score_delta r) \<Longrightarrow>
     saved_match (map (\<lambda>x. row_item (result_row x)) (map result_key rs)) rs = Inr True"
  by (induction rs) (auto simp: result_row_find result_key_def row_at_def)

lemma no_faults_callback:
  assumes d: "innodb api v lit" and n: "no_faults api v" and t: "tx_at v C T m"
    and dist: "distinct (map bpr_player_id rs)" and bid: "\<forall>r\<in>set rs. bpr_battle_id r = bt_battle_id battle"
    and rng: "\<forall>r\<in>set rs. in_i64 (bpr_player_id r) \<and> in_i32 (bpr_score_delta r)"
      "in_i64 (bt_room_id battle)" "in_i64 (bt_winner_id battle)"
    and b: "um_find (tb_battle T) (bt_battle_id battle) = Some b" "br_room_id b = bt_room_id battle"
    and c: "br_settled b = 0 \<and> can_settle T rs \<or> settled_same battle rs T"
    and e: "settlement_callback api battle rs m = (r, m')"
  shows "r = Inr True"
proof -
  obtain rows m1 where q: "MysqlClient_Query api (SelectBattleForUpdate (bt_battle_id battle)) m = (rows, m1)" by fastforce
  have rows: "rows = map row_item (select_rows (SelectBattleForUpdate (bt_battle_id battle)) T)"
    by (rule no_faults_Query_tx [OF d n t _ q]) simp
  then have hd: "length rows = 1" "hd rows = row_item [col ''room_id'' (to_string (br_room_id b)),
      col ''winner_id'' (to_string (br_winner_id b)), col ''settled'' (to_string (br_settled b))]"
    using b(1) by simp_all
  note f = battle_row_find [of b, folded hd(2)]
  have "rows \<noteq> []" using hd(1) by auto
  then have t1: "tx_at v C T m1" using Query_tx(2) [OF d t _ q] by simp
  show ?thesis
  proof (cases "br_settled b = 1")
    case True
    then have same: "settled_same battle rs T" using c by simp
    obtain saved m2 where s: "MysqlClient_Query api (SelectResultsForUpdate (bt_battle_id battle)) m1 = (saved, m2)"
      by fastforce
    have "saved = map row_item (select_rows (SelectResultsForUpdate (bt_battle_id battle)) T)"
      by (rule no_faults_Query_tx [OF d n t1 _ s]) simp
    also have "\<dots> = map (\<lambda>x. row_item (result_row x)) (map result_key rs)"
      using same by (simp add: settled_same_def result_row_def result_key_def o_def split_beta)
    finally have saved: "saved = map (\<lambda>x. row_item (result_row x)) (map result_key rs)" .
    have w: "br_winner_id b = bt_winner_id battle" using same b by (auto simp: settled_same_def)
    have "settlement_callback api battle rs m = resettle api battle rs (hd rows) m1"
      using q hd(1) f True rng(2) b(2) by (simp add: settlement_callback_def row_at_def to_string_1)
    also have "\<dots> = (Inr True, m2)"
      using s saved saved_match_self [OF rng(1)] f(2) w rng(3) by (simp add: resettle_def row_at_def)
    finally show ?thesis using e by simp
  next
    case False
    then have s0: "br_settled b = 0" "can_settle T rs" using c b(1) by (auto simp: settled_same_def)
    have "settlement_callback api battle rs m = first_settle api battle rs m1"
      using q hd(1) f False rng(2) b(2) by (simp add: settlement_callback_def row_at_def to_string_1)
    then show ?thesis using no_faults_first_settle [OF d n t1 s0(2) dist bid b(1) s0(1)] e by metis
  qed
qed

lemma no_faults_RunTransaction:
  assumes d: "innodb api v lit" and n: "no_faults api v" and i: "idle v C m"
    and cb: "callback_ok v C P f" and ok: "\<And>m r m'. tx_at v C C m \<Longrightarrow> f m = (r, m') \<Longrightarrow> r = Inr True"
  shows "fst (MysqlClient_RunTransaction api (Some f) m) = Inr True"
proof -
  obtain c m1 where h: "has_conn api m = (c, m1)" by fastforce
  obtain q w where q: "mysql_query api StartTransaction (my_world m1) = (q, w)" by fastforce
  let ?m2 = "m1\<lparr>my_world := w, my_in_transaction := True\<rparr>"
  obtain res m3 where fr: "f ?m2 = (res, m3)" by fastforce
  have c: "c" using no_faults_has_conn [OF n h] i by (simp add: idle_def)
  have qt: "q" using no_faults_query [OF n q] by simp
  note i1 = has_conn_idle [OF d i h]
  have t2: "tx_at v C C ?m2" using i1 c qt innodb_start [OF d q] by (auto simp: tx_at_def in_tx_def idle_def)
  have res: "res = Inr True" by (rule ok [OF t2 fr])
  have "in_tx v C m3" using cb t2 fr by (auto simp: callback_ok_def)
  moreover have "fst (mysql_commit api (my_world m3))" using n by (simp add: no_faults_def)
  ultimately show ?thesis
    using RunTransaction_eq [of m api c m1 q w f res m3] i h q fr c qt res
    by (auto simp: idle_def in_tx_def finish_transaction_def split: prod.splits)
qed

lemma check_results_map:
  assumes "sorted_wrt (<) (prev # ps)" and "bt_winner_id b = w" and "bt_battle_id b = bid"
  shows "check_results b (map (participant_result bid w) ps) k prev = Some (k + (if w \<in> set ps then 1 else 0))"
  using assms
proof (induction ps arbitrary: k prev)
  case (Cons p ps)
  have s: "prev < p" "sorted_wrt (<) (p # ps)" using Cons.prems(1) by auto
  have "check_results b (map (participant_result bid w) (p # ps)) k prev =
      check_results b (map (participant_result bid w) ps) (k + (if p = w then 1 else 0)) p"
    using s(1) Cons.prems(2,3) unfolding list.map check_results.simps Let_def by (auto simp: participant_result_def)
  also have "\<dots> = Some (k + (if p = w then 1 else 0) + (if w \<in> set ps then 1 else 0))"
    by (rule Cons.IH [OF s(2) Cons.prems(2,3)])
  finally show ?case using s(2) by auto
qed simp

lemma check_the_results:
  assumes "w > 0" and "\<forall>p\<in>set ls. p > 0"
  shows "check_results (the_battle bid room w) (the_results bid w ls) 0 0 = Some 1"
proof -
  have "sorted_wrt (<) (0 # participants w ls)"
    using assms participants_sorted [of w ls] by (auto simp: strict_sorted_iff)
  from check_results_map [OF this, of "the_battle bid room w" w bid 0] show ?thesis
    by (simp add: the_battle_def the_results_def)
qed

lemma no_faults_ApplySettlement:
  assumes d: "innodb api v lit" and n: "no_faults api v" and i: "idle v C m"
    and pos: "bid > 0" "room > 0" "w > 0" "\<forall>p\<in>set ls. p > 0"
    and rng: "in_i64 room" "in_i64 w" "\<forall>p\<in>set ls. in_i64 p"
    and b: "um_find (tb_battle C) bid = Some b" "br_room_id b = room"
    and c: "br_settled b = 0 \<and> can_settle C (the_results bid w ls) \<or>
            settled_same (the_battle bid room w) (the_results bid w ls) C"
  shows "fst (BattleRepository_ApplySettlement api True (the_battle bid room w) (the_results bid w ls) m) = Inr True"
proof -
  let ?b = "the_battle bid room w" and ?rs = "the_results bid w ls"
  have chk: "check_results ?b ?rs 0 0 = Some 1" by (rule check_the_results [OF pos(3,4)])
  have dist: "distinct (map bpr_player_id ?rs)" using check_results_sorted [OF chk] by (auto simp: strict_sorted_iff)
  have bids: "\<forall>r\<in>set ?rs. bpr_battle_id r = bt_battle_id ?b" by (rule check_results_battle [OF chk])
  have r: "\<forall>r\<in>set ?rs. in_i64 (bpr_player_id r) \<and> in_i32 (bpr_score_delta r)"
    using rng by (auto simp: the_results_def participant_result_def in_i32_def)
  have ne: "?rs \<noteq> []" using the_results_players [of bid w ls] by (metis image_empty insert_not_empty list.set(1))
  have "settlement_callback api ?b ?rs m = (res, m') \<Longrightarrow> tx_at v C C m \<Longrightarrow> res = Inr True" for m res m'
    using no_faults_callback [OF d n _ dist bids r] rng b c by (simp add: the_battle_def)
  then have "fst (MysqlClient_RunTransaction api (Some (settlement_callback api ?b ?rs)) m) = Inr True"
    using no_faults_RunTransaction [OF d n i settlement_callback_ok [OF d bids ne]] by blast
  moreover have "sort_key bpr_player_id ?rs = ?rs" by (simp add: the_results_def results_ordered)
  ultimately show ?thesis
    using pos ne chk by (simp add: BattleRepository_ApplySettlement_def the_battle_def)
qed

text \<open>The rows of the players are there and their columns fit the C++ types.\<close>

definition rows_readable :: "i64 set \<Rightarrow> tables \<Rightarrow> bool" where
  "rows_readable ps T \<longleftrightarrow>
     (\<forall>p\<in>ps. \<exists>x. um_find (tb_player T) p = Some x \<and> in_i32 (pd_score x) \<and> in_i32 (pd_win_count x) \<and> in_i32 (pd_lose_count x))"

lemma no_faults_FindPlayer:
  assumes d: "innodb api v lit" and n: "no_faults api v" and i: "idle v C m" and r: "rows_readable ps C" "p \<in> ps" "in_i64 p"
    and f: "PlayerRepository_FindPlayer api True p m = (found, m')"
  shows "\<exists>data. found = Inr (Some data)"
proof -
  obtain x where x: "um_find (tb_player C) p = Some x" "in_i32 (pd_score x)" "in_i32 (pd_win_count x)" "in_i32 (pd_lose_count x)"
    using r by (auto simp: rows_readable_def)
  obtain c m1 where h: "has_conn api m = (c, m1)" by fastforce
  then have h1: "has_conn api m = (True, m1)" using no_faults_has_conn [OF n h] i by (simp add: idle_def)
  have v: "(if v_tx (v (my_world m1)) then v_cur (v (my_world m1)) else v_com (v (my_world m1))) = C"
    using has_conn_idle [OF d i h] by (auto simp: idle_def)
  obtain rows m2 where q: "MysqlClient_Query api (SelectPlayer p) m = (rows, m2)" by fastforce
  have "rows = map row_item (select_rows (SelectPlayer p) C)"
    using no_faults_Query_rows [OF d n h1 _ q, unfolded v] by simp
  then have "rows = [player_row p x]" using x(1) by (simp add: player_row_def)
  moreover have "read_player (player_row p x) = Inr (x\<lparr>pd_player_id := p\<rparr>)" using x r(3) by (simp add: read_player_row)
  ultimately show ?thesis using f q by (auto simp: PlayerRepository_FindPlayer_def)
qed

lemma no_faults_refresh_ranks:
  assumes d: "innodb api v lit" and n: "no_faults api v" and rn: "redis_no_faults rapi"
    and ptrs: "mysql_set ptrs" "redis_set ptrs" and r: "rows_readable P C" "\<forall>p\<in>P. in_i64 p"
  shows "set ps \<subseteq> P \<Longrightarrow> idle v C m \<Longrightarrow> fst (refresh_ranks api rapi ptrs ps (m, rd)) = Inr True"
proof (induction ps arbitrary: m rd)
  case (Cons p ps)
  obtain found m1 where f: "PlayerRepository_FindPlayer api True p m = (found, m1)" by fastforce
  obtain data where data: "found = Inr (Some data)"
    using no_faults_FindPlayer [OF d n Cons.prems(2) r(1) _ _ f] Cons.prems(1) r(2) by auto
  obtain ok r1 where u: "RankService_UpdateScore rapi True p (pd_score data) rd = (ok, r1)" by fastforce
  have "ok" using u no_faults_ZAdd [OF rn, of kRankScoreKey "pd_score data" "to_string p" rd]
    by (simp add: RankService_UpdateScore_def)
  then show ?case using Cons.IH [of m1 r1] Cons.prems FindPlayer_idle(1) [OF d Cons.prems(2) f] f data u ptrs by simp
qed simp

lemma settle_one_rows:
  assumes "stmt_ok (score_stmt (bpr_player_id r) (bpr_score_delta r)) T"
  shows "rows_readable {bpr_player_id r} (settle_one lit r T)"
    and "rows_readable ps T \<Longrightarrow> rows_readable ps (settle_one lit r T)"
proof -
  let ?p = "bpr_player_id r"
  have find: "um_find (tb_player (settle_one lit r T)) q =
      (if q = ?p then Some (case um_find (tb_player T) ?p of
          None \<Rightarrow> \<lparr>pd_player_id = ?p, pd_name = lit (''player_'' @ to_string ?p), pd_score = 1000 + bpr_score_delta r,
               pd_win_count = (if bpr_score_delta r > 0 then 1 else 0), pd_lose_count = (if bpr_score_delta r < 0 then 1 else 0)\<rparr>
        | Some x \<Rightarrow> x\<lparr>pd_score := pd_score x + bpr_score_delta r,
            pd_win_count := pd_win_count x + (if bpr_score_delta r > 0 then 1 else 0),
            pd_lose_count := pd_lose_count x + (if bpr_score_delta r < 0 then 1 else 0)\<rparr>)
       else um_find (tb_player T) q)" for q
    by (auto simp: settle_one_def score_stmt_def Let_def split: option.splits)
  have here: "\<exists>x. um_find (tb_player (settle_one lit r T)) ?p = Some x \<and> in_i32 (pd_score x) \<and> in_i32 (pd_win_count x) \<and> in_i32 (pd_lose_count x)"
    using assms unfolding find by (auto simp: score_stmt_def split: option.splits)
  then show "rows_readable {?p} (settle_one lit r T)" by (simp add: rows_readable_def)
  show "rows_readable ps (settle_one lit r T)" if "rows_readable ps T"
    unfolding rows_readable_def
  proof
    fix q assume q: "q \<in> ps"
    show "\<exists>x. um_find (tb_player (settle_one lit r T)) q = Some x \<and> in_i32 (pd_score x) \<and> in_i32 (pd_win_count x) \<and> in_i32 (pd_lose_count x)"
      using here that q by (cases "q = ?p") (simp_all add: find rows_readable_def)
  qed
qed

lemma settle_all_rows:
  "can_settle T rs \<Longrightarrow> distinct (map bpr_player_id rs) \<Longrightarrow> rows_readable ps T \<Longrightarrow>
     rows_readable (ps \<union> bpr_player_id ` set rs) (settle_all lit rs T)"
proof (induction rs arbitrary: T ps)
  case (Cons r rs)
  have ok: "stmt_ok (score_stmt (bpr_player_id r) (bpr_score_delta r)) T" using Cons.prems(1) by (simp add: can_settle_def)
  have "rows_readable (insert (bpr_player_id r) ps) (settle_one lit r T)"
    using settle_one_rows(1) [OF ok, of lit] settle_one_rows(2) [OF ok Cons.prems(3), of lit] by (simp add: rows_readable_def)
  then have "rows_readable (insert (bpr_player_id r) ps \<union> bpr_player_id ` set rs) (settle_all lit rs (settle_one lit r T))"
    using Cons.IH [OF can_settle_rest [OF Cons.prems(1,2)], of "insert (bpr_player_id r) ps"] Cons.prems(2) by simp
  then show ?case by simp
qed simp

lemma settled_rows:
  assumes "can_settle C (the_results bid w ls)" and "w > 0" "\<forall>p\<in>set ls. p > 0"
  shows "rows_readable (insert w (set ls)) (settled_tables lit (the_battle bid room w) (the_results bid w ls) C)"
proof -
  have "distinct (map bpr_player_id (the_results bid w ls))"
    using check_results_sorted [OF check_the_results [OF assms(2,3)]] by (auto simp: strict_sorted_iff)
  from settle_all_rows [OF assms(1) this, of "{}" lit] show ?thesis
    unfolding the_results_players by (simp add: rows_readable_def settled_tables_def)
qed

text \<open>C20. Settlement makes progress, with the leaderboard of the running server (\<open>rank_service\<close> set) or without: while
  MySQL and Redis work without faults, \<open>SettleBattle\<close> returns \<open>true\<close> for valid arguments.  The
  first time, when the battle is not settled, has no results and the rows of the players have room for the new
  counts, exactly one settlement is committed.  A retry of a settlement that was committed before, for
  instance one whose answer was lost or whose leaderboard update failed, also returns \<open>true\<close> and
  changes no table; what the first call leaves behind meets the conditions of the retry.\<close>

theorem SettleBattle_succeeds_without_faults:
  assumes d: "innodb api v lit" and n: "no_faults api v" and rn: "redis_no_faults rapi" and i: "idle v C m"
    and ptrs: "battle_repository_set ptrs" "player_repository_set ptrs" "mysql_set ptrs" "redis_set ptrs"
    and pos: "bid > 0" "room > 0" "w > 0" "\<forall>p\<in>set ls. p > 0 \<and> p \<noteq> w"
    and rng: "in_i64 room" "in_i64 w" "\<forall>p\<in>set ls. in_i64 p"
    and b: "um_find (tb_battle C) bid = Some b" "br_room_id b = room"
    and c: "br_settled b = 0 \<and> battle_results bid C = [] \<and> can_settle C (the_results bid w ls) \<or>
            settled_same (the_battle bid room w) (the_results bid w ls) C \<and> rows_readable (insert w (set ls)) C"
  shows "\<exists>m' r' T. SettlementService_SettleBattle api rapi ptrs bid room w ls (m, r) = (Inr True, m', r') \<and> idle v T m' \<and>
     (if br_settled b = 0 then settlement_effect (the_battle bid room w) (insert w (set ls)) C T else T = C) \<and>
     settled_same (the_battle bid room w) (the_results bid w ls) T \<and> rows_readable (insert w (set ls)) T"
proof -
  let ?b = "the_battle bid room w" and ?rs = "the_results bid w ls" and ?P = "insert w (set ls)"
  have pos': "\<forall>p\<in>set ls. p > 0" using pos(4) by blast
  obtain a m1 where a: "BattleRepository_ApplySettlement api True ?b ?rs m = (a, m1)" by fastforce
  have "a = Inr True"
    using no_faults_ApplySettlement [OF d n i pos(1-3) pos' rng b] c a by auto
  then have "BattleRepository_ApplySettlement api True ?b ?rs m = (Inr True, m1)" using a by simp
  note at = ApplySettlement_atomic [OF d i this, unfolded the_results_def results_ordered, folded the_results_def]
  have unset: "unsettled ?b C \<longleftrightarrow> br_settled b = 0"
    using b c by (auto simp: unsettled_def the_battle_def settled_same_def)
  obtain T where T: "idle v T m1" "if br_settled b = 0 then settlement_effect ?b ?P C T else T = C" "settled_same ?b ?rs T" "rows_readable ?P T"
  proof (cases "br_settled b = 0")
    case True
    then have u: "unsettled ?b C" "battle_results (bt_battle_id ?b) C = []" "can_settle C ?rs"
      using unset c settled_not_unsettled by (auto simp: the_battle_def)
    have chk: "check_results ?b ?rs 0 0 = Some 1" by (rule check_the_results [OF pos(3) pos'])
    have "idle v (settled_tables lit ?b ?rs C) m1" using at u(1) settled_not_unsettled by blast
    then show ?thesis using that settled_tables_effect [OF chk u(1), of lit, unfolded the_results_players]
        settled_tables_same [OF chk u(1,2), of lit] settled_rows [OF u(3) pos(3) pos'] True by simp
  next
    case False
    then have "settled_same ?b ?rs C" "rows_readable ?P C" "\<not> unsettled ?b C" using c unset by auto
    then show ?thesis using that at False by auto
  qed
  obtain res m2 r2 where f: "refresh_ranks api rapi ptrs (participants w ls) (m1, r) = (res, m2, r2)" by (metis surj_pair)
  have "res = Inr True"
    using no_faults_refresh_ranks [OF d n rn ptrs(3,4) T(4) _ _ T(1), of "participants w ls" r] rng f by simp
  moreover have "idle v T m2" by (rule refresh_ranks_idle [OF d T(1) f])
  moreover have "SettlementService_SettleBattle api rapi ptrs bid room w ls (m, r) =
      (if rank_service_set ptrs then refresh_ranks api rapi ptrs (participants w ls) (m1, r) else (Inr True, m1, r))"
    using a \<open>a = Inr True\<close> ptrs pos unfolding SettlementService_SettleBattle_def the_battle_def the_results_def by auto
  ultimately show ?thesis using f T by (cases "rank_service_set ptrs") auto
qed

lemma can_settle0: "can_settle tables0 (the_results 1 9 [7])"
  by (simp add: can_settle_def tables0_def the_results_def participant_result_def participants_def score_stmt_def
      in_i32_def in_i64_def)

text \<open>With the pointers of the server: the first settlement of the battle of players 7 and 9, and its retry.\<close>

theorem SettleBattle_succeeds_without_faults_witness:
  "\<exists>m1 r1 m2 r2 T. rank_service_set ptrs0 \<and>
     SettlementService_SettleBattle (sim_api False) sim_redis ptrs0 1 1000 9 [7] (mysql0 [], redis0) = (Inr True, m1, r1) \<and>
     SettlementService_SettleBattle (sim_api False) sim_redis ptrs0 1 1000 9 [7] (m1, r1) = (Inr True, m2, r2) \<and>
     settlement_effect (the_battle 1 1000 9) {9, 7} tables0 T \<and> idle sim_view T m1 \<and> idle sim_view T m2"
proof -
  have p: "battle_repository_set ptrs0" "player_repository_set ptrs0" "mysql_set ptrs0" "redis_set ptrs0" "rank_service_set ptrs0"
    by (simp_all add: ptrs0_def)
  note step = SettleBattle_succeeds_without_faults [OF sim_innodb sim_no_faults sim_redis_no_faults _ p(1-4),
      where bid = 1 and room = 1000 and w = 9 and ls = "[7]"]
  obtain m1 r1 T where s: "SettlementService_SettleBattle (sim_api False) sim_redis ptrs0 1 1000 9 [7] (mysql0 [], redis0)
       = (Inr True, m1, r1)" "idle sim_view T m1" "settlement_effect (the_battle 1 1000 9) {9, 7} tables0 T"
      "settled_same (the_battle 1 1000 9) (the_results 1 9 [7]) T" "rows_readable {9, 7} T"
    using step [where r = redis0, OF mysql0_idle [of "[]"] _ _ _ _ _ _ _ tables0_battle(1)] tables0_battle(2) can_settle0
    by (simp add: in_i64_def) blast
  obtain b where b: "um_find (tb_battle T) 1 = Some b" "br_room_id b = 1000" "br_settled b = 1"
    using s(4) by (auto simp: settled_same_def the_battle_def)
  obtain m2 r2 where "SettlementService_SettleBattle (sim_api False) sim_redis ptrs0 1 1000 9 [7] (m1, r1) = (Inr True, m2, r2)"
      "idle sim_view T m2"
    using step [where r = r1, OF s(2) _ _ _ _ _ _ _ b(1,2)] s(4,5) b(3) by (auto simp: in_i64_def)
  then show ?thesis using s p(5) by blast
qed

text \<open>The leaderboard after one settlement without faults.\<close>

theorem SettleBattle_leaderboard_in_sync_witness:
  "\<exists>m' r' T. SettlementService_SettleBattle (sim_api True) sim_redis ptrs0 1 1000 9 [7] (mysql0 [], redis0)
       = (Inr True, m', r') \<and> idle sim_view T m' \<and>
     (\<forall>p\<in>{9, 7}. map_of (sim_zset (rd_world r') kRankScoreKey) (to_string p) = Some (score_of T p))"
proof -
  have "fst (SettlementService_SettleBattle (sim_api True) sim_redis ptrs0 1 1000 9 [7] (mysql0 [], redis0)) = Inr True"
    by code_simp
  then obtain m' r' where e: "SettlementService_SettleBattle (sim_api True) sim_redis ptrs0 1 1000 9 [7] (mysql0 [], redis0)
      = (Inr True, m', r')" by (metis prod.collapse)
  have "rank_service_set ptrs0" by (simp add: ptrs0_def)
  from SettleBattle_leaderboard_in_sync [OF sim_innodb sim_redis_laws mysql0_idle this e] show ?thesis
    using e by auto
qed

end
