(* ===== verification/Player_Manager.thy ===== *)
theory Player_Manager
  imports Net Cpp_Strings
begin

text \<open>
  Players in memory: \<open>src/src/player/player.h\<close>, \<open>player.cpp\<close>, \<open>player_manager.h\<close> and
  \<open>player_manager.cpp\<close>.  A \<open>Player\<close> object is created once per id and its entry is neither replaced nor
  erased, so a \<open>PlayerPtr\<close> is the id of the entry and writing through it is \<open>um_modify\<close>.
\<close>

datatype PlayerStatus = Offline | Online | Matching | InRoom | InBattle

record Player =
  pl_id :: i64
  pl_name :: string
  pl_score :: i32
  pl_status :: PlayerStatus
  pl_room_id :: i64

definition Player_new :: "i64 \<Rightarrow> string \<Rightarrow> Player" where
  "Player_new pid name = \<lparr>pl_id = pid, pl_name = name, pl_score = 1000, pl_status = Offline, pl_room_id = 0\<rparr>"

definition SetStatus :: "PlayerStatus \<Rightarrow> Player \<Rightarrow> Player" where "SetStatus st p = p\<lparr>pl_status := st\<rparr>"
definition SetScore :: "i32 \<Rightarrow> Player \<Rightarrow> Player" where "SetScore sc p = p\<lparr>pl_score := sc\<rparr>"
definition SetPlayerRoomId :: "i64 \<Rightarrow> Player \<Rightarrow> Player" where "SetPlayerRoomId r p = p\<lparr>pl_room_id := r\<rparr>"

lemmas player_setters = SetStatus_def SetScore_def SetPlayerRoomId_def

record player_manager =
  players :: "(i64, Player) umap"
  online_sessions :: "(i64, sptr option) umap"

definition PlayerManager_GetOrCreatePlayer :: "i64 \<Rightarrow> string \<Rightarrow> player_manager \<Rightarrow> player_manager" where
  "PlayerManager_GetOrCreatePlayer pid name pm =
     (if um_has (players pm) pid then pm
      else pm\<lparr>players := um_put pid (Player_new pid (if name = [] then ''player_'' @ to_string pid else name))
                (players pm)\<rparr>)"

definition PlayerManager_GetPlayer :: "i64 \<Rightarrow> player_manager \<Rightarrow> Player option" where
  "PlayerManager_GetPlayer pid pm = um_find (players pm) pid"

definition PlayerManager_SetOnline :: "i64 \<Rightarrow> sptr option \<Rightarrow> player_manager \<Rightarrow> player_manager" where
  "PlayerManager_SetOnline pid session pm =
     pm\<lparr>online_sessions := um_put pid session (online_sessions pm),
        players := um_modify pid (SetStatus Online) (players pm)\<rparr>"

definition PlayerManager_SetOffline :: "i64 \<Rightarrow> player_manager \<Rightarrow> player_manager" where
  "PlayerManager_SetOffline pid pm =
     pm\<lparr>online_sessions := um_erase pid (online_sessions pm),
        players := um_modify pid (SetStatus Offline) (players pm)\<rparr>"

definition PlayerManager_IsOnline :: "i64 \<Rightarrow> player_manager \<Rightarrow> bool" where
  "PlayerManager_IsOnline pid pm = um_has (online_sessions pm) pid"

text \<open>Writing through the pointer that \<open>GetOrCreatePlayer\<close> returned.\<close>

definition on_player :: "i64 \<Rightarrow> (Player \<Rightarrow> Player) \<Rightarrow> player_manager \<Rightarrow> player_manager" where
  "on_player pid f pm = pm\<lparr>players := um_modify pid f (players pm)\<rparr>"

subsection \<open>The interface of the player table\<close>

text \<open>What the services rely on: after \<open>GetOrCreatePlayer\<close> the player exists, is the old one if there was
  one, and a write through the pointer changes that player only.\<close>

locale player_store =
  fixes get :: "'pm \<Rightarrow> i64 \<Rightarrow> Player option"
    and get_or_create :: "i64 \<Rightarrow> string \<Rightarrow> 'pm \<Rightarrow> 'pm"
    and modify :: "i64 \<Rightarrow> (Player \<Rightarrow> Player) \<Rightarrow> 'pm \<Rightarrow> 'pm"
  assumes created: "get (get_or_create p nm pm) p =
      Some (case get pm p of None \<Rightarrow> Player_new p (if nm = [] then ''player_'' @ to_string p else nm) | Some x \<Rightarrow> x)"
    and created_other: "q \<noteq> p \<Longrightarrow> get (get_or_create p nm pm) q = get pm q"
    and modified: "get (modify p f pm) q = (if q = p then map_option f (get pm q) else get pm q)"
begin

definition set_player :: "i64 \<Rightarrow> (Player \<Rightarrow> Player) \<Rightarrow> 'pm \<Rightarrow> 'pm" where
  "set_player p f pm = modify p f (get_or_create p [] pm)"

lemma set_player_same:
  "get (set_player p f pm) p =
     Some (f (case get pm p of None \<Rightarrow> Player_new p (''player_'' @ to_string p) | Some x \<Rightarrow> x))"
  by (simp add: set_player_def modified created)

lemma set_player_other: "q \<noteq> p \<Longrightarrow> get (set_player p f pm) q = get pm q"
  by (simp add: set_player_def modified created_other)

lemma fold_set_player_other: "q \<notin> set ps \<Longrightarrow> get (fold (\<lambda>p. set_player p (f p)) ps pm) q = get pm q"
  by (induction ps arbitrary: pm) (simp_all add: set_player_other)

lemma fold_set_player_const:
  assumes idem: "\<And>x. pl_status (f x) = st \<and> pl_room_id (f x) = r"
  shows "p \<in> set ps \<Longrightarrow> \<exists>x. get (fold (\<lambda>p. set_player p f) ps pm) p = Some x \<and> pl_status x = st \<and> pl_room_id x = r"
proof (induction ps arbitrary: pm)
  case (Cons q ps)
  show ?case
  proof (cases "p \<in> set ps")
    case True
    then show ?thesis using Cons.IH by simp
  next
    case False
    then have "p = q" using Cons.prems by simp
    then show ?thesis
      using fold_set_player_other [OF False, of "\<lambda>_. f"] idem by (simp add: set_player_same)
  qed
qed simp

end

interpretation pm: player_store "\<lambda>pm p. PlayerManager_GetPlayer p pm" PlayerManager_GetOrCreatePlayer on_player
  by unfold_locales
     (auto simp: PlayerManager_GetPlayer_def PlayerManager_GetOrCreatePlayer_def on_player_def split: option.splits)

text \<open>\<open>auto player = GetOrCreatePlayer(id); player->...\<close>\<close>

definition with_player :: "i64 \<Rightarrow> (Player \<Rightarrow> Player) \<Rightarrow> player_manager \<Rightarrow> player_manager" where
  "with_player pid f pm = on_player pid f (PlayerManager_GetOrCreatePlayer pid [] pm)"

lemma with_player_set: "with_player = pm.set_player"
  by (intro ext) (simp add: with_player_def pm.set_player_def)

lemma with_player_find [simp]:
  "um_find (players (with_player p f pm)) q =
     (if q = p then Some (f (case um_find (players pm) p of None \<Rightarrow> Player_new p (''player_'' @ to_string p) | Some x \<Rightarrow> x))
      else um_find (players pm) q)"
  using pm.set_player_same [of p f pm] pm.set_player_other [of q p f pm]
  by (simp add: with_player_set PlayerManager_GetPlayer_def)

lemma pm_frame [simp]:
  "online_sessions (with_player p f pm) = online_sessions pm"
  "online_sessions (on_player p f pm) = online_sessions pm"
  "online_sessions (PlayerManager_GetOrCreatePlayer p nm pm) = online_sessions pm"
  by (simp_all add: with_player_def on_player_def PlayerManager_GetOrCreatePlayer_def)

end
