(* ===== verification/Game_Loop.thy ===== *)
theory Game_Loop
  imports Game_Room
begin

text \<open>
  The fixed-tick loop: \<open>src/src/game/game_loop.h\<close> and \<open>game_loop.cpp\<close>.  A \<open>GameRoom\<close> object is shared
  between the table \<open>rooms_\<close> and the list that a round of the loop copies; the table entry is the
  object.  A room that is erased while a round runs is still ticked by the code, through its own
  pointer; nothing can observe that object any more, except the callback, which does nothing for a
  room that the room manager no longer knows.  The loop thread runs \<open>loop_round\<close> again and again, with a
  sleep in between, until \<open>Stop\<close>.
\<close>

record 'f game_loop =
  gl_tick_interval_ms :: i32
  gl_rooms :: "(i64, 'f GameRoom) umap"
  gl_running :: bool

definition GameLoop_new :: "i32 \<Rightarrow> 'f game_loop" where
  "GameLoop_new tick_interval_ms =
     \<lparr>gl_tick_interval_ms = (if tick_interval_ms > 0 then tick_interval_ms else 50), gl_rooms = [], gl_running = False\<rparr>"

text \<open>The result says whether a worker thread is started.\<close>

definition GameLoop_Start :: "'f game_loop \<Rightarrow> bool \<times> 'f game_loop" where
  "GameLoop_Start gl = (\<not> gl_running gl, gl\<lparr>gl_running := True\<rparr>)"

definition GameLoop_Stop :: "'f game_loop \<Rightarrow> bool \<times> 'f game_loop" where
  "GameLoop_Stop gl = (gl_running gl, gl\<lparr>gl_running := False\<rparr>)"

definition GameLoop_AddRoom :: "'f GameRoom option \<Rightarrow> 'f game_loop \<Rightarrow> 'f game_loop" where
  "GameLoop_AddRoom room gl =
     (case room of None \<Rightarrow> gl | Some g \<Rightarrow> gl\<lparr>gl_rooms := um_put (gr_room_id g) g (gl_rooms gl)\<rparr>)"

definition GameLoop_RemoveRoom :: "i64 \<Rightarrow> 'f game_loop \<Rightarrow> 'f game_loop" where
  "GameLoop_RemoveRoom rid gl = gl\<lparr>gl_rooms := um_erase rid (gl_rooms gl)\<rparr>"

definition GameLoop_GetRoom :: "i64 \<Rightarrow> 'f game_loop \<Rightarrow> 'f GameRoom option" where
  "GameLoop_GetRoom rid gl = um_find (gl_rooms gl) rid"

text \<open>Writing through a pointer that \<open>GetRoom\<close> returned.\<close>

definition on_game_room :: "i64 \<Rightarrow> ('f GameRoom \<Rightarrow> 'f GameRoom) \<Rightarrow> 'f game_loop \<Rightarrow> 'f game_loop" where
  "on_game_room rid f gl = gl\<lparr>gl_rooms := um_modify rid f (gl_rooms gl)\<rparr>"

text \<open>One round over the copied list of rooms, on a state that contains the loop: \<open>get\<close> and \<open>put\<close> read
  and write the loop in the state, \<open>callback\<close> is the tick callback.\<close>

fun loop_rooms ::
    "('s \<Rightarrow> 'f game_loop) \<Rightarrow> (('f game_loop \<Rightarrow> 'f game_loop) \<Rightarrow> 's \<Rightarrow> 's) \<Rightarrow> 'f float_ops
       \<Rightarrow> (i64 \<Rightarrow> 'f GameState \<Rightarrow> bool \<Rightarrow> i64 \<Rightarrow> 's \<Rightarrow> 's) option \<Rightarrow> i64 list \<Rightarrow> 's \<Rightarrow> 's" where
  "loop_rooms get upd F callback [] s = s"
| "loop_rooms get upd F callback (rid # rids) s =
     loop_rooms get upd F callback rids
       (case GameLoop_GetRoom rid (get s) of
          None \<Rightarrow> s
        | Some g \<Rightarrow>
            let g' = GameRoom_Tick F g;
                s1 = upd (on_game_room rid (\<lambda>_. g')) s
            in case callback of
                 None \<Rightarrow> s1
               | Some cb \<Rightarrow> cb (gr_room_id g') (gr_state g') (game_over g') (winner_id g') s1)"

definition loop_round ::
    "('s \<Rightarrow> 'f game_loop) \<Rightarrow> (('f game_loop \<Rightarrow> 'f game_loop) \<Rightarrow> 's \<Rightarrow> 's) \<Rightarrow> 'f float_ops
       \<Rightarrow> (i64 \<Rightarrow> 'f GameState \<Rightarrow> bool \<Rightarrow> i64 \<Rightarrow> 's \<Rightarrow> 's) option \<Rightarrow> 's \<Rightarrow> 's" where
  "loop_round get upd F callback s =
     (if gl_running (get s) then loop_rooms get upd F callback (um_keys (gl_rooms (get s))) s else s)"

text \<open>An invariant of the state that ticking a room and the callback keep is kept by a round.\<close>

lemma loop_rooms_invariant:
  assumes tick: "\<And>s rid g. I s \<Longrightarrow> GameLoop_GetRoom rid (get s) = Some g \<Longrightarrow>
      I (upd (on_game_room rid (\<lambda>_. GameRoom_Tick F g)) s)"
    and cb: "\<And>cb s rid st go w. callback = Some cb \<Longrightarrow> I s \<Longrightarrow> I (cb rid st go w s)"
  shows "I s \<Longrightarrow> I (loop_rooms get upd F callback rids s)"
proof (induction rids arbitrary: s)
  case (Cons rid rids)
  have "I (case GameLoop_GetRoom rid (get s) of
          None \<Rightarrow> s
        | Some g \<Rightarrow>
            let g' = GameRoom_Tick F g;
                s1 = upd (on_game_room rid (\<lambda>_. g')) s
            in case callback of
                 None \<Rightarrow> s1
               | Some cb \<Rightarrow> cb (gr_room_id g') (gr_state g') (game_over g') (winner_id g') s1)"
    using Cons.prems tick cb by (auto simp: Let_def split: option.splits)
  from Cons.IH [OF this] show ?case by simp
qed simp

lemma GetRoom_simps [simp]:
  "GameLoop_GetRoom q (GameLoop_AddRoom (Some g) gl) = (if q = gr_room_id g then Some g else GameLoop_GetRoom q gl)"
  "GameLoop_GetRoom q (GameLoop_RemoveRoom r gl) = (if q = r then None else GameLoop_GetRoom q gl)"
  "GameLoop_GetRoom q (on_game_room r f gl) = (if q = r then map_option f (GameLoop_GetRoom q gl) else GameLoop_GetRoom q gl)"
  by (simp_all add: GameLoop_GetRoom_def GameLoop_AddRoom_def GameLoop_RemoveRoom_def on_game_room_def)

subsection \<open>A running battle keeps its players\<close>

lemma spawn_players_keys: "fst ` set (spawn_players F x pids ps) = set pids \<union> fst ` set ps"
  by (induction F x pids ps rule: spawn_players.induct) auto

lemma apply_players_keys: "um_keys (apply_players F i ps) = um_keys ps"
  by (auto simp: apply_players_def Let_def o_def split_beta split: option.splits)

lemma CheckGameOver_room [simp]:
  "gr_players (GameRoom_CheckGameOver g) = gr_players g" "gr_room_id (GameRoom_CheckGameOver g) = gr_room_id g"
  by (simp_all add: CheckGameOver_eq)

lemma fold_ApplyInput_keys:
  "um_keys (gr_players (fold (GameRoom_ApplyInput F) inputs g)) = um_keys (gr_players g) \<and>
   gr_room_id (fold (GameRoom_ApplyInput F) inputs g) = gr_room_id g"
  by (induction inputs arbitrary: g) (simp_all add: GameRoom_ApplyInput_def apply_players_keys del: list.map)

lemma game_room_keys:
  "um_keys (gr_players (GameRoom_Tick F g)) = um_keys (gr_players g)"
  "um_keys (gr_players (GameRoom_HandleInput i g)) = um_keys (gr_players g)"
  "um_keys (gr_players (GameRoom_EliminatePlayer p g)) = um_keys (gr_players g)"
  "gr_room_id (GameRoom_Tick F g) = gr_room_id g"
  "gr_room_id (GameRoom_HandleInput i g) = gr_room_id g"
  "gr_room_id (GameRoom_EliminatePlayer p g) = gr_room_id g"
  by (auto simp: GameRoom_Tick_def InputBuffer_PopAll_def Let_def fold_ApplyInput_keys GameRoom_HandleInput_def
      GameRoom_EliminatePlayer_def split: option.splits)

end
