(* ===== verification/Server_State.thy ===== *)
theory Server_State
  imports Room Match_Queue Player_Manager Game_Loop Settlement_Service
begin

text \<open>
  The state of the running server: the members of \<open>GameServer\<close> (\<open>src/src/server/game_server.h\<close>), of the
  services it owns, the \<open>ServiceContext\<close> (\<open>service_context.h\<close>) that connects them and the counters of
  \<open>src/src/util/id_generator.h\<close>.  A handler is a function on this state.  A worker thread runs a handler
  at a time; the model runs handlers one after the other.  \<open>now\<close> arguments are clock readings.
\<close>

text \<open>Which pointers of the context are set; all are false when \<open>context_\<close> is null.\<close>

record service_context =
  connection_manager_set :: bool
  player_manager_set :: bool
  room_manager_set :: bool
  match_service_set :: bool
  game_loop_set :: bool
  sc_player_repository_set :: bool

record id_counters =
  next_player_id :: i64
  next_room_id :: i64
  next_session_id :: i64

definition id_counters_init :: id_counters where
  "id_counters_init = \<lparr>next_player_id = 100000, next_room_id = 1000, next_session_id = 1\<rparr>"

record PendingSettlement =
  pend_battle_id :: i64
  pend_next_attempt :: int

record ('f, 'd, 'r) server =
  sv_net :: "'f net"
  sv_ids :: id_counters
  sv_pm :: player_manager
  sv_rooms :: "(i64, room) umap"
  player_room_map :: "(i64, i64) umap"
  sv_queue :: match_queue
  sv_loop :: "'f game_loop"
  account_players :: "(string, i64) umap"
  session_tokens :: "(i64, string) umap"
  pending_settlements :: "(i64, PendingSettlement) umap"
  sv_mysql :: "'d mysql"
  sv_redis :: "'r redis"
  sv_config :: config

text \<open>What does not change while the server runs: the context, the arithmetic and the two drivers.\<close>

record ('f, 'd, 'r) env =
  ctx :: service_context
  floats :: "'f float_ops"
  mysql_of :: "'d mysql_api"
  redis_of :: "'r hiredis"

definition NextPlayerId :: "('f, 'd, 'r) server \<Rightarrow> i64 \<times> ('f, 'd, 'r) server" where
  "NextPlayerId s = (next_player_id (sv_ids s),
     s\<lparr>sv_ids := (sv_ids s)\<lparr>next_player_id := wrap64 (next_player_id (sv_ids s) + 1)\<rparr>\<rparr>)"

definition NextRoomId :: "('f, 'd, 'r) server \<Rightarrow> i64 \<times> ('f, 'd, 'r) server" where
  "NextRoomId s = (next_room_id (sv_ids s),
     s\<lparr>sv_ids := (sv_ids s)\<lparr>next_room_id := wrap64 (next_room_id (sv_ids s) + 1)\<rparr>\<rparr>)"

definition NextSessionId :: "('f, 'd, 'r) server \<Rightarrow> i64 \<times> ('f, 'd, 'r) server" where
  "NextSessionId s = (next_session_id (sv_ids s),
     s\<lparr>sv_ids := (sv_ids s)\<lparr>next_session_id := wrap64 (next_session_id (sv_ids s) + 1)\<rparr>\<rparr>)"

abbreviation on_net :: "('f net \<Rightarrow> 'f net) \<Rightarrow> ('f, 'd, 'r) server \<Rightarrow> ('f, 'd, 'r) server" where
  "on_net f s \<equiv> s\<lparr>sv_net := f (sv_net s)\<rparr>"

abbreviation on_pm :: "(player_manager \<Rightarrow> player_manager) \<Rightarrow> ('f, 'd, 'r) server \<Rightarrow> ('f, 'd, 'r) server" where
  "on_pm f s \<equiv> s\<lparr>sv_pm := f (sv_pm s)\<rparr>"

abbreviation on_loop :: "('f game_loop \<Rightarrow> 'f game_loop) \<Rightarrow> ('f, 'd, 'r) server \<Rightarrow> ('f, 'd, 'r) server" where
  "on_loop f s \<equiv> s\<lparr>sv_loop := f (sv_loop s)\<rparr>"

definition send :: "sptr \<Rightarrow> MessageId \<Rightarrow> 'f message \<Rightarrow> ('f, 'd, 'r) server \<Rightarrow> ('f, 'd, 'r) server" where
  "send ses mid msg s = on_net (Session_Send ses mid msg) s"

definition broadcast :: "i64 \<Rightarrow> MessageId \<Rightarrow> 'f message \<Rightarrow> ('f, 'd, 'r) server \<Rightarrow> ('f, 'd, 'r) server" where
  "broadcast rid mid msg s =
     (case um_find (sv_rooms s) rid of None \<Rightarrow> s | Some r \<Rightarrow> on_net (Room_Broadcast r mid msg) s)"

definition GetByPlayerId :: "i64 \<Rightarrow> ('f, 'd, 'r) server \<Rightarrow> sptr option" where
  "GetByPlayerId pid s = ConnectionManager_GetByPlayerId pid (sv_net s)"

definition player_of :: "sptr \<Rightarrow> ('f, 'd, 'r) server \<Rightarrow> i64" where
  "player_of ses s = Session_PlayerId ses (sv_net s)"

definition room_of :: "sptr \<Rightarrow> ('f, 'd, 'r) server \<Rightarrow> i64" where
  "room_of ses s = Session_RoomId ses (sv_net s)"

lemmas server_defs = send_def broadcast_def GetByPlayerId_def player_of_def room_of_def

lemma send_frame [simp]:
  "sv_ids (send ses mid msg s) = sv_ids s" "sv_pm (send ses mid msg s) = sv_pm s"
  "sv_rooms (send ses mid msg s) = sv_rooms s" "player_room_map (send ses mid msg s) = player_room_map s"
  "sv_queue (send ses mid msg s) = sv_queue s" "sv_loop (send ses mid msg s) = sv_loop s"
  "account_players (send ses mid msg s) = account_players s" "session_tokens (send ses mid msg s) = session_tokens s"
  "pending_settlements (send ses mid msg s) = pending_settlements s" "sv_mysql (send ses mid msg s) = sv_mysql s"
  "sv_redis (send ses mid msg s) = sv_redis s" "sv_config (send ses mid msg s) = sv_config s"
  "heap (sv_net (send ses mid msg s)) = heap (sv_net s)"
  "player_sessions (sv_net (send ses mid msg s)) = player_sessions (sv_net s)"
  "sessions (sv_net (send ses mid msg s)) = sessions (sv_net s)"
  "closing (sv_net (send ses mid msg s)) = closing (sv_net s)"
  by (simp_all add: send_def)

lemma broadcast_frame [simp]:
  "sv_ids (broadcast rid mid msg s) = sv_ids s" "sv_pm (broadcast rid mid msg s) = sv_pm s"
  "sv_rooms (broadcast rid mid msg s) = sv_rooms s" "player_room_map (broadcast rid mid msg s) = player_room_map s"
  "sv_queue (broadcast rid mid msg s) = sv_queue s" "sv_loop (broadcast rid mid msg s) = sv_loop s"
  "account_players (broadcast rid mid msg s) = account_players s"
  "session_tokens (broadcast rid mid msg s) = session_tokens s"
  "pending_settlements (broadcast rid mid msg s) = pending_settlements s" "sv_mysql (broadcast rid mid msg s) = sv_mysql s"
  "sv_redis (broadcast rid mid msg s) = sv_redis s" "sv_config (broadcast rid mid msg s) = sv_config s"
  "heap (sv_net (broadcast rid mid msg s)) = heap (sv_net s)"
  "player_sessions (sv_net (broadcast rid mid msg s)) = player_sessions (sv_net s)"
  "sessions (sv_net (broadcast rid mid msg s)) = sessions (sv_net s)"
  "closing (sv_net (broadcast rid mid msg s)) = closing (sv_net s)"
  by (simp_all add: broadcast_def split: option.splits)

text \<open>The context after \<open>GameServer::Init\<close>: everything is set.  And a server before the first connection.\<close>

definition full_context :: service_context where
  "full_context = \<lparr>connection_manager_set = True, player_manager_set = True, room_manager_set = True,
     match_service_set = True, game_loop_set = True, sc_player_repository_set = True\<rparr>"

definition empty_server :: "config \<Rightarrow> 'd mysql \<Rightarrow> 'r redis \<Rightarrow> ('f, 'd, 'r) server" where
  "empty_server cfg m r =
     \<lparr>sv_net = \<lparr>heap = (\<lambda>_. Session_new 0 0), sessions = [], player_sessions = [], outbox = [], closing = []\<rparr>,
      sv_ids = id_counters_init, sv_pm = \<lparr>players = [], online_sessions = []\<rparr>, sv_rooms = [], player_room_map = [],
      sv_queue = MatchQueue_empty, sv_loop = GameLoop_new (tick_interval_ms cfg), account_players = [],
      session_tokens = [], pending_settlements = [], sv_mysql = m, sv_redis = r, sv_config = cfg\<rparr>"

end
