(* ===== verification/Room_Table.thy ===== *)
theory Room_Table
  imports Server_State
begin

text \<open>
  The room manager, \<open>src/src/room/room_manager.h\<close> and \<open>room_manager.cpp\<close>: creating, finding, removing and
  starting rooms, and the handlers for ready and input requests.  The handlers for leaving a room are
  in \<open>Room_Manager\<close>, since they use the match service.

  A \<open>RoomPtr\<close> is the key of the room in \<open>rooms_\<close>.  A request is \<open>None\<close> when \<open>ProtoHelper::Parse\<close> fails.
\<close>

type_synonym RoomPtr = i64

definition on_room :: "RoomPtr \<Rightarrow> (room \<Rightarrow> room) \<Rightarrow> ('f, 'd, 'r) server \<Rightarrow> ('f, 'd, 'r) server" where
  "on_room rid f s = s\<lparr>sv_rooms := um_modify rid f (sv_rooms s)\<rparr>"

text \<open>One turn of the loop of \<open>CreateRoom\<close> that enters the players.\<close>

definition enter_room :: "service_context \<Rightarrow> i64 \<Rightarrow> i64 \<Rightarrow> ('f, 'd, 'r) server \<Rightarrow> ('f, 'd, 'r) server" where
  "enter_room c rid pid s =
     (let s1 = s\<lparr>player_room_map := um_put pid rid (player_room_map s)\<rparr>
      in if connection_manager_set c
         then (case GetByPlayerId pid s1 of
                 None \<Rightarrow> s1 | Some ses \<Rightarrow> on_net (Session_SetRoomId ses rid) s1)
         else s1)"

definition RoomManager_CreateRoom ::
    "service_context \<Rightarrow> i64 list \<Rightarrow> ('f, 'd, 'r) server \<Rightarrow> RoomPtr \<times> ('f, 'd, 'r) server" where
  "RoomManager_CreateRoom c player_ids s =
     (let (rid, s1) = NextRoomId s;
          new_room = fold (\<lambda>pid r. snd (Room_AddPlayer pid r)) player_ids (Room_new rid (connection_manager_set c));
          s2 = s1\<lparr>sv_rooms := um_put rid new_room (sv_rooms s1)\<rparr>
      in (rid, fold (enter_room c rid) player_ids s2))"

definition RoomManager_GetRoom :: "i64 \<Rightarrow> ('f, 'd, 'r) server \<Rightarrow> room option" where
  "RoomManager_GetRoom rid s = um_find (sv_rooms s) rid"

text \<open>One turn of the second loop of \<open>RemoveRoom\<close>.\<close>

definition release_player :: "service_context \<Rightarrow> i64 \<Rightarrow> ('f, 'd, 'r) server \<Rightarrow> ('f, 'd, 'r) server" where
  "release_player c pid s =
     (let session = (if connection_manager_set c then GetByPlayerId pid s else None);
          s1 = (case session of None \<Rightarrow> s | Some ses \<Rightarrow> on_net (Session_SetRoomId ses 0) s)
      in if player_manager_set c
         then on_pm (with_player pid (SetStatus (if session \<noteq> None then Online else Offline) \<circ> SetPlayerRoomId 0)) s1
         else s1)"

definition RoomManager_RemoveRoom :: "service_context \<Rightarrow> i64 \<Rightarrow> ('f, 'd, 'r) server \<Rightarrow> ('f, 'd, 'r) server" where
  "RoomManager_RemoveRoom c rid s =
     (let player_ids = (case um_find (sv_rooms s) rid of None \<Rightarrow> [] | Some r \<Rightarrow> Room_PlayerIds r);
          s1 = s\<lparr>player_room_map := fold um_erase player_ids (player_room_map s),
                 sv_rooms := um_erase rid (sv_rooms s)\<rparr>;
          s2 = fold (release_player c) player_ids s1
      in if game_loop_set c then on_loop (GameLoop_RemoveRoom rid) s2 else s2)"

text \<open>The pointer together with the object it points to.\<close>

definition RoomManager_GetPlayerRoom :: "i64 \<Rightarrow> ('f, 'd, 'r) server \<Rightarrow> (RoomPtr \<times> room) option" where
  "RoomManager_GetPlayerRoom pid s =
     (case um_find (player_room_map s) pid of
        None \<Rightarrow> None
      | Some rid \<Rightarrow> (case um_find (sv_rooms s) rid of None \<Rightarrow> None | Some r \<Rightarrow> Some (rid, r)))"

definition start_player :: "service_context \<Rightarrow> i64 \<Rightarrow> i64 \<Rightarrow> ('f, 'd, 'r) server \<Rightarrow> ('f, 'd, 'r) server" where
  "start_player c rid pid s =
     (if player_manager_set c then on_pm (with_player pid (SetPlayerRoomId rid \<circ> SetStatus InBattle)) s else s)"

definition RoomManager_StartGameRoom ::
    "('f, 'd, 'r) env \<Rightarrow> RoomPtr option \<Rightarrow> ('f, 'd, 'r) server \<Rightarrow> ('f, 'd, 'r) server" where
  "RoomManager_StartGameRoom env ptr s =
     (case ptr of
        None \<Rightarrow> s
      | Some p \<Rightarrow>
          (case um_find (sv_rooms s) p of
             None \<Rightarrow> s
           | Some r \<Rightarrow>
               if \<not> game_loop_set (ctx env) then s
               else
                 let player_ids = Room_PlayerIds r;
                     g = GameRoom_Start (floats env) player_ids (GameRoom_new (room_id r));
                     s1 = on_loop (GameLoop_AddRoom (Some g)) s;
                     s2 = fold (start_player (ctx env) (room_id r)) player_ids s1
                 in broadcast p MSG_ROOM_STATE_NOTIFY
                      (RoomStateNotify (room_id r) (room_state_value Playing) player_ids) s2))"

definition RoomManager_HandleReady ::
    "('f, 'd, 'r) env \<Rightarrow> sptr option \<Rightarrow> bool option \<Rightarrow> ('f, 'd, 'r) server \<Rightarrow> ('f, 'd, 'r) server" where
  "RoomManager_HandleReady env session request s =
     (case session of
        None \<Rightarrow> s
      | Some ses \<Rightarrow>
          (case request of
             None \<Rightarrow> s
           | Some rdy \<Rightarrow>
               (case RoomManager_GetPlayerRoom (player_of ses s) s of
                  None \<Rightarrow> s
                | Some (p, r) \<Rightarrow>
                    let (started, r', n') = Room_SetReadyAndTryStart (player_of ses s) rdy r (sv_net s);
                        s1 = (on_room p (\<lambda>_. r') s)\<lparr>sv_net := n'\<rparr>
                    in if started then RoomManager_StartGameRoom env (Some p) s1 else s1)))"

text \<open>The fields of an \<open>InputRequest\<close>.\<close>

record 'f input_request =
  ir_player_id :: i64
  ir_input_seq :: i64
  ir_move_x :: 'f
  ir_move_y :: 'f
  ir_fire :: bool

definition RoomManager_HandleInput ::
    "('f, 'd, 'r) env \<Rightarrow> i64 \<Rightarrow> sptr option \<Rightarrow> 'f input_request option \<Rightarrow> ('f, 'd, 'r) server \<Rightarrow> ('f, 'd, 'r) server" where
  "RoomManager_HandleInput env now session request s =
     (case session of
        None \<Rightarrow> s
      | Some ses \<Rightarrow>
          if \<not> game_loop_set (ctx env) then s
          else (case request of
                  None \<Rightarrow> s
                | Some q \<Rightarrow>
                    (case GameLoop_GetRoom (room_of ses s) (sv_loop s) of
                       None \<Rightarrow> s
                     | Some g \<Rightarrow>
                         let input = \<lparr>in_player_id = (if ir_player_id q = 0 then player_of ses s else ir_player_id q),
                                      input_seq = ir_input_seq q, move_x = ir_move_x q, move_y = ir_move_y q,
                                      fire = ir_fire q, timestamp_ms = now\<rparr>
                         in on_loop (on_game_room (room_of ses s) (GameRoom_HandleInput input)) s)))"

subsection \<open>Frame lemmas\<close>

lemma fold_frame: "(\<And>x s. g (f x s) = g s) \<Longrightarrow> g (fold f xs s) = g s"
  by (induction xs arbitrary: s) simp_all

lemma enter_room_frame [simp]:
  "sv_ids (enter_room c rid pid s) = sv_ids s" "sv_pm (enter_room c rid pid s) = sv_pm s"
  "sv_rooms (enter_room c rid pid s) = sv_rooms s" "sv_queue (enter_room c rid pid s) = sv_queue s"
  "sv_loop (enter_room c rid pid s) = sv_loop s" "sv_config (enter_room c rid pid s) = sv_config s"
  "player_sessions (sv_net (enter_room c rid pid s)) = player_sessions (sv_net s)"
  "sessions (sv_net (enter_room c rid pid s)) = sessions (sv_net s)"
  "outbox (sv_net (enter_room c rid pid s)) = outbox (sv_net s)"
  "player_room_map (enter_room c rid pid s) = um_put pid rid (player_room_map s)"
  "account_players (enter_room c rid pid s) = account_players s"
  "session_tokens (enter_room c rid pid s) = session_tokens s"
  "pending_settlements (enter_room c rid pid s) = pending_settlements s"
  by (simp_all add: enter_room_def Let_def Session_SetRoomId_def split: option.splits)

lemma release_player_frame [simp]:
  "sv_ids (release_player c pid s) = sv_ids s" "sv_rooms (release_player c pid s) = sv_rooms s"
  "sv_queue (release_player c pid s) = sv_queue s" "sv_loop (release_player c pid s) = sv_loop s"
  "sv_config (release_player c pid s) = sv_config s"
  "player_sessions (sv_net (release_player c pid s)) = player_sessions (sv_net s)"
  "sessions (sv_net (release_player c pid s)) = sessions (sv_net s)"
  "outbox (sv_net (release_player c pid s)) = outbox (sv_net s)"
  "player_room_map (release_player c pid s) = player_room_map s"
  "account_players (release_player c pid s) = account_players s"
  "session_tokens (release_player c pid s) = session_tokens s"
  "pending_settlements (release_player c pid s) = pending_settlements s"
  "sv_mysql (release_player c pid s) = sv_mysql s" "sv_redis (release_player c pid s) = sv_redis s"
  by (simp_all add: release_player_def Let_def Session_SetRoomId_def split: option.splits)

lemma start_player_frame [simp]:
  "sv_ids (start_player c rid pid s) = sv_ids s" "sv_rooms (start_player c rid pid s) = sv_rooms s"
  "sv_queue (start_player c rid pid s) = sv_queue s" "sv_loop (start_player c rid pid s) = sv_loop s"
  "sv_config (start_player c rid pid s) = sv_config s" "sv_net (start_player c rid pid s) = sv_net s"
  "player_room_map (start_player c rid pid s) = player_room_map s"
  "account_players (start_player c rid pid s) = account_players s"
  "session_tokens (start_player c rid pid s) = session_tokens s"
  "pending_settlements (start_player c rid pid s) = pending_settlements s"
  by (simp_all add: start_player_def)

lemma fold_enter_room [simp]:
  "sv_ids (fold (enter_room c rid) ps s) = sv_ids s" "sv_pm (fold (enter_room c rid) ps s) = sv_pm s"
  "sv_rooms (fold (enter_room c rid) ps s) = sv_rooms s" "sv_queue (fold (enter_room c rid) ps s) = sv_queue s"
  "sv_loop (fold (enter_room c rid) ps s) = sv_loop s" "sv_config (fold (enter_room c rid) ps s) = sv_config s"
  "player_sessions (sv_net (fold (enter_room c rid) ps s)) = player_sessions (sv_net s)"
  "outbox (sv_net (fold (enter_room c rid) ps s)) = outbox (sv_net s)"
  "account_players (fold (enter_room c rid) ps s) = account_players s"
  "session_tokens (fold (enter_room c rid) ps s) = session_tokens s"
  "pending_settlements (fold (enter_room c rid) ps s) = pending_settlements s"
  by (induction ps arbitrary: s) simp_all

lemma fold_enter_room_map:
  "um_find (player_room_map (fold (enter_room c rid) ps s)) q =
     (if q \<in> set ps then Some rid else um_find (player_room_map s) q)"
  by (induction ps arbitrary: s) auto

lemma fold_release_player [simp]:
  "sv_ids (fold (release_player c) ps s) = sv_ids s" "sv_rooms (fold (release_player c) ps s) = sv_rooms s"
  "sv_queue (fold (release_player c) ps s) = sv_queue s" "sv_loop (fold (release_player c) ps s) = sv_loop s"
  "sv_config (fold (release_player c) ps s) = sv_config s"
  "player_sessions (sv_net (fold (release_player c) ps s)) = player_sessions (sv_net s)"
  "outbox (sv_net (fold (release_player c) ps s)) = outbox (sv_net s)"
  "player_room_map (fold (release_player c) ps s) = player_room_map s"
  "account_players (fold (release_player c) ps s) = account_players s"
  "session_tokens (fold (release_player c) ps s) = session_tokens s"
  "pending_settlements (fold (release_player c) ps s) = pending_settlements s"
  "sv_mysql (fold (release_player c) ps s) = sv_mysql s" "sv_redis (fold (release_player c) ps s) = sv_redis s"
  by (induction ps arbitrary: s) simp_all

lemma fold_start_player [simp]:
  "sv_ids (fold (start_player c rid) ps s) = sv_ids s" "sv_rooms (fold (start_player c rid) ps s) = sv_rooms s"
  "sv_queue (fold (start_player c rid) ps s) = sv_queue s" "sv_loop (fold (start_player c rid) ps s) = sv_loop s"
  "sv_config (fold (start_player c rid) ps s) = sv_config s" "sv_net (fold (start_player c rid) ps s) = sv_net s"
  "player_room_map (fold (start_player c rid) ps s) = player_room_map s"
  "account_players (fold (start_player c rid) ps s) = account_players s"
  "session_tokens (fold (start_player c rid) ps s) = session_tokens s"
  "pending_settlements (fold (start_player c rid) ps s) = pending_settlements s"
  by (induction ps arbitrary: s) simp_all

lemma fold_um_erase: "um_find (fold um_erase ps m) q = (if q \<in> set ps then None else um_find m q)"
  by (induction ps arbitrary: m) auto

abbreviation add_players :: "i64 list \<Rightarrow> room \<Rightarrow> room" where
  "add_players ps r \<equiv> fold (\<lambda>pid r. snd (Room_AddPlayer pid r)) ps r"

lemma AddPlayer_waiting:
  assumes "room_state r = Waiting"
  shows "room_state (snd (Room_AddPlayer p r)) = Waiting" "room_id (snd (Room_AddPlayer p r)) = room_id r"
    "has_connections (snd (Room_AddPlayer p r)) = has_connections r"
    "fst ` set (room_players (snd (Room_AddPlayer p r))) = insert p (fst ` set (room_players r))"
    "um_wf (room_players r) \<Longrightarrow> um_wf (room_players (snd (Room_AddPlayer p r)))"
  using assms by (simp_all add: Room_AddPlayer_def)

lemma AddPlayers_fresh:
  "room_state r = Waiting \<Longrightarrow>
     room_state (add_players ps r) = Waiting \<and> room_id (add_players ps r) = room_id r \<and>
     has_connections (add_players ps r) = has_connections r \<and>
     fst ` set (room_players (add_players ps r)) = set ps \<union> fst ` set (room_players r) \<and>
     (um_wf (room_players r) \<longrightarrow> um_wf (room_players (add_players ps r)))"
  by (induction ps arbitrary: r) (simp_all add: AddPlayer_waiting)

lemma CreateRoom_simps [simp]:
  "fst (RoomManager_CreateRoom c ps s) = next_room_id (sv_ids s)"
  "sv_queue (snd (RoomManager_CreateRoom c ps s)) = sv_queue s"
  "sv_config (snd (RoomManager_CreateRoom c ps s)) = sv_config s"
  "sv_loop (snd (RoomManager_CreateRoom c ps s)) = sv_loop s"
  "sv_pm (snd (RoomManager_CreateRoom c ps s)) = sv_pm s"
  "next_room_id (sv_ids (snd (RoomManager_CreateRoom c ps s))) = wrap64 (next_room_id (sv_ids s) + 1)"
  "player_sessions (sv_net (snd (RoomManager_CreateRoom c ps s))) = player_sessions (sv_net s)"
  "outbox (sv_net (snd (RoomManager_CreateRoom c ps s))) = outbox (sv_net s)"
  "account_players (snd (RoomManager_CreateRoom c ps s)) = account_players s"
  "session_tokens (snd (RoomManager_CreateRoom c ps s)) = session_tokens s"
  "pending_settlements (snd (RoomManager_CreateRoom c ps s)) = pending_settlements s"
  "sv_rooms (snd (RoomManager_CreateRoom c ps s)) = um_put (next_room_id (sv_ids s))
     (add_players ps (Room_new (next_room_id (sv_ids s)) (connection_manager_set c))) (sv_rooms s)"
  "um_find (player_room_map (snd (RoomManager_CreateRoom c ps s))) q =
     (if q \<in> set ps then Some (next_room_id (sv_ids s)) else um_find (player_room_map s) q)"
  by (simp_all add: RoomManager_CreateRoom_def NextRoomId_def fold_enter_room_map)

lemma RemoveRoom_frame [simp]:
  "sv_queue (RoomManager_RemoveRoom c rid s) = sv_queue s" "sv_config (RoomManager_RemoveRoom c rid s) = sv_config s"
  "sv_ids (RoomManager_RemoveRoom c rid s) = sv_ids s"
  "player_sessions (sv_net (RoomManager_RemoveRoom c rid s)) = player_sessions (sv_net s)"
  "sv_rooms (RoomManager_RemoveRoom c rid s) = um_erase rid (sv_rooms s)"
  "outbox (sv_net (RoomManager_RemoveRoom c rid s)) = outbox (sv_net s)"
  "account_players (RoomManager_RemoveRoom c rid s) = account_players s"
  "session_tokens (RoomManager_RemoveRoom c rid s) = session_tokens s"
  "pending_settlements (RoomManager_RemoveRoom c rid s) = pending_settlements s"
  "sv_mysql (RoomManager_RemoveRoom c rid s) = sv_mysql s" "sv_redis (RoomManager_RemoveRoom c rid s) = sv_redis s"
  "sv_loop (RoomManager_RemoveRoom c rid s) = (if game_loop_set c then GameLoop_RemoveRoom rid (sv_loop s) else sv_loop s)"
  by (simp_all add: RoomManager_RemoveRoom_def Let_def)

lemma RemoveRoom_map:
  "um_find (player_room_map (RoomManager_RemoveRoom c rid s)) q =
     (if (\<exists>r. um_find (sv_rooms s) rid = Some r \<and> q \<in> fst ` set (room_players r)) then None
      else um_find (player_room_map s) q)"
  by (cases "um_find (sv_rooms s) rid")
     (simp_all add: RoomManager_RemoveRoom_def Let_def fold_um_erase Room_PlayerIds_def)

subsection \<open>The tables agree\<close>

text \<open>Every room is stored under its own id, which the counter has passed; a player is only ever mapped
  to a room that exists and has that player; a battle runs for exactly the rooms that are playing or in
  settlement, with the players of the room.\<close>

definition room_ok :: "service_context \<Rightarrow> ('f, 'd, 'r) server \<Rightarrow> i64 \<Rightarrow> room \<Rightarrow> bool" where
  "room_ok c s rid r \<longleftrightarrow> room_id r = rid \<and> um_wf (room_players r) \<and> rid < next_room_id (sv_ids s) \<and>
     has_connections r = connection_manager_set c \<and>
     (room_state r \<in> {Playing, Settlement} \<longrightarrow> GameLoop_GetRoom rid (sv_loop s) \<noteq> None)"

definition battle_ok :: "('f, 'd, 'r) server \<Rightarrow> i64 \<Rightarrow> 'f GameRoom \<Rightarrow> bool" where
  "battle_ok s rid g \<longleftrightarrow> gr_room_id g = rid \<and>
     (\<exists>r. um_find (sv_rooms s) rid = Some r \<and> room_state r \<in> {Playing, Settlement} \<and>
          fst ` set (gr_players g) = fst ` set (room_players r))"

definition rooms_inv :: "service_context \<Rightarrow> ('f, 'd, 'r) server \<Rightarrow> bool" where
  "rooms_inv c s \<longleftrightarrow>
     1000 \<le> next_room_id (sv_ids s) \<and>
     (\<forall>rid r. um_find (sv_rooms s) rid = Some r \<longrightarrow> room_ok c s rid r) \<and>
     (\<forall>pid rid. um_find (player_room_map s) pid = Some rid \<longrightarrow>
        (\<exists>r. um_find (sv_rooms s) rid = Some r \<and> pid \<in> fst ` set (room_players r))) \<and>
     (\<forall>rid g. GameLoop_GetRoom rid (sv_loop s) = Some g \<longrightarrow> battle_ok s rid g)"

lemma rooms_invD:
  assumes "rooms_inv c s"
  shows "1000 \<le> next_room_id (sv_ids s)"
    and "um_find (sv_rooms s) rid = Some r \<Longrightarrow> room_ok c s rid r"
    and "um_find (player_room_map s) pid = Some rid' \<Longrightarrow>
           \<exists>r. um_find (sv_rooms s) rid' = Some r \<and> pid \<in> fst ` set (room_players r)"
    and "GameLoop_GetRoom rid (sv_loop s) = Some g \<Longrightarrow> battle_ok s rid g"
  using assms by (auto simp: rooms_inv_def)

text \<open>The invariant only looks at these parts of the state.\<close>

lemma rooms_inv_cong:
  assumes "sv_ids s' = sv_ids s" "sv_rooms s' = sv_rooms s" "player_room_map s' = player_room_map s" "sv_loop s' = sv_loop s"
  shows "rooms_inv c s' = rooms_inv c s"
  using assms by (simp add: rooms_inv_def room_ok_def battle_ok_def)

lemma rooms_inv_CreateRoom:
  assumes i: "rooms_inv c s" and room: "next_room_id (sv_ids s) < 2 ^ 63 - 1"
  shows "rooms_inv c (snd (RoomManager_CreateRoom c ps s))"
proof -
  let ?n = "next_room_id (sv_ids s)" and ?s = "snd (RoomManager_CreateRoom c ps s)"
  let ?r = "add_players ps (Room_new ?n (connection_manager_set c))"
  have n: "1000 \<le> ?n" by (rule rooms_invD(1) [OF i])
  then have w: "wrap64 (?n + 1) = ?n + 1" using room by (simp add: in_i64_def)
  have new: "room_state ?r = Waiting" "room_id ?r = ?n" "has_connections ?r = connection_manager_set c"
      "fst ` set (room_players ?r) = set ps" "um_wf (room_players ?r)"
    using AddPlayers_fresh [of "Room_new ?n (connection_manager_set c)" ps] by (simp_all add: Room_new_def)
  have old: "room_ok c s rid r" "rid \<noteq> ?n" if "um_find (sv_rooms s) rid = Some r" for rid r
    using rooms_invD(2) [OF i that] by (auto simp: room_ok_def)
  have "battle_ok ?s rid g" if "GameLoop_GetRoom rid (sv_loop s) = Some g" for rid g
    using rooms_invD(4) [OF i that] old(2) by (auto simp: battle_ok_def)
  moreover have "room_ok c ?s rid r" if "um_find (sv_rooms ?s) rid = Some r" for rid r
  proof (cases "rid = ?n")
    case True
    then have "r = ?r" using that by simp
    then show ?thesis using new w True by (simp add: room_ok_def)
  next
    case False
    then have "room_ok c s rid r" using that old(1) by simp
    then show ?thesis using w by (auto simp: room_ok_def)
  qed
  moreover have "\<exists>r. um_find (sv_rooms ?s) rid = Some r \<and> pid \<in> fst ` set (room_players r)"
    if "um_find (player_room_map ?s) pid = Some rid" for pid rid
    using that new(4) rooms_invD(3) [OF i, of pid rid] old(2) by (auto split: if_splits)
  ultimately show ?thesis using n w by (simp add: rooms_inv_def)
qed

lemma rooms_inv_RemoveRoom:
  assumes i: "rooms_inv c s" and c: "game_loop_set c"
  shows "rooms_inv c (RoomManager_RemoveRoom c rid s)"
proof -
  let ?s = "RoomManager_RemoveRoom c rid s"
  have "room_ok c ?s q r" if "um_find (sv_rooms ?s) q = Some r" for q r
    using that rooms_invD(2) [OF i, of q r] c by (auto simp: room_ok_def split: if_splits)
  moreover have "\<exists>r. um_find (sv_rooms ?s) q = Some r \<and> pid \<in> fst ` set (room_players r)"
    if m: "um_find (player_room_map ?s) pid = Some q" for pid q
  proof -
    have m': "um_find (player_room_map s) pid = Some q"
        "\<not> (\<exists>r. um_find (sv_rooms s) rid = Some r \<and> pid \<in> fst ` set (room_players r))"
      using m by (simp_all add: RemoveRoom_map split: if_splits)
    then obtain r where "um_find (sv_rooms s) q = Some r" "pid \<in> fst ` set (room_players r)"
      using rooms_invD(3) [OF i] by blast
    then show ?thesis using m'(2) by auto
  qed
  moreover have "battle_ok ?s q g" if "GameLoop_GetRoom q (sv_loop ?s) = Some g" for q g
    using that rooms_invD(4) [OF i, of q g] c by (auto simp: battle_ok_def split: if_splits)
  ultimately show ?thesis using rooms_invD(1) [OF i] by (simp add: rooms_inv_def)
qed

text \<open>A change of one room that keeps its identity and players, before the battle starts or while it runs.\<close>

definition same_room :: "room \<Rightarrow> room \<Rightarrow> bool" where
  "same_room r r' \<longleftrightarrow> room_id r' = room_id r \<and> has_connections r' = has_connections r \<and>
     fst ` set (room_players r') = fst ` set (room_players r) \<and> (um_wf (room_players r) \<longrightarrow> um_wf (room_players r'))"

definition active :: "room \<Rightarrow> bool" where
  "active r \<longleftrightarrow> room_state r \<in> {Playing, Settlement}"

lemma rooms_inv_on_room:
  assumes i: "rooms_inv c s" and r: "um_find (sv_rooms s) rid = Some r"
    and f: "same_room r (f r)" "active (f r) = active r"
  shows "rooms_inv c (on_room rid f s)"
proof -
  have "room_ok c (on_room rid f s) q x" if "um_find (sv_rooms (on_room rid f s)) q = Some x" for q x
  proof (cases "q = rid")
    case True
    then have "x = f r" using that r by (simp add: on_room_def)
    then show ?thesis using rooms_invD(2) [OF i r] f True
      by (auto simp: room_ok_def same_room_def active_def on_room_def)
  next
    case False
    then show ?thesis using that rooms_invD(2) [OF i, of q x] by (simp add: on_room_def room_ok_def)
  qed
  moreover have "\<exists>x. um_find (sv_rooms (on_room rid f s)) q = Some x \<and> pid \<in> fst ` set (room_players x)"
    if "um_find (player_room_map s) pid = Some q" for pid q
    using rooms_invD(3) [OF i that] r f(1) by (cases "q = rid") (auto simp: on_room_def same_room_def)
  moreover have "battle_ok (on_room rid f s) q g" if "GameLoop_GetRoom q (sv_loop s) = Some g" for q g
    using rooms_invD(4) [OF i that] r f by (cases "q = rid") (auto simp: on_room_def battle_ok_def same_room_def active_def)
  moreover have "player_room_map (on_room rid f s) = player_room_map s" "sv_ids (on_room rid f s) = sv_ids s"
      "sv_loop (on_room rid f s) = sv_loop s" by (simp_all add: on_room_def)
  ultimately show ?thesis using rooms_invD(1) [OF i] unfolding rooms_inv_def by simp
qed

lemma rooms_inv_on_game_room:
  assumes i: "rooms_inv c s"
    and f: "\<And>g. GameLoop_GetRoom rid (sv_loop s) = Some g \<Longrightarrow>
      gr_room_id (f g) = gr_room_id g \<and> um_keys (gr_players (f g)) = um_keys (gr_players g)"
  shows "rooms_inv c (on_loop (on_game_room rid f) s)"
proof -
  have "battle_ok (on_loop (on_game_room rid f) s) q g"
    if lk: "GameLoop_GetRoom q (sv_loop (on_loop (on_game_room rid f) s)) = Some g" for q g
  proof (cases "q = rid")
    case True
    then obtain g0 where g0: "GameLoop_GetRoom q (sv_loop s) = Some g0" "g = f g0" using lk by auto
    then have "fst ` set (gr_players g) = fst ` set (gr_players g0)" using f [of g0] True by (metis list.set_map)
    then show ?thesis using rooms_invD(4) [OF i g0(1)] f [of g0] g0 True by (auto simp: battle_ok_def)
  next
    case False
    then show ?thesis using lk rooms_invD(4) [OF i, of q g] by (simp add: battle_ok_def)
  qed
  moreover have "room_ok c (on_loop (on_game_room rid f) s) q r = room_ok c s q r" for q r
    by (auto simp: room_ok_def)
  ultimately show ?thesis
    using rooms_invD(1-3) [OF i] unfolding rooms_inv_def by simp
qed

lemma SetReadyAndTryStart_case:
  "case Room_SetReadyAndTryStart p rdy r n of (started, r', n') \<Rightarrow>
     same_room r r' \<and> (started \<longrightarrow> room_state r = Waiting \<and> room_state r' = Playing) \<and>
     (\<not> started \<longrightarrow> room_state r' = room_state r) \<and> heap n' = heap n \<and> player_sessions n' = player_sessions n"
  by (simp add: Room_SetReadyAndTryStart_def Let_def same_room_def)

lemma SetReadyAndTryStart_room:
  assumes "Room_SetReadyAndTryStart p rdy r n = (started, r', n')"
  shows "same_room r r'" and "started \<Longrightarrow> room_state r = Waiting \<and> room_state r' = Playing"
    and "\<not> started \<Longrightarrow> room_state r' = room_state r"
    and "heap n' = heap n" and "player_sessions n' = player_sessions n"
  using SetReadyAndTryStart_case [where p = p and rdy = rdy and r = r and n = n] unfolding assms by simp_all

lemma GameRoom_Start_new:
  "gr_room_id (GameRoom_Start F ps (GameRoom_new rid)) = rid"
  "fst ` set (gr_players (GameRoom_Start F ps (GameRoom_new rid))) = set ps"
  by (simp_all add: GameRoom_Start_def GameRoom_new_def spawn_players_keys)

lemma StartGameRoom_simps:
  assumes "um_find (sv_rooms s) p = Some r" and "game_loop_set (ctx env)"
  shows "sv_rooms (RoomManager_StartGameRoom env (Some p) s) = sv_rooms s"
    "sv_ids (RoomManager_StartGameRoom env (Some p) s) = sv_ids s"
    "player_room_map (RoomManager_StartGameRoom env (Some p) s) = player_room_map s"
    "sv_queue (RoomManager_StartGameRoom env (Some p) s) = sv_queue s"
    "sv_config (RoomManager_StartGameRoom env (Some p) s) = sv_config s"
    "sv_loop (RoomManager_StartGameRoom env (Some p) s) =
       GameLoop_AddRoom (Some (GameRoom_Start (floats env) (Room_PlayerIds r) (GameRoom_new (room_id r)))) (sv_loop s)"
    "heap (sv_net (RoomManager_StartGameRoom env (Some p) s)) = heap (sv_net s)"
    "player_sessions (sv_net (RoomManager_StartGameRoom env (Some p) s)) = player_sessions (sv_net s)"
  using assms by (simp_all add: RoomManager_StartGameRoom_def Let_def)

lemma rooms_inv_started:
  assumes i: "rooms_inv (ctx env) s" and r: "um_find (sv_rooms s) p = Some r" and gl: "game_loop_set (ctx env)"
    and st: "room_state r = Waiting" "same_room r r'" "room_state r' = Playing"
  shows "rooms_inv (ctx env) (RoomManager_StartGameRoom env (Some p) ((on_room p (\<lambda>_. r') s)\<lparr>sv_net := n\<rparr>))"
proof -
  let ?s1 = "(on_room p (\<lambda>_. r') s)\<lparr>sv_net := n\<rparr>"
  let ?s2 = "RoomManager_StartGameRoom env (Some p) ?s1"
  let ?g = "GameRoom_Start (floats env) (Room_PlayerIds r') (GameRoom_new (room_id r'))"
  have r1: "um_find (sv_rooms ?s1) p = Some r'" using r by (simp add: on_room_def)
  note x = StartGameRoom_simps [OF r1 gl]
  have ok: "room_ok (ctx env) s p r" by (rule rooms_invD(2) [OF i r])
  then have pid: "room_id r' = p" using st(2) by (simp add: room_ok_def same_room_def)
  note g = GameRoom_Start_new [of "floats env" "Room_PlayerIds r'" p]
  have rooms: "um_find (sv_rooms ?s2) q = (if q = p then Some r' else um_find (sv_rooms s) q)" for q
    using r unfolding x(1) by (simp add: on_room_def)
  have loops: "GameLoop_GetRoom q (sv_loop ?s2) = (if q = p then Some ?g else GameLoop_GetRoom q (sv_loop s))" for q
    using g(1) pid unfolding x(6) by (simp add: on_room_def)
  have ids: "sv_ids ?s2 = sv_ids s" "player_room_map ?s2 = player_room_map s"
    unfolding x(2,3) by (simp_all add: on_room_def)
  have "room_ok (ctx env) ?s2 q y" if "um_find (sv_rooms ?s2) q = Some y" for q y
  proof (cases "q = p")
    case True
    then have "y = r'" using that rooms by simp
    then show ?thesis using ok st(2) True by (simp add: room_ok_def same_room_def ids loops)
  next
    case False
    then show ?thesis using that rooms rooms_invD(2) [OF i, of q y] by (simp add: room_ok_def ids loops)
  qed
  moreover have "\<exists>y. um_find (sv_rooms ?s2) q = Some y \<and> pid \<in> fst ` set (room_players y)"
    if "um_find (player_room_map s) pid = Some q" for pid q
    using rooms_invD(3) [OF i that] r st(2) by (cases "q = p") (auto simp: rooms same_room_def)
  moreover have "battle_ok ?s2 q h" if "GameLoop_GetRoom q (sv_loop ?s2) = Some h" for q h
  proof (cases "q = p")
    case True
    then have "h = ?g" using that loops by simp
    then show ?thesis using g pid st(3) True by (auto simp: battle_ok_def rooms Room_PlayerIds_def)
  next
    case False
    then show ?thesis using that loops rooms_invD(4) [OF i, of q h] by (simp add: battle_ok_def rooms)
  qed
  ultimately show ?thesis using rooms_invD(1) [OF i] unfolding rooms_inv_def ids by blast
qed

lemma GetPlayerRoom_Some:
  "RoomManager_GetPlayerRoom pid s = Some (p, r) \<longleftrightarrow>
     um_find (player_room_map s) pid = Some p \<and> um_find (sv_rooms s) p = Some r"
  by (auto simp: RoomManager_GetPlayerRoom_def split: option.splits)

lemma rooms_inv_HandleReady [inv_intros]:
  assumes i: "rooms_inv (ctx env) s" and gl: "game_loop_set (ctx env)"
  shows "rooms_inv (ctx env) (RoomManager_HandleReady env session request s)"
proof (cases "\<exists>ses rdy p r. session = Some ses \<and> request = Some rdy \<and>
    RoomManager_GetPlayerRoom (player_of ses s) s = Some (p, r)")
  case False
  then have "RoomManager_HandleReady env session request s = s"
    by (auto simp: RoomManager_HandleReady_def split: option.splits)
  then show ?thesis using i by simp
next
  case True
  then obtain ses rdy p r where c: "session = Some ses" "request = Some rdy"
      "RoomManager_GetPlayerRoom (player_of ses s) s = Some (p, r)" by blast
  then have r: "um_find (sv_rooms s) p = Some r" by (simp add: GetPlayerRoom_Some)
  obtain started r' n' where t: "Room_SetReadyAndTryStart (player_of ses s) rdy r (sv_net s) = (started, r', n')"
    by (metis surj_pair)
  note tr = SetReadyAndTryStart_room [OF t]
  show ?thesis
  proof (cases started)
    case True
    then show ?thesis
      using rooms_inv_started [OF i r gl _ tr(1)] tr(2) c t by (simp add: RoomManager_HandleReady_def)
  next
    case False
    then have "rooms_inv (ctx env) (on_room p (\<lambda>_. r') s)"
      using rooms_inv_on_room [OF i r, of "\<lambda>_. r'"] tr(1,3) by (simp add: active_def)
    then show ?thesis using c t False
      by (simp add: RoomManager_HandleReady_def rooms_inv_cong [of "(on_room p (\<lambda>_. r') s)\<lparr>sv_net := n'\<rparr>" "on_room p (\<lambda>_. r') s"])
  qed
qed

lemma rooms_inv_HandleInput [inv_intros]:
  assumes i: "rooms_inv (ctx env) s"
  shows "rooms_inv (ctx env) (RoomManager_HandleInput env now session request s)"
proof -
  have "rooms_inv (ctx env) (on_loop (on_game_room rid (GameRoom_HandleInput input)) s)" for rid input
    by (rule rooms_inv_on_game_room [OF i]) (simp add: game_room_keys)
  then show ?thesis using i by (simp add: RoomManager_HandleInput_def Let_def split: option.splits)
qed

end
