(* ===== verification/Match_Service.thy ===== *)
theory Match_Service
  imports Room_Table
begin

text \<open>
  Matchmaking: \<open>src/src/match/match_service.h\<close> and \<open>match_service.cpp\<close>.  The pointers of the context are the
  flags of \<open>ctx env\<close>.  The loop of \<open>TryCreateRoom\<close> terminates because every turn takes players from the queue.
\<close>

text \<open>\<open>static_cast<size_t>\<close> of an \<open>int\<close>.\<close>

definition to_size_t :: "i32 \<Rightarrow> nat" where
  "to_size_t i = nat (i mod 2 ^ 64)"

text \<open>One turn of the last loop of \<open>TryCreateRoom\<close>.\<close>

definition notify_match ::
    "service_context \<Rightarrow> i64 \<Rightarrow> 'f message \<Rightarrow> i64 \<Rightarrow> ('f, 'd, 'r) server \<Rightarrow> ('f, 'd, 'r) server" where
  "notify_match c rid msg pid s =
     (let s1 = (if player_manager_set c
                then on_pm (with_player pid (SetPlayerRoomId rid \<circ> SetStatus InRoom)) s else s)
      in if connection_manager_set c
         then (case GetByPlayerId pid s1 of
                 None \<Rightarrow> s1 | Some ses \<Rightarrow> send ses MSG_MATCH_SUCCESS_NOTIFY msg s1)
         else s1)"

definition match_players ::
    "service_context \<Rightarrow> i64 list \<Rightarrow> ('f, 'd, 'r) server \<Rightarrow> ('f, 'd, 'r) server" where
  "match_players c grp s =
     (let (rid, s1) = RoomManager_CreateRoom c grp s
      in fold (notify_match c rid (MatchSuccessNotify rid grp)) grp s1)"

lemma notify_match_frame [simp]:
  "sv_ids (notify_match c rid msg pid s) = sv_ids s" "sv_rooms (notify_match c rid msg pid s) = sv_rooms s"
  "player_room_map (notify_match c rid msg pid s) = player_room_map s"
  "sv_queue (notify_match c rid msg pid s) = sv_queue s" "sv_loop (notify_match c rid msg pid s) = sv_loop s"
  "sv_config (notify_match c rid msg pid s) = sv_config s"
  "heap (sv_net (notify_match c rid msg pid s)) = heap (sv_net s)"
  "player_sessions (sv_net (notify_match c rid msg pid s)) = player_sessions (sv_net s)"
  by (simp_all add: notify_match_def Let_def split: option.splits)

lemma fold_notify_match [simp]:
  "sv_ids (fold (notify_match c rid msg) ps s) = sv_ids s" "sv_rooms (fold (notify_match c rid msg) ps s) = sv_rooms s"
  "player_room_map (fold (notify_match c rid msg) ps s) = player_room_map s"
  "sv_queue (fold (notify_match c rid msg) ps s) = sv_queue s" "sv_loop (fold (notify_match c rid msg) ps s) = sv_loop s"
  "sv_config (fold (notify_match c rid msg) ps s) = sv_config s"
  "heap (sv_net (fold (notify_match c rid msg) ps s)) = heap (sv_net s)"
  "player_sessions (sv_net (fold (notify_match c rid msg) ps s)) = player_sessions (sv_net s)"
  by (induction ps arbitrary: s) simp_all

lemma match_players_simps [simp]:
  "sv_queue (match_players c ps s) = sv_queue s" "sv_config (match_players c ps s) = sv_config s"
  "sv_loop (match_players c ps s) = sv_loop s"
  "player_sessions (sv_net (match_players c ps s)) = player_sessions (sv_net s)"
  "next_room_id (sv_ids (match_players c ps s)) = wrap64 (next_room_id (sv_ids s) + 1)"
  "sv_rooms (match_players c ps s) = um_put (next_room_id (sv_ids s))
     (add_players ps (Room_new (next_room_id (sv_ids s)) (connection_manager_set c))) (sv_rooms s)"
  "um_find (player_room_map (match_players c ps s)) q =
     (if q \<in> set ps then Some (next_room_id (sv_ids s)) else um_find (player_room_map s) q)"
  by (simp_all add: match_players_def split_beta)

function MatchService_TryCreateRoom ::
    "('f, 'd, 'r) env \<Rightarrow> ('f, 'd, 'r) server \<Rightarrow> ('f, 'd, 'r) server" where
  "MatchService_TryCreateRoom env s =
     (let need_count = to_size_t (room_player_count (sv_config s));
          (grp, q) = MatchQueue_TryPopN need_count (sv_queue s);
          s1 = s\<lparr>sv_queue := q\<rparr>
      in if grp = [] then s1
         else if length grp \<noteq> need_count \<or> \<not> room_manager_set (ctx env) then s1
         else MatchService_TryCreateRoom env (match_players (ctx env) grp s1))"
  by pat_completeness auto

termination
proof (relation "measure (\<lambda>(env, s). length (queue (sv_queue s)))", goal_cases)
  case (2 env s need_count x grp q s1)
  then have "length (queue q) < length (queue (sv_queue s))"
    by (auto simp: TryPopN_eq MatchQueue_TryPopN_def split: if_splits)
  then show ?case using 2 by simp
qed simp

declare MatchService_TryCreateRoom.simps [simp del]

definition MatchService_StartMatching ::
    "('f, 'd, 'r) env \<Rightarrow> i64 \<Rightarrow> sptr option \<Rightarrow> string \<Rightarrow> ('f, 'd, 'r) server \<Rightarrow> bool \<times> ('f, 'd, 'r) server" where
  "MatchService_StartMatching env pid session msg s =
     (case session of
        None \<Rightarrow> (False, s)
      | Some ses \<Rightarrow>
          if pid = 0 then (False, send ses MSG_MATCH_RESP (MatchResponse 1 ''not login'') s)
          else
            let (pushed, q) = MatchQueue_Push pid (sv_queue s); s1 = s\<lparr>sv_queue := q\<rparr>
            in if \<not> pushed then
                 let s2 = (if MatchQueue_Contains pid (sv_queue s1) \<and> player_manager_set (ctx env)
                           then on_net (Session_SetRoomId ses 0)
                                  (on_pm (with_player pid (SetPlayerRoomId 0 \<circ> SetStatus Matching)) s1)
                           else s1)
                 in (False, send ses MSG_MATCH_RESP (MatchResponse 2 ''already matching'') s2)
               else
                 let s2 = (if player_manager_set (ctx env)
                           then on_pm (with_player pid (SetPlayerRoomId 0 \<circ> SetStatus Matching)) s1 else s1);
                     s3 = on_net (Session_SetRoomId ses 0) s2;
                     s4 = send ses MSG_MATCH_RESP (MatchResponse 0 msg) s3
                 in (True, MatchService_TryCreateRoom env s4))"

definition MatchService_RequeuePlayer ::
    "('f, 'd, 'r) env \<Rightarrow> i64 \<Rightarrow> ('f, 'd, 'r) server \<Rightarrow> bool \<times> ('f, 'd, 'r) server" where
  "MatchService_RequeuePlayer env pid s =
     (if \<not> connection_manager_set (ctx env) then (False, s)
      else case GetByPlayerId pid s of
             None \<Rightarrow> (False, s)
           | Some ses \<Rightarrow> MatchService_StartMatching env pid (Some ses) ''matching'' s)"

text \<open>The request is the \<open>player_id\<close> field of a \<open>MatchRequest\<close>.\<close>

definition MatchService_HandleMatch ::
    "('f, 'd, 'r) env \<Rightarrow> sptr option \<Rightarrow> i64 option \<Rightarrow> ('f, 'd, 'r) server \<Rightarrow> ('f, 'd, 'r) server" where
  "MatchService_HandleMatch env session request s =
     (case (request, session) of
        (Some req_player, Some ses) \<Rightarrow>
          let pid = (if req_player = 0 then player_of ses s else req_player)
          in if pid = 0 then send ses MSG_MATCH_RESP (MatchResponse 1 ''not login'') s
             else snd (MatchService_StartMatching env pid (Some ses) ''matching'' s)
      | _ \<Rightarrow> s)"

definition MatchService_HandleCancelMatch ::
    "('f, 'd, 'r) env \<Rightarrow> sptr option \<Rightarrow> i64 option \<Rightarrow> ('f, 'd, 'r) server \<Rightarrow> ('f, 'd, 'r) server" where
  "MatchService_HandleCancelMatch env session request s =
     (case (request, session) of
        (Some req_player, Some ses) \<Rightarrow>
          let pid = (if req_player = 0 then player_of ses s else req_player);
              (removed, q) = MatchQueue_Remove pid (sv_queue s);
              s1 = s\<lparr>sv_queue := q\<rparr>;
              s2 = (if removed \<and> player_manager_set (ctx env)
                    then on_net (Session_SetRoomId ses 0)
                           (on_pm (with_player pid (SetPlayerRoomId 0 \<circ> SetStatus Online)) s1)
                    else s1)
          in send ses MSG_MATCH_CANCEL_RESP
               (if removed then MatchCancelResponse 0 ''cancelled'' else MatchCancelResponse 2 ''not matching'') s2
      | _ \<Rightarrow> s)"

subsection \<open>The groups that are matched\<close>

lemma notify_match_players:
  "um_find (players (sv_pm (fold (notify_match c rid msg) ps s))) p =
     (if p \<in> set ps \<and> player_manager_set c
      then Some (SetPlayerRoomId rid (SetStatus InRoom (case um_find (players (sv_pm s)) p of
             None \<Rightarrow> Player_new p (''player_'' @ to_string p) | Some x \<Rightarrow> x)))
      else um_find (players (sv_pm s)) p)"
  by (induction ps arbitrary: s)
     (auto simp: notify_match_def Let_def player_setters Player_new_def split: option.splits)

text \<open>A player in a waiting room: the manager's map, the room and the player object agree.\<close>

definition placed :: "service_context \<Rightarrow> ('f, 'd, 'r) server \<Rightarrow> i64 \<Rightarrow> i64 \<Rightarrow> bool" where
  "placed c s rid p \<longleftrightarrow> um_find (player_room_map s) p = Some rid \<and>
     (player_manager_set c \<longrightarrow> (\<exists>x. um_find (players (sv_pm s)) p = Some x \<and> pl_status x = InRoom \<and> pl_room_id x = rid))"

definition waiting_room :: "('f, 'd, 'r) server \<Rightarrow> i64 \<Rightarrow> i64 set \<Rightarrow> bool" where
  "waiting_room s rid ps \<longleftrightarrow>
     (\<exists>r. um_find (sv_rooms s) rid = Some r \<and> room_id r = rid \<and> room_state r = Waiting \<and>
          um_wf (room_players r) \<and> fst ` set (room_players r) = ps)"

lemma match_players_placed:
  assumes "p \<in> set ps"
  shows "placed c (match_players c ps s) (next_room_id (sv_ids s)) p"
  using assms
  by (auto simp: placed_def match_players_def split_beta notify_match_players player_setters)

lemma match_players_room:
  "waiting_room (match_players c ps s) (next_room_id (sv_ids s)) (set ps)"
  using AddPlayers_fresh [of "Room_new (next_room_id (sv_ids s)) (connection_manager_set c)" ps]
  by (simp add: waiting_room_def Room_new_def)

lemma match_players_other:
  "p \<notin> set ps \<Longrightarrow> um_find (players (sv_pm (match_players c ps s))) p = um_find (players (sv_pm s)) p"
  by (simp add: match_players_def split_beta notify_match_players)

text \<open>Everything about one call: with \<open>k = length q div n\<close> full groups waiting, rooms \<open>next ..< next + k\<close>
  are created.\<close>

definition matched :: "service_context \<Rightarrow> nat \<Rightarrow> i64 list \<Rightarrow> ('f, 'd, 'r) server \<Rightarrow> ('f, 'd, 'r) server \<Rightarrow> bool" where
  "matched c n q s s' \<longleftrightarrow>
     (let k = length q div n; next = next_room_id (sv_ids s) in
      queue (sv_queue s') = drop (k * n) q \<and> next_room_id (sv_ids s') = next + int k \<and>
      (\<forall>i<k. waiting_room s' (next + int i) (set (take n (drop (i * n) q))) \<and>
             (\<forall>p\<in>set (take n (drop (i * n) q)). placed c s' (next + int i) p)) \<and>
      (\<forall>rid<next. um_find (sv_rooms s') rid = um_find (sv_rooms s) rid) \<and>
      (\<forall>p. p \<notin> set q \<longrightarrow> um_find (player_room_map s') p = um_find (player_room_map s) p \<and>
           um_find (players (sv_pm s')) p = um_find (players (sv_pm s)) p))"

lemma TryCreateRoom_short:
  assumes "length (queue (sv_queue s)) < to_size_t (room_player_count (sv_config s))"
  shows "MatchService_TryCreateRoom env s = s"
  using assms by (simp add: MatchService_TryCreateRoom.simps [of env s] TryPopN_eq)

lemma TryCreateRoom_group:
  assumes "to_size_t (room_player_count (sv_config s)) = n" and "0 < n" and "n \<le> length (queue (sv_queue s))"
    and "room_manager_set (ctx env)"
  shows "MatchService_TryCreateRoom env s =
     MatchService_TryCreateRoom env (match_players (ctx env) (take n (queue (sv_queue s)))
       (s\<lparr>sv_queue := snd (MatchQueue_TryPopN n (sv_queue s))\<rparr>))"
proof -
  have "take n (queue (sv_queue s)) \<noteq> []" using assms(2,3) by auto
  then show ?thesis
    using assms by (subst MatchService_TryCreateRoom.simps) (simp add: TryPopN_eq Let_def)
qed

lemma TryCreateRoom_matched:
  assumes "mq_inv (sv_queue s)" and "to_size_t (room_player_count (sv_config s)) = n" and "0 < n"
    and "room_manager_set (ctx env)" and "1000 \<le> next_room_id (sv_ids s)"
    and "next_room_id (sv_ids s) + int (length (queue (sv_queue s))) < 2 ^ 63"
  shows "matched (ctx env) n (queue (sv_queue s)) s (MatchService_TryCreateRoom env s)"
  using assms
proof (induction "length (queue (sv_queue s)) div n" arbitrary: s)
  case 0
  then have "length (queue (sv_queue s)) < n" by (simp add: div_eq_0_iff)
  then show ?case using 0 by (simp add: TryCreateRoom_short matched_def Let_def div_eq_0_iff)
next
  case (Suc k)
  let ?q = "queue (sv_queue s)" and ?c = "ctx env" and ?next = "next_room_id (sv_ids s)"
  let ?g = "take n ?q"
  let ?s1 = "s\<lparr>sv_queue := snd (MatchQueue_TryPopN n (sv_queue s))\<rparr>"
  let ?s2 = "match_players ?c ?g ?s1" and ?s' = "MatchService_TryCreateRoom env s"
  have len: "n \<le> length ?q" using Suc(2) by (metis div_less nat.distinct(1) not_le)
  have q1: "sv_queue ?s2 = snd (MatchQueue_TryPopN n (sv_queue s))" "queue (sv_queue ?s2) = drop n ?q"
    using len by (simp_all add: TryPopN_eq)
  have inv: "mq_inv (sv_queue ?s2)" unfolding q1(1) by (rule mq_inv_TryPopN [OF Suc(3)])
  have next2: "next_room_id (sv_ids ?s2) = ?next + 1" using Suc(7,8) len Suc(5) by (simp add: in_i64_def)
  have k: "k = length (queue (sv_queue ?s2)) div n" using Suc(2) len Suc(5) unfolding q1(2) by (simp add: le_div_geq)
  have eq: "?s' = MatchService_TryCreateRoom env ?s2" by (rule TryCreateRoom_group [OF Suc(4,5) len Suc(6)])
  have "matched ?c n (drop n ?q) ?s2 ?s'"
    using Suc(1) [OF k inv] Suc(4-8) len next2 unfolding eq q1(2) by simp
  then have IH: "queue (sv_queue ?s') = drop (k * n) (drop n ?q)" "next_room_id (sv_ids ?s') = ?next + 1 + int k"
      "\<forall>i<k. waiting_room ?s' (?next + 1 + int i) (set (take n (drop (i * n) (drop n ?q)))) \<and>
             (\<forall>p\<in>set (take n (drop (i * n) (drop n ?q))). placed ?c ?s' (?next + 1 + int i) p)"
      "\<forall>rid<?next + 1. um_find (sv_rooms ?s') rid = um_find (sv_rooms ?s2) rid"
      "\<forall>p. p \<notin> set (drop n ?q) \<longrightarrow> um_find (player_room_map ?s') p = um_find (player_room_map ?s2) p \<and>
           um_find (players (sv_pm ?s')) p = um_find (players (sv_pm ?s2)) p"
    unfolding matched_def Let_def next2 k [symmetric, unfolded q1(2)] by blast+
  have disj: "p \<notin> set (drop n ?q)" if "p \<in> set ?g" for p
    using Suc(3) that by (metis append_take_drop_id disjoint_iff distinct_append mq_inv_def)
  have first: "waiting_room ?s' ?next (set ?g)" "\<forall>p\<in>set ?g. placed ?c ?s' ?next p"
    using match_players_room [of ?c ?g ?s1] match_players_placed [of _ ?g ?c ?s1] IH(4,5) disj
    by (simp_all add: waiting_room_def placed_def)
  have "waiting_room ?s' (?next + int i) (set (take n (drop (i * n) ?q))) \<and>
             (\<forall>p\<in>set (take n (drop (i * n) ?q)). placed ?c ?s' (?next + int i) p)" if "i < Suc k" for i
  proof (cases i)
    case 0
    then show ?thesis using first by simp
  next
    case (Suc j)
    then show ?thesis using IH(3) [rule_format, of j] that by (simp add: add.commute add.left_commute)
  qed
  moreover have "um_find (sv_rooms ?s') rid = um_find (sv_rooms s) rid" if "rid < ?next" for rid
    using IH(4) that by simp
  moreover have "um_find (player_room_map ?s') p = um_find (player_room_map s) p \<and>
           um_find (players (sv_pm ?s')) p = um_find (players (sv_pm s)) p" if "p \<notin> set ?q" for p
  proof -
    have "p \<notin> set (drop n ?q)" "p \<notin> set ?g" using that by (meson in_set_dropD in_set_takeD)+
    then show ?thesis
      using IH(5) [rule_format, of p] match_players_other [of p ?g ?c ?s1] by simp
  qed
  ultimately show ?case
    using IH(1,2) unfolding matched_def Let_def Suc(2) [symmetric] by (simp add: add.commute)
qed

subsection \<open>The room tables\<close>

text \<open>How many room ids a state may still use up: each waiting player at most one.\<close>

definition id_need :: "('f, 'd, 'r) server \<Rightarrow> int" where
  "id_need s = next_room_id (sv_ids s) + int (length (queue (sv_queue s)))"

lemma rooms_inv_match_players:
  assumes "rooms_inv c s" and "next_room_id (sv_ids s) < 2 ^ 63 - 1"
  shows "rooms_inv c (match_players c ps s)"
proof -
  let ?s = "snd (RoomManager_CreateRoom c ps s)"
  have "sv_ids (match_players c ps s) = sv_ids ?s" "sv_rooms (match_players c ps s) = sv_rooms ?s"
    "player_room_map (match_players c ps s) = player_room_map ?s" "sv_loop (match_players c ps s) = sv_loop ?s"
    by (simp_all add: match_players_def split_beta)
  then show ?thesis using rooms_inv_CreateRoom [OF assms] rooms_inv_cong by blast
qed

lemma TryCreateRoom_keeps:
  "rooms_inv (ctx env) s \<Longrightarrow> id_need s < 2 ^ 63 \<Longrightarrow>
     rooms_inv (ctx env) (MatchService_TryCreateRoom env s) \<and>
     id_need (MatchService_TryCreateRoom env s) \<le> id_need s \<and>
     (mq_inv (sv_queue s) \<longrightarrow> mq_inv (sv_queue (MatchService_TryCreateRoom env s))) \<and>
     player_sessions (sv_net (MatchService_TryCreateRoom env s)) = player_sessions (sv_net s)"
proof (induction "length (queue (sv_queue s))" arbitrary: s rule: less_induct)
  case less
  let ?n = "to_size_t (room_player_count (sv_config s))"
  obtain g q where pop: "MatchQueue_TryPopN ?n (sv_queue s) = (g, q)" by fastforce
  let ?s1 = "s\<lparr>sv_queue := q\<rparr>" and ?next = "next_room_id (sv_ids s)"
  let ?s2 = "match_players (ctx env) g ?s1"
  have i1: "rooms_inv (ctx env) ?s1" using less(2) rooms_inv_cong [of ?s1 s] by simp
  have len: "length (queue q) + length g = length (queue (sv_queue s))"
    using pop by (auto simp: TryPopN_eq split: if_splits)
  have mq: "mq_inv (sv_queue s) \<Longrightarrow> mq_inv q" using mq_inv_TryPopN [of "sv_queue s" ?n] pop by simp
  have step: "MatchService_TryCreateRoom env s =
      (if g = [] \<or> length g \<noteq> ?n \<or> \<not> room_manager_set (ctx env) then ?s1 else MatchService_TryCreateRoom env ?s2)"
    by (subst MatchService_TryCreateRoom.simps) (simp add: pop Let_def)
  show ?case
  proof (cases "g = [] \<or> length g \<noteq> ?n \<or> \<not> room_manager_set (ctx env)")
    case True
    then show ?thesis using i1 mq len step by (simp add: id_need_def)
  next
    case False
    then have l: "length (queue (sv_queue ?s2)) < length (queue (sv_queue s))" using len by (cases g) auto
    have "?next < 2 ^ 63 - 1" "1000 \<le> ?next"
      using less(3) l rooms_invD(1) [OF less(2)] by (auto simp: id_need_def)
    then have i2: "rooms_inv (ctx env) ?s2" and need: "id_need ?s2 \<le> id_need s"
      using rooms_inv_match_players [OF i1] l by (auto simp: id_need_def in_i64_def)
    then have "id_need ?s2 < 2 ^ 63" using less(3) by simp
    from less(1) [OF l i2 this] show ?thesis using need False mq step by auto
  qed
qed

definition match_keeps :: "service_context \<Rightarrow> ('f, 'd, 'r) server \<Rightarrow> ('f, 'd, 'r) server \<Rightarrow> bool" where
  "match_keeps c s s' \<longleftrightarrow> rooms_inv c s' \<and> id_need s' \<le> id_need s + 1 \<and>
     (mq_inv (sv_queue s) \<longrightarrow> mq_inv (sv_queue s')) \<and> player_sessions (sv_net s') = player_sessions (sv_net s)"

lemma StartMatching_keeps:
  assumes i: "rooms_inv (ctx env) s" and n: "id_need s + 1 < 2 ^ 63"
  shows "match_keeps (ctx env) s (snd (MatchService_StartMatching env pid session msg s))"
proof -
  define s' where s'_def: "s' = snd (MatchService_StartMatching env pid session msg s)"
  have cong: "rooms_inv (ctx env) t" if "sv_ids t = sv_ids s" "sv_rooms t = sv_rooms s"
      "player_room_map t = player_room_map s" "sv_loop t = sv_loop s" for t
    using rooms_inv_cong [OF that] i by simp
  consider "session = None" | ses where "session = Some ses" "pid = 0 \<or> \<not> fst (MatchQueue_Push pid (sv_queue s))"
    | ses where "session = Some ses" "pid \<noteq> 0" "fst (MatchQueue_Push pid (sv_queue s))" by (cases session) auto
  then show ?thesis
  proof cases
    case 1
    then show ?thesis using i by (simp add: match_keeps_def MatchService_StartMatching_def)
  next
    case 2
    then show ?thesis
      by (auto simp: match_keeps_def MatchService_StartMatching_def MatchQueue_Push_def Let_def id_need_def intro!: cong split: if_splits)
  next
    case 3
    obtain q where q: "MatchQueue_Push pid (sv_queue s) = (True, q)" using 3(3) by (cases "MatchQueue_Push pid (sv_queue s)") auto
    obtain t where t: "s' = MatchService_TryCreateRoom env t" "sv_ids t = sv_ids s" "sv_rooms t = sv_rooms s"
        "player_room_map t = player_room_map s" "sv_loop t = sv_loop s" "sv_queue t = q"
        "player_sessions (sv_net t) = player_sessions (sv_net s)"
      using 3 q by (auto simp: s'_def MatchService_StartMatching_def Let_def Session_SetRoomId_def)
    have "length (queue q) = length (queue (sv_queue s)) + 1"
      using q by (auto simp: MatchQueue_Push_def split: if_splits)
    then have "id_need t = id_need s + 1" unfolding id_need_def t(2,6) by simp
    moreover have "mq_inv (sv_queue s) \<Longrightarrow> mq_inv q" using mq_inv_Push [of "sv_queue s" pid] q by simp
    ultimately show ?thesis
      using TryCreateRoom_keeps [of env t] cong [OF t(2-5)] t n unfolding s'_def [symmetric] by (auto simp: match_keeps_def)
  qed
qed

lemma RequeuePlayer_keeps:
  assumes "rooms_inv (ctx env) s" and "id_need s + 1 < 2 ^ 63"
  shows "match_keeps (ctx env) s (snd (MatchService_RequeuePlayer env pid s))"
  using StartMatching_keeps [OF assms] assms(1)
  by (simp add: MatchService_RequeuePlayer_def match_keeps_def split: option.splits)

lemma HandleMatch_keeps:
  assumes "rooms_inv (ctx env) s" and "id_need s + 1 < 2 ^ 63"
  shows "match_keeps (ctx env) s (MatchService_HandleMatch env session request s)"
proof -
  have "match_keeps (ctx env) s s" using assms(1) by (simp add: match_keeps_def)
  moreover have "match_keeps (ctx env) s (send ses mid msg s)" for ses mid msg
    using assms(1) rooms_inv_cong [of "send ses mid msg s" s] by (simp add: match_keeps_def id_need_def)
  ultimately show ?thesis
    using StartMatching_keeps [OF assms] by (simp add: MatchService_HandleMatch_def Let_def split: option.splits)
qed

lemma HandleCancelMatch_keeps:
  assumes "rooms_inv (ctx env) s"
  shows "rooms_inv (ctx env) (MatchService_HandleCancelMatch env session request s) \<and>
     (mq_inv (sv_queue s) \<longrightarrow> mq_inv (sv_queue (MatchService_HandleCancelMatch env session request s)))"
proof -
  define s' where s'_def: "s' = MatchService_HandleCancelMatch env session request s"
  have "rooms_inv (ctx env) s'"
    unfolding s'_def by (rule rooms_inv_cong [THEN iffD2, OF _ _ _ _ assms(1)])
      (auto simp: MatchService_HandleCancelMatch_def Let_def split: option.splits prod.splits)
  moreover have "sv_queue s' = sv_queue s \<or> (\<exists>p. sv_queue s' = snd (MatchQueue_Remove p (sv_queue s)))"
    unfolding s'_def by (auto simp: MatchService_HandleCancelMatch_def Let_def split_beta split: option.splits)
  ultimately show ?thesis unfolding s'_def [symmetric] using mq_inv_Remove by auto
qed

subsection \<open>The match request\<close>

lemma TryCreateRoom_exact:
  assumes "to_size_t (room_player_count (sv_config s)) = n" and "0 < n" and "length (queue (sv_queue s)) = n"
    and "room_manager_set (ctx env)"
  shows "MatchService_TryCreateRoom env s =
    match_players (ctx env) (queue (sv_queue s)) (s\<lparr>sv_queue := snd (MatchQueue_TryPopN n (sv_queue s))\<rparr>)"
proof -
  let ?s = "match_players (ctx env) (take n (queue (sv_queue s))) (s\<lparr>sv_queue := snd (MatchQueue_TryPopN n (sv_queue s))\<rparr>)"
  have "MatchService_TryCreateRoom env ?s = ?s" by (rule TryCreateRoom_short) (use assms in \<open>simp add: TryPopN_eq\<close>)
  then show ?thesis using TryCreateRoom_group [OF assms(1,2) _ assms(4)] assms(3) by simp
qed

lemma match_outcome:
  assumes "mq_inv (sv_queue s)" and "to_size_t (room_player_count (sv_config s)) = n"
    and "length (queue (sv_queue s)) < n" and "ctx env = full_context"
    and "pid \<noteq> 0" and "pid \<notin> set (queue (sv_queue s))" and "req = pid \<or> req = 0 \<and> player_of ses s = pid"
    and "1000 \<le> next_room_id (sv_ids s)" and "next_room_id (sv_ids s) + int n < 2 ^ 63"
  shows "let s' = MatchService_HandleMatch env (Some ses) (Some req) s;
             q = queue (sv_queue s); rid = next_room_id (sv_ids s); members = insert pid (set q) in
     sv_loop s' = sv_loop s \<and>
     (if length q + 1 < n
      then queue (sv_queue s') = q @ [pid] \<and> sv_rooms s' = sv_rooms s \<and> player_room_map s' = player_room_map s \<and>
        (\<exists>x. um_find (players (sv_pm s')) pid = Some x \<and> pl_status x = Matching \<and> pl_room_id x = 0) \<and>
        (\<forall>p. p \<noteq> pid \<longrightarrow> um_find (players (sv_pm s')) p = um_find (players (sv_pm s)) p)
      else queue (sv_queue s') = [] \<and> waiting_room s' rid members \<and> (\<forall>p\<in>members. placed full_context s' rid p) \<and>
        (\<forall>r. r \<noteq> rid \<longrightarrow> um_find (sv_rooms s') r = um_find (sv_rooms s) r) \<and> next_room_id (sv_ids s') = rid + 1 \<and>
        (\<forall>p. p \<notin> members \<longrightarrow> um_find (player_room_map s') p = um_find (player_room_map s) p \<and>
           um_find (players (sv_pm s')) p = um_find (players (sv_pm s)) p))"
proof -
  let ?q = "queue (sv_queue s)" and ?s' = "MatchService_HandleMatch env (Some ses) (Some req) s"
  let ?rid = "next_room_id (sv_ids s)" and ?members = "insert pid (set (queue (sv_queue s)))"
  obtain mq where mq: "MatchQueue_Push pid (sv_queue s) = (True, mq)" "queue mq = ?q @ [pid]"
    using assms(1,5,6) by (simp add: MatchQueue_Push_def mq_inv_def)
  obtain t where t: "?s' = MatchService_TryCreateRoom env t" "sv_ids t = sv_ids s" "sv_rooms t = sv_rooms s"
      "sv_queue t = mq" "sv_config t = sv_config s" "player_room_map t = player_room_map s" "sv_loop t = sv_loop s"
      "sv_pm t = with_player pid (SetPlayerRoomId 0 \<circ> SetStatus Matching) (sv_pm s)"
    using assms(4,5,7) mq(1)
    by (auto simp: MatchService_HandleMatch_def MatchService_StartMatching_def Let_def full_context_def)
  have pm: "um_find (players (sv_pm t)) p = um_find (players (sv_pm s)) p" if "p \<noteq> pid" for p using that by (simp add: t(8))
  show ?thesis
  proof (cases "length ?q + 1 < n")
    case True
    then have "?s' = t" using TryCreateRoom_short [of t env] t mq(2) assms(2) by simp
    moreover have "\<exists>x. um_find (players (sv_pm t)) pid = Some x \<and> pl_status x = Matching \<and> pl_room_id x = 0"
      by (simp add: t(8) player_setters)
    ultimately show ?thesis using t(3,4,6,7) mq(2) pm True by (simp add: Let_def)
  next
    case False
    then have n: "length (queue (sv_queue t)) = n" "0 < n" using assms(3) t(4) mq(2) by simp_all
    let ?t = "t\<lparr>sv_queue := snd (MatchQueue_TryPopN n (sv_queue t))\<rparr>"
    have s': "?s' = match_players full_context (?q @ [pid]) ?t"
      using TryCreateRoom_exact [of t n env] n assms(2,4) t mq(2) by (simp add: full_context_def)
    have "queue (sv_queue ?s') = []" using n by (simp add: s' TryPopN_eq)
    moreover have "waiting_room ?s' ?rid ?members"
      using match_players_room [of full_context "?q @ [pid]" ?t] t(2) unfolding s' by simp
    moreover have "placed full_context ?s' ?rid p" if "p \<in> ?members" for p
      using match_players_placed [of p "?q @ [pid]" full_context ?t] that t(2) unfolding s' by simp
    moreover have "um_find (sv_rooms ?s') r = um_find (sv_rooms s) r" if "r \<noteq> ?rid" for r using that t(2,3) by (simp add: s')
    moreover have "next_room_id (sv_ids ?s') = ?rid + 1" using assms(8,9) n(2) t(2) by (simp add: s' in_i64_def)
    moreover have "um_find (player_room_map ?s') p = um_find (player_room_map s) p \<and>
        um_find (players (sv_pm ?s')) p = um_find (players (sv_pm s)) p" if "p \<notin> ?members" for p
      using that match_players_other [of p "?q @ [pid]" full_context ?t] pm t(6) by (simp add: s')
    moreover have "sv_loop ?s' = sv_loop s" using t(7) by (simp add: s')
    ultimately show ?thesis using False by (simp add: Let_def)
  qed
qed

subsection \<open>Properties\<close>

text \<open>C4. The match request that completes a group.  With fewer than \<open>n = room_player_count\<close> players waiting, a
  request of a player who is not waiting yet either just queues the player, who then has the status
  \<open>Matching\<close>, when the group is still not full, or it empties the queue and opens exactly one room: its
  players are the waiting ones and the new one, each of them is mapped to that room and has the status
  and room id of it.  Every other room, every other player's entry and object and all battles stay as
  they were.\<close>

theorem HandleMatch_outcome:
  assumes "mq_inv (sv_queue s)" and "to_size_t (room_player_count (sv_config s)) = n"
    and "length (queue (sv_queue s)) < n" and "ctx env = full_context"
    and "pid \<noteq> 0" and "pid \<notin> set (queue (sv_queue s))" and "req = pid \<or> req = 0 \<and> player_of ses s = pid"
    and "1000 \<le> next_room_id (sv_ids s)" and "next_room_id (sv_ids s) + int n < 2 ^ 63"
  shows "let s' = MatchService_HandleMatch env (Some ses) (Some req) s;
             q = queue (sv_queue s); rid = next_room_id (sv_ids s); members = insert pid (set q) in
     sv_loop s' = sv_loop s \<and>
     (if length q + 1 < n
      then queue (sv_queue s') = q @ [pid] \<and> sv_rooms s' = sv_rooms s \<and> player_room_map s' = player_room_map s \<and>
        (\<exists>x. um_find (players (sv_pm s')) pid = Some x \<and> pl_status x = Matching \<and> pl_room_id x = 0) \<and>
        (\<forall>p. p \<noteq> pid \<longrightarrow> um_find (players (sv_pm s')) p = um_find (players (sv_pm s)) p)
      else queue (sv_queue s') = [] \<and> waiting_room s' rid members \<and> (\<forall>p\<in>members. placed full_context s' rid p) \<and>
        (\<forall>r. r \<noteq> rid \<longrightarrow> um_find (sv_rooms s') r = um_find (sv_rooms s) r) \<and> next_room_id (sv_ids s') = rid + 1 \<and>
        (\<forall>p. p \<notin> members \<longrightarrow> um_find (player_room_map s') p = um_find (player_room_map s) p \<and>
           um_find (players (sv_pm s')) p = um_find (players (sv_pm s)) p))"
  by (rule match_outcome [OF assms])

text \<open>Player 7 is waiting, player 9 asks for a match in rooms of two.\<close>

definition unit_env :: "(rat option, sim, string \<Rightarrow> zset) env" where
  "unit_env = \<lparr>ctx = full_context, floats = rat_nan, mysql_of = sim_api True, redis_of = sim_redis\<rparr>"

definition waiting7 :: "(rat option, sim, string \<Rightarrow> zset) server" where
  "waiting7 = (empty_server config_default (mysql0 []) redis0)\<lparr>sv_queue := \<lparr>queue = [7], in_queue = {7}\<rparr>\<rparr>"

theorem HandleMatch_outcome_witness:
  "let s' = MatchService_HandleMatch unit_env (Some 0) (Some 9) waiting7 in
     queue (sv_queue s') = [] \<and> waiting_room s' 1000 {9, 7} \<and> (\<forall>p\<in>{9, 7}. placed full_context s' 1000 p) \<and>
     (\<forall>r. r \<noteq> 1000 \<longrightarrow> um_find (sv_rooms s') r = um_find (sv_rooms waiting7) r)"
proof -
  have "sv_queue waiting7 = \<lparr>queue = [7], in_queue = {7}\<rparr>" "next_room_id (sv_ids waiting7) = 1000"
    "to_size_t (room_player_count (sv_config waiting7)) = 2"
    by (simp_all add: waiting7_def empty_server_def id_counters_init_def config_default_def to_size_t_def)
  then show ?thesis
    using HandleMatch_outcome [of waiting7 2 unit_env 9 9 0] by (simp add: mq_inv_def unit_env_def Let_def)
qed

end
