(* ===== verification/Room_Manager.thy ===== *)
theory Room_Manager
  imports Match_Service
begin

text \<open>
  Leaving a room: the handlers \<open>HandleLeaveRoom\<close>, \<open>HandleLeaveWaiting\<close> and \<open>HandleLeavePlaying\<close> of
  \<open>src/src/room/room_manager.cpp\<close>.  They call the match service, which calls the operations of
  \<open>Room_Table\<close>.
\<close>

definition RoomManager_HandleLeaveWaiting ::
    "('f, 'd, 'r) env \<Rightarrow> sptr \<Rightarrow> RoomPtr \<times> room \<Rightarrow> ('f, 'd, 'r) server \<Rightarrow> ('f, 'd, 'r) server" where
  "RoomManager_HandleLeaveWaiting env ses ptr s =
     (let (p, r) = ptr;
          rid = room_id r;
          leaver_id = player_of ses s;
          requeue_players = filter (\<lambda>pid. pid \<noteq> leaver_id) (Room_PlayerIds r);
          s1 = broadcast p MSG_PLAYER_LEAVE_ROOM_NOTIFY (PlayerLeaveRoomNotify rid leaver_id 1) s;
          s2 = send ses MSG_LEAVE_ROOM_RESP (LeaveRoomResponse 0 ''left room'') s1;
          s3 = RoomManager_RemoveRoom (ctx env) rid s2
      in if \<not> match_service_set (ctx env) then s3
         else fold (\<lambda>pid s. snd (MatchService_RequeuePlayer env pid s)) requeue_players s3)"

definition RoomManager_HandleLeavePlaying ::
    "('f, 'd, 'r) env \<Rightarrow> sptr \<Rightarrow> RoomPtr \<times> room \<Rightarrow> ('f, 'd, 'r) server \<Rightarrow> ('f, 'd, 'r) server" where
  "RoomManager_HandleLeavePlaying env ses ptr s =
     (let (p, r) = ptr in
      if \<not> game_loop_set (ctx env) \<or> GameLoop_GetRoom (room_id r) (sv_loop s) = None
      then send ses MSG_LEAVE_ROOM_RESP (LeaveRoomResponse 4 ''game not running'') s
      else
        let pid = player_of ses s;
            s1 = on_loop (on_game_room (room_id r) (GameRoom_EliminatePlayer pid)) s;
            s2 = broadcast p MSG_PLAYER_LEAVE_ROOM_NOTIFY (PlayerLeaveRoomNotify (room_id r) pid 2) s1
        in send ses MSG_LEAVE_ROOM_RESP (LeaveRoomResponse 0 ''surrendered'') s2)"

text \<open>The request is the \<open>room_id\<close> field of a \<open>LeaveRoomRequest\<close>.\<close>

definition RoomManager_HandleLeaveRoom ::
    "('f, 'd, 'r) env \<Rightarrow> sptr option \<Rightarrow> i64 option \<Rightarrow> ('f, 'd, 'r) server \<Rightarrow> ('f, 'd, 'r) server" where
  "RoomManager_HandleLeaveRoom env session request s =
     (case session of
        None \<Rightarrow> s
      | Some ses \<Rightarrow>
          (case request of
             None \<Rightarrow> send ses MSG_LEAVE_ROOM_RESP (LeaveRoomResponse 1 ''bad request'') s
           | Some req_room \<Rightarrow>
               (case RoomManager_GetPlayerRoom (player_of ses s) s of
                  None \<Rightarrow> send ses MSG_LEAVE_ROOM_RESP (LeaveRoomResponse 2 ''not in room'') s
                | Some (p, r) \<Rightarrow>
                    if req_room \<noteq> 0 \<and> req_room \<noteq> room_id r
                    then send ses MSG_LEAVE_ROOM_RESP (LeaveRoomResponse 2 ''not in room'') s
                    else if room_state r = Waiting then RoomManager_HandleLeaveWaiting env ses (p, r) s
                    else if room_state r = Playing then RoomManager_HandleLeavePlaying env ses (p, r) s
                    else send ses MSG_LEAVE_ROOM_RESP (LeaveRoomResponse 3 ''room closing'') s)))"

subsection \<open>Nobody is lost between the queue and the rooms\<close>

definition queued_or_placed :: "('f, 'd, 'r) server \<Rightarrow> i64 \<Rightarrow> bool" where
  "queued_or_placed s x \<longleftrightarrow> x \<in> set (queue (sv_queue s)) \<or>
     (\<exists>rid ps. um_find (player_room_map s) x = Some rid \<and> waiting_room s rid ps \<and> x \<in> ps \<and> rid < next_room_id (sv_ids s))"

text \<open>A step of matchmaking for the players in \<open>P\<close>.\<close>

definition match_progress :: "i64 set \<Rightarrow> ('f, 'd, 'r) server \<Rightarrow> ('f, 'd, 'r) server \<Rightarrow> bool" where
  "match_progress P s s' \<longleftrightarrow>
     sv_config s' = sv_config s \<and> next_room_id (sv_ids s) \<le> next_room_id (sv_ids s') \<and>
     (\<forall>x. queued_or_placed s x \<longrightarrow> queued_or_placed s' x) \<and>
     (\<forall>rid<next_room_id (sv_ids s). um_find (sv_rooms s') rid = um_find (sv_rooms s) rid) \<and>
     (\<forall>x. x \<notin> set (queue (sv_queue s)) \<and> x \<notin> P \<longrightarrow>
        um_find (player_room_map s') x = um_find (player_room_map s) x \<and>
        um_find (players (sv_pm s')) x = um_find (players (sv_pm s)) x \<and> x \<notin> set (queue (sv_queue s')))"

lemma match_progress_refl: "match_progress P s s"
  by (simp add: match_progress_def)

lemma match_progress_trans:
  "match_progress P s s' \<Longrightarrow> match_progress Q s' s'' \<Longrightarrow> match_progress (P \<union> Q) s s''"
  unfolding match_progress_def by fastforce

lemma in_groups:
  "x \<in> set q \<Longrightarrow> x \<in> set (drop (k * n) q) \<or> (\<exists>i<k. x \<in> set (take n (drop (i * n) q)))"
proof (induction k)
  case (Suc k)
  then consider "x \<in> set (drop (k * n) q)" | "\<exists>i<k. x \<in> set (take n (drop (i * n) q))" by blast
  then show ?case
  proof cases
    case 1
    have "drop (k * n) q = take n (drop (k * n) q) @ drop (Suc k * n) q"
      by (metis add.commute append_take_drop_id drop_drop mult_Suc)
    then have "x \<in> set (take n (drop (k * n) q)) \<or> x \<in> set (drop (Suc k * n) q)"
      using 1 by (metis Un_iff set_append)
    then show ?thesis by auto
  next
    case 2
    then show ?thesis using less_Suc_eq by blast
  qed
qed simp

lemma matched_progress:
  assumes m: "matched c n (queue (sv_queue s)) s s'" and cfg: "sv_config s' = sv_config s"
  shows "match_progress {} s s'"
proof -
  let ?q = "queue (sv_queue s)" and ?next = "next_room_id (sv_ids s)"
  obtain k where k: "queue (sv_queue s') = drop (k * n) ?q" "next_room_id (sv_ids s') = ?next + int k"
      "\<And>i. i < k \<Longrightarrow> waiting_room s' (?next + int i) (set (take n (drop (i * n) ?q))) \<and>
             (\<forall>p\<in>set (take n (drop (i * n) ?q)). placed c s' (?next + int i) p)"
      "\<And>rid. rid < ?next \<Longrightarrow> um_find (sv_rooms s') rid = um_find (sv_rooms s) rid"
      "\<And>p. p \<notin> set ?q \<Longrightarrow> um_find (player_room_map s') p = um_find (player_room_map s) p \<and>
           um_find (players (sv_pm s')) p = um_find (players (sv_pm s)) p"
    using m unfolding matched_def Let_def by blast
  have queued: "queued_or_placed s' x" if xq: "x \<in> set ?q" for x
  proof (cases "x \<in> set (drop (k * n) ?q)")
    case True
    then show ?thesis by (simp add: queued_or_placed_def k(1))
  next
    case False
    then obtain i where i: "i < k" "x \<in> set (take n (drop (i * n) ?q))" using in_groups [OF xq, of k n] by blast
    then have "um_find (player_room_map s') x = Some (?next + int i)" using k(3) [OF i(1)] by (simp add: placed_def)
    then show ?thesis using k(2) k(3) [OF i(1)] i unfolding queued_or_placed_def by fastforce
  qed
  have "queued_or_placed s' x" if a: "queued_or_placed s x" for x
  proof (cases "x \<in> set ?q")
    case False
    then obtain rid ps where "um_find (player_room_map s) x = Some rid" "waiting_room s rid ps" "x \<in> ps" "rid < ?next"
      using a by (auto simp: queued_or_placed_def)
    then have "um_find (player_room_map s') x = Some rid" "waiting_room s' rid ps" "rid < next_room_id (sv_ids s')" "x \<in> ps"
      using k(2,4,5) False by (auto simp: waiting_room_def)
    then show ?thesis unfolding queued_or_placed_def by blast
  qed (rule queued)
  then show ?thesis
    using k(1,2,4,5) cfg unfolding match_progress_def by (auto dest: in_set_dropD)
qed

text \<open>A state that only differs in what \<open>StartMatching\<close> does before \<open>TryCreateRoom\<close>.\<close>

lemma match_progress_pre:
  assumes "sv_config t = sv_config s" "sv_ids t = sv_ids s" "sv_rooms t = sv_rooms s" "player_room_map t = player_room_map s"
    and "set (queue (sv_queue t)) \<subseteq> insert pid (set (queue (sv_queue s)))" "set (queue (sv_queue s)) \<subseteq> set (queue (sv_queue t))"
    and "\<And>x. x \<noteq> pid \<Longrightarrow> um_find (players (sv_pm t)) x = um_find (players (sv_pm s)) x"
  shows "match_progress {pid} s t"
  using assms unfolding match_progress_def queued_or_placed_def waiting_room_def by auto

lemma TryCreateRoom_config [simp]: "sv_config (MatchService_TryCreateRoom env s) = sv_config s"
proof (induction "length (queue (sv_queue s))" arbitrary: s rule: less_induct)
  case less
  obtain g q where pop: "MatchQueue_TryPopN (to_size_t (room_player_count (sv_config s))) (sv_queue s) = (g, q)" by fastforce
  have "length (queue q) + length g = length (queue (sv_queue s))"
    using pop by (auto simp: TryPopN_eq split: if_splits)
  then have "g \<noteq> [] \<Longrightarrow> sv_config (MatchService_TryCreateRoom env (match_players (ctx env) g (s\<lparr>sv_queue := q\<rparr>))) = sv_config s"
    by (subst less) (cases g, auto)
  then show ?case by (subst MatchService_TryCreateRoom.simps) (simp add: pop Let_def)
qed

text \<open>What matchmaking needs: the queue invariant, the tables, a positive group size and enough ids.\<close>

definition match_ready :: "('f, 'd, 'r) env \<Rightarrow> ('f, 'd, 'r) server \<Rightarrow> nat \<Rightarrow> bool" where
  "match_ready env s k \<longleftrightarrow> ctx env = full_context \<and> mq_inv (sv_queue s) \<and> rooms_inv full_context s \<and>
     0 < to_size_t (room_player_count (sv_config s)) \<and> id_need s + int k < 2 ^ 63"

lemma StartMatching_progress:
  assumes r: "match_ready env s 1" and pid: "pid \<noteq> 0"
    and s'_def: "s' = snd (MatchService_StartMatching env pid (Some ses) msg s)"
  shows "match_progress {pid} s s'" and "queued_or_placed s' pid"
proof -
  have full: "ctx env = full_context" and mq: "mq_inv (sv_queue s)" and ri: "rooms_inv full_context s"
    using r by (simp_all add: match_ready_def)
  have pm: "player_manager_set full_context" by (simp add: full_context_def)
  have "match_progress {pid} s s' \<and> queued_or_placed s' pid"
  proof (cases "pid \<in> set (queue (sv_queue s))")
    case True
    then have push: "MatchQueue_Push pid (sv_queue s) = (False, sv_queue s)"
      using mq pid by (simp add: MatchQueue_Push_def mq_inv_def)
    have "match_progress {pid} s s'"
      by (rule match_progress_pre)
        (use push pid full pm in \<open>auto simp: s'_def MatchService_StartMatching_def Let_def\<close>)
    then show ?thesis using True by (auto simp: match_progress_def queued_or_placed_def)
  next
    case False
    obtain q where q: "MatchQueue_Push pid (sv_queue s) = (True, q)" "queue q = queue (sv_queue s) @ [pid]"
      using mq pid False by (simp add: MatchQueue_Push_def mq_inv_def)
    obtain t where t: "s' = MatchService_TryCreateRoom env t" "sv_ids t = sv_ids s" "sv_rooms t = sv_rooms s"
        "player_room_map t = player_room_map s" "sv_queue t = q" "sv_config t = sv_config s"
        "\<And>x. x \<noteq> pid \<Longrightarrow> um_find (players (sv_pm t)) x = um_find (players (sv_pm s)) x"
      using q(1) pid full pm by (auto simp: s'_def MatchService_StartMatching_def Let_def)
    have "mq_inv q" using mq_inv_Push [OF mq, of pid] q(1) by simp
    moreover have "next_room_id (sv_ids s) + int (length (queue (sv_queue t))) < 2 ^ 63"
      using r q(2) t(5) by (simp add: match_ready_def id_need_def)
    ultimately have "matched (ctx env) (to_size_t (room_player_count (sv_config s))) (queue (sv_queue t)) t s'"
      unfolding t(1)
      by (intro TryCreateRoom_matched) (use t r rooms_invD(1) [OF ri] in \<open>simp_all add: match_ready_def full_context_def\<close>)
    from matched_progress [OF this] have p2: "match_progress {} t s'" using t(1) by simp
    have p1: "match_progress {pid} s t" by (rule match_progress_pre) (use t q in auto)
    have "queued_or_placed t pid" using t(5) q(2) by (simp add: queued_or_placed_def)
    then show ?thesis using match_progress_trans [OF p1 p2] p2 by (simp add: match_progress_def)
  qed
  then show "match_progress {pid} s s'" "queued_or_placed s' pid" by simp_all
qed

lemma match_ready_step:
  assumes "match_ready env s (Suc k)" and "match_keeps (ctx env) s s'" and "sv_config s' = sv_config s"
  shows "match_ready env s' k"
  using assms by (auto simp: match_ready_def match_keeps_def)

lemma RequeuePlayer_progress:
  assumes r: "match_ready env s 1" and t_def: "t = snd (MatchService_RequeuePlayer env pid s)"
  shows "match_keeps (ctx env) s t \<and> match_progress {pid} s t \<and>
     (pid \<noteq> 0 \<and> um_has (player_sessions (sv_net s)) pid \<longrightarrow> queued_or_placed t pid)"
proof -
  have k: "match_keeps (ctx env) s t"
    unfolding t_def by (rule RequeuePlayer_keeps) (use r in \<open>simp_all add: match_ready_def\<close>)
  have cm: "connection_manager_set (ctx env)" using r by (simp add: match_ready_def full_context_def)
  show ?thesis
  proof (cases "um_find (player_sessions (sv_net s)) pid")
    case None
    then show ?thesis using k cm
      by (simp add: t_def MatchService_RequeuePlayer_def GetByPlayerId_def ConnectionManager_GetByPlayerId_def match_progress_refl)
  next
    case (Some ses)
    then have t: "t = snd (MatchService_StartMatching env pid (Some ses) ''matching'' s)"
      using cm by (simp add: t_def MatchService_RequeuePlayer_def GetByPlayerId_def ConnectionManager_GetByPlayerId_def)
    show ?thesis
    proof (cases "pid = 0")
      case True
      have "match_progress {pid} s t"
        by (rule match_progress_pre) (use t True in \<open>auto simp: MatchService_StartMatching_def\<close>)
      then show ?thesis using k True by simp
    next
      case False
      then show ?thesis using StartMatching_progress [OF r False t] k by simp
    qed
  qed
qed

lemma requeue_all:
  "match_ready env s (length ps) \<Longrightarrow>
   (let t = fold (\<lambda>pid s. snd (MatchService_RequeuePlayer env pid s)) ps s in
     rooms_inv (ctx env) t \<and> mq_inv (sv_queue t) \<and> player_sessions (sv_net t) = player_sessions (sv_net s) \<and>
     match_progress (set ps) s t \<and>
     (\<forall>p\<in>set ps. p \<noteq> 0 \<and> um_has (player_sessions (sv_net s)) p \<longrightarrow> queued_or_placed t p))"
proof (induction ps arbitrary: s)
  case Nil
  then show ?case by (simp add: match_ready_def match_progress_refl)
next
  case (Cons p ps)
  let ?s1 = "snd (MatchService_RequeuePlayer env p s)"
  let ?t = "fold (\<lambda>pid s. snd (MatchService_RequeuePlayer env pid s)) ps ?s1"
  have r1: "match_ready env s 1" using Cons.prems by (simp add: match_ready_def)
  note p = RequeuePlayer_progress [OF r1 refl, of p]
  have cfg: "sv_config ?s1 = sv_config s" using p by (simp add: match_progress_def)
  have same: "player_sessions (sv_net ?s1) = player_sessions (sv_net s)" using p by (simp add: match_keeps_def)
  have "match_ready env ?s1 (length ps)"
    by (rule match_ready_step [OF _ conjunct1 [OF p] cfg]) (use Cons.prems in simp)
  note IH = Cons.IH [OF this, unfolded Let_def]
  have prog: "match_progress (set (p # ps)) s ?t"
    using match_progress_trans [of "{p}" s ?s1 "set ps" ?t] p IH by simp
  have "queued_or_placed ?s1 p \<Longrightarrow> queued_or_placed ?t p" using IH by (simp add: match_progress_def)
  then show ?case using IH p prog same by (auto simp: Let_def)
qed

lemma rooms_inv_send: "rooms_inv c (send ses mid msg s) = rooms_inv c s"
  by (rule rooms_inv_cong) simp_all

lemma rooms_inv_broadcast: "rooms_inv c (broadcast rid mid msg s) = rooms_inv c s"
  by (rule rooms_inv_cong) simp_all

text \<open>The state before the others are put back into the queue.\<close>

definition after_leaving ::
    "('f, 'd, 'r) env \<Rightarrow> sptr \<Rightarrow> RoomPtr \<times> room \<Rightarrow> ('f, 'd, 'r) server \<Rightarrow> ('f, 'd, 'r) server" where
  "after_leaving env ses ptr s =
     RoomManager_RemoveRoom (ctx env) (room_id (snd ptr))
       (send ses MSG_LEAVE_ROOM_RESP (LeaveRoomResponse 0 ''left room'')
         (broadcast (fst ptr) MSG_PLAYER_LEAVE_ROOM_NOTIFY
           (PlayerLeaveRoomNotify (room_id (snd ptr)) (player_of ses s) 1) s))"

lemma HandleLeaveWaiting_eq:
  "match_service_set (ctx env) \<Longrightarrow> RoomManager_HandleLeaveWaiting env ses (p, r) s =
     fold (\<lambda>pid s. snd (MatchService_RequeuePlayer env pid s))
       (filter (\<lambda>pid. pid \<noteq> player_of ses s) (Room_PlayerIds r)) (after_leaving env ses (p, r) s)"
  by (simp add: RoomManager_HandleLeaveWaiting_def after_leaving_def Let_def)

lemma after_leaving_simps [simp]:
  "sv_queue (after_leaving env ses (p, r) s) = sv_queue s" "sv_config (after_leaving env ses (p, r) s) = sv_config s"
  "sv_ids (after_leaving env ses (p, r) s) = sv_ids s"
  "sv_rooms (after_leaving env ses (p, r) s) = um_erase (room_id r) (sv_rooms s)"
  "player_sessions (sv_net (after_leaving env ses (p, r) s)) = player_sessions (sv_net s)"
  by (simp_all add: after_leaving_def)

lemma after_leaving_ready:
  assumes "match_ready env s k"
  shows "match_ready env (after_leaving env ses (p, r) s) k"
proof -
  have "rooms_inv full_context (after_leaving env ses (p, r) s)"
    using assms unfolding after_leaving_def
    by (simp add: rooms_inv_RemoveRoom rooms_inv_send rooms_inv_broadcast match_ready_def full_context_def)
  then show ?thesis using assms by (simp add: match_ready_def id_need_def)
qed

lemma release_players:
  "um_find (players (sv_pm (fold (release_player c) ps s))) q =
     (if q \<in> set ps \<and> player_manager_set c
      then Some (SetStatus (if connection_manager_set c \<and> um_has (player_sessions (sv_net s)) q then Online else Offline)
             (SetPlayerRoomId 0 (case um_find (players (sv_pm s)) q of
                None \<Rightarrow> Player_new q (''player_'' @ to_string q) | Some x \<Rightarrow> x)))
      else um_find (players (sv_pm s)) q)"
  by (induction ps arbitrary: s)
     (auto simp: release_player_def Let_def player_setters Player_new_def GetByPlayerId_def
        ConnectionManager_GetByPlayerId_def split: option.splits)

text \<open>A player in the lobby: in no room, online exactly if there is a session.\<close>

definition in_lobby :: "('f, 'd, 'r) server \<Rightarrow> i64 \<Rightarrow> bool \<Rightarrow> bool" where
  "in_lobby s x has_session \<longleftrightarrow> um_find (player_room_map s) x = None \<and>
     (\<exists>pl. um_find (players (sv_pm s)) x = Some pl \<and> pl_room_id pl = 0 \<and>
           pl_status pl = (if has_session then Online else Offline))"

lemma after_leaving_lobby:
  assumes "ctx env = full_context" and "um_find (sv_rooms s) (room_id r) = Some r" and "x \<in> fst ` set (room_players r)"
  shows "in_lobby (after_leaving env ses (p, r) s) x (um_has (player_sessions (sv_net s)) x)"
proof -
  have "um_find (player_room_map (after_leaving env ses (p, r) s)) x = None"
    using assms(2,3) by (simp add: after_leaving_def RemoveRoom_map)
  moreover have "x \<in> set (Room_PlayerIds r)" using assms(3) by (simp add: Room_PlayerIds_def)
  ultimately show ?thesis
    using assms(1,2)
    by (simp add: in_lobby_def after_leaving_def RoomManager_RemoveRoom_def Let_def release_players full_context_def
        player_setters)
qed

subsection \<open>Properties\<close>

text \<open>C5. Leaving before the game starts.  The room disappears; the player who left is back in the lobby, in
  no room, and (unless waiting already) is not put into the queue; every other player of the room who
  has a session is again waiting or already in a newly formed room, so nobody is lost; and the
  tables stay consistent.\<close>

theorem HandleLeaveRoom_waiting:
  assumes "match_ready env s (length (room_players r))"
    and "RoomManager_GetPlayerRoom (player_of ses s) s = Some (p, r)"
    and "room_state r = Waiting" and "req_room = 0 \<or> req_room = p"
    and "player_of ses s \<notin> set (queue (sv_queue s))"
  shows "let s' = RoomManager_HandleLeaveRoom env (Some ses) (Some req_room) s; leaver = player_of ses s in
     um_find (sv_rooms s') p = None \<and>
     in_lobby s' leaver (um_has (player_sessions (sv_net s)) leaver) \<and> leaver \<notin> set (queue (sv_queue s')) \<and>
     (\<forall>x\<in>fst ` set (room_players r). x \<noteq> leaver \<and> x \<noteq> 0 \<and> um_has (player_sessions (sv_net s)) x \<longrightarrow>
        queued_or_placed s' x) \<and>
     rooms_inv full_context s' \<and> mq_inv (sv_queue s')"
proof -
  let ?leaver = "player_of ses s" and ?t = "after_leaving env ses (p, r) s"
  let ?others = "filter (\<lambda>pid. pid \<noteq> ?leaver) (Room_PlayerIds r)"
  have full: "ctx env = full_context" and ri: "rooms_inv full_context s" using assms(1) by (simp_all add: match_ready_def)
  have r: "um_find (player_room_map s) ?leaver = Some p" "um_find (sv_rooms s) p = Some r"
    using assms(2) by (simp_all add: GetPlayerRoom_Some)
  have p: "room_id r = p" "p < next_room_id (sv_ids s)" using rooms_invD(2) [OF ri r(2)] by (auto simp: room_ok_def)
  have leaver: "?leaver \<in> fst ` set (room_players r)" using rooms_invD(3) [OF ri r(1)] r(2) by auto
  let ?s' = "RoomManager_HandleLeaveRoom env (Some ses) (Some req_room) s"
  have s': "?s' = fold (\<lambda>pid s. snd (MatchService_RequeuePlayer env pid s)) ?others ?t"
    using assms(2-4) p(1) full HandleLeaveWaiting_eq [of env ses p r s]
    by (auto simp: RoomManager_HandleLeaveRoom_def full_context_def)
  have "match_ready env ?t (length ?others)"
    using after_leaving_ready [OF assms(1), of ses p r] length_filter_le [of "\<lambda>pid. pid \<noteq> ?leaver" "Room_PlayerIds r"]
    unfolding match_ready_def by (simp add: Room_PlayerIds_def del: length_filter_le filter_map)
  note all = requeue_all [OF this, folded s', unfolded Let_def]
  have prog: "match_progress (set ?others) ?t ?s'" using all by blast
  have "um_find (sv_rooms ?s') p = None" using prog p unfolding match_progress_def by simp
  moreover have "in_lobby ?s' ?leaver (um_has (player_sessions (sv_net s)) ?leaver)" "?leaver \<notin> set (queue (sv_queue ?s'))"
    using after_leaving_lobby [OF full, of s r ?leaver ses p] r p leaver prog assms(5)
    unfolding match_progress_def in_lobby_def by auto
  moreover have "queued_or_placed ?s' x" if "x \<in> fst ` set (room_players r)" "x \<noteq> ?leaver" "x \<noteq> 0"
      "um_has (player_sessions (sv_net s)) x" for x
    using all that by (auto simp: Room_PlayerIds_def)
  ultimately show ?thesis using all full by (simp add: Let_def)
qed

text \<open>Players 7 and 9 in the waiting room 1000, with sessions 1 and 0; player 9 leaves.\<close>

definition room79 :: "(rat option, sim, string \<Rightarrow> zset) server" where
  "room79 = (empty_server config_default (mysql0 []) redis0)
     \<lparr>sv_net := \<lparr>heap = (\<lambda>p. (Session_new 1 0)\<lparr>ses_player_id := (if p = 0 then 9 else 7), ses_room_id := 1000\<rparr>),
        sessions = [(1, 0), (2, 1)], player_sessions = [(9, 0), (7, 1)], outbox = [], closing = []\<rparr>,
      sv_ids := \<lparr>next_player_id = 100002, next_room_id = 1001, next_session_id = 3\<rparr>,
      sv_rooms := [(1000, add_players [7, 9] (Room_new 1000 True))], player_room_map := [(7, 1000), (9, 1000)]\<rparr>"

lemma room79_simps:
  "sv_queue room79 = MatchQueue_empty" "next_room_id (sv_ids room79) = 1001"
  "um_find (sv_rooms room79) rid = (if rid = 1000 then Some (add_players [7, 9] (Room_new 1000 True)) else None)"
  "um_find (player_room_map room79) x = (if x = 7 \<or> x = 9 then Some 1000 else None)"
  "gl_rooms (sv_loop room79) = []" "sv_config room79 = config_default" "player_of 0 room79 = 9"
  "um_find (player_sessions (sv_net room79)) x = (if x = 9 then Some 0 else if x = 7 then Some 1 else None)"
  by (simp_all add: room79_def empty_server_def player_of_def GameLoop_new_def)

lemma room79_ready: "match_ready unit_env room79 (length (room_players (add_players [7, 9] (Room_new 1000 True))))"
  by (auto simp: match_ready_def unit_env_def full_context_def room79_simps MatchQueue_empty_def mq_inv_def rooms_inv_def
      room_ok_def GameLoop_GetRoom_def config_default_def to_size_t_def id_need_def Room_AddPlayer_def Room_new_def
      split: if_splits)

theorem HandleLeaveRoom_waiting_witness:
  "let s' = RoomManager_HandleLeaveRoom unit_env (Some 0) (Some 0) room79 in
     um_find (sv_rooms s') 1000 = None \<and> in_lobby s' 9 True \<and> queued_or_placed s' 7"
  using HandleLeaveRoom_waiting [OF room79_ready, of 0 1000 0]
  by (simp add: room79_simps GetPlayerRoom_Some MatchQueue_empty_def Room_AddPlayer_def Room_new_def Let_def)

end
