(* ===== verification/Login_Service.thy ===== *)
theory Login_Service
  imports Room_Manager
begin

text \<open>
  Login, heartbeat and reconnect: \<open>src/src/login/login_service.h\<close> and \<open>login_service.cpp\<close>.  The first
  component of the result of \<open>HandleLogin\<close> is the exception that \<open>LoadPlayer\<close> threw, if any; what was
  done before it stays done.  Both repositories of the server are built over a non-null client, so
  \<open>has_db\<close> is true.  \<open>NowMs()\<close> is read once per call; the readings are arguments.
\<close>

definition GenerateSessionToken :: "i64 \<Rightarrow> i64 \<Rightarrow> string" where
  "GenerateSessionToken now pid = to_string pid @ ''_'' @ to_string now"

text \<open>The steps of \<open>GetOrCreatePlayerId\<close>: the key, the two critical sections and the insert of the player.\<close>

definition account_key :: "string \<Rightarrow> ('f, 'd, 'r) server \<Rightarrow> string \<times> ('f, 'd, 'r) server" where
  "account_key account s =
     (if account = [] then (let (n, s1) = NextPlayerId s in (''guest_'' @ to_string n, s1)) else (account, s))"

definition account_find :: "string \<Rightarrow> ('f, 'd, 'r) server \<Rightarrow> i64 option" where
  "account_find key s = um_find (account_players s) key"

definition account_store :: "string \<Rightarrow> i64 \<Rightarrow> ('f, 'd, 'r) server \<Rightarrow> ('f, 'd, 'r) server" where
  "account_store key pid s = s\<lparr>account_players := um_put key pid (account_players s)\<rparr>"

definition persist_player :: "('f, 'd, 'r) env \<Rightarrow> i64 \<Rightarrow> ('f, 'd, 'r) server \<Rightarrow> ('f, 'd, 'r) server" where
  "persist_player env pid s =
     (if sc_player_repository_set (ctx env)
      then s\<lparr>sv_mysql := snd (PlayerRepository_CreatePlayer (mysql_of env) True
               (PlayerData_default\<lparr>pd_player_id := pid, pd_name := ''player_'' @ to_string pid\<rparr>) (sv_mysql s))\<rparr>
      else s)"

definition LoginService_GetOrCreatePlayerId ::
    "('f, 'd, 'r) env \<Rightarrow> string \<Rightarrow> ('f, 'd, 'r) server \<Rightarrow> i64 \<times> ('f, 'd, 'r) server" where
  "LoginService_GetOrCreatePlayerId env account s =
     (let (key, s1) = account_key account s in
      case account_find key s1 of
        Some pid \<Rightarrow> (pid, s1)
      | None \<Rightarrow>
          let (pid, s2) = NextPlayerId s1;
              s3 = account_store key pid s2
          in (pid, persist_player env pid s3))"

text \<open>The part that login and reconnect share: back into the room the player is in.  The result is the
  room id, when there is a room.  \<open>player\<close> says that the player pointer is not null.\<close>

definition rejoin_room ::
    "service_context \<Rightarrow> i64 \<Rightarrow> sptr \<Rightarrow> bool \<Rightarrow> ('f, 'd, 'r) server \<Rightarrow> i64 option \<times> ('f, 'd, 'r) server" where
  "rejoin_room c pid ses player s =
     (if \<not> room_manager_set c then (None, s)
      else case RoomManager_GetPlayerRoom pid s of
        Some (p, r) \<Rightarrow>
          let (r', n') = Room_OnPlayerReconnect pid (Some ses) r (sv_net s);
              s1 = (on_room p (\<lambda>_. r') s)\<lparr>sv_net := n'\<rparr>;
              status = (if room_state r' = Playing then InBattle else InRoom)
          in (Some (room_id r'),
              if player then on_pm (on_player pid (SetStatus status \<circ> SetPlayerRoomId (room_id r'))) s1 else s1)
      | None \<Rightarrow> (None, if player then on_pm (on_player pid (SetPlayerRoomId 0)) s else s))"

definition close_old_session :: "service_context \<Rightarrow> i64 \<Rightarrow> sptr \<Rightarrow> ('f, 'd, 'r) server \<Rightarrow> ('f, 'd, 'r) server" where
  "close_old_session c pid ses s =
     (if connection_manager_set c then
        (case GetByPlayerId pid s of
           None \<Rightarrow> s
         | Some old \<Rightarrow>
             if Session_SessionId old (sv_net s) \<noteq> Session_SessionId ses (sv_net s)
             then on_net (Session_Close old) s else s)
      else s)"

definition bind_player :: "service_context \<Rightarrow> i64 \<Rightarrow> sptr \<Rightarrow> ('f, 'd, 'r) server \<Rightarrow> ('f, 'd, 'r) server" where
  "bind_player c pid ses s =
     (if connection_manager_set c then on_net (ConnectionManager_BindPlayer pid (Some ses)) s else s)"

definition load_player ::
    "('f, 'd, 'r) env \<Rightarrow> i64 \<Rightarrow> ('f, 'd, 'r) server \<Rightarrow> (cpp_exception + PlayerData) \<times> ('f, 'd, 'r) server" where
  "load_player env pid s =
     (if sc_player_repository_set (ctx env) then
        (let (r, m) = PlayerRepository_LoadPlayer (mysql_of env) True pid (sv_mysql s) in (r, s\<lparr>sv_mysql := m\<rparr>))
      else (Inr \<lparr>pd_player_id = pid, pd_name = ''player_'' @ to_string pid, pd_score = 1000,
                 pd_win_count = 0, pd_lose_count = 0\<rparr>, s))"

text \<open>\<open>HandleLogin\<close> up to the load of the player data, and after it.\<close>

definition login_bind ::
    "('f, 'd, 'r) env \<Rightarrow> i64 \<Rightarrow> i64 \<Rightarrow> i64 \<Rightarrow> sptr \<Rightarrow> ('f, 'd, 'r) server \<Rightarrow> ('f, 'd, 'r) server" where
  "login_bind env token_ms heartbeat_ms pid ses s =
     (let s1 = s\<lparr>session_tokens := um_put pid (GenerateSessionToken token_ms pid) (session_tokens s)\<rparr>;
          s2 = close_old_session (ctx env) pid ses s1;
          s3 = on_net (Session_UpdateHeartbeatTime ses heartbeat_ms \<circ> Session_BindPlayerId ses pid) s2
      in bind_player (ctx env) pid ses s3)"

definition login_enter ::
    "('f, 'd, 'r) env \<Rightarrow> i64 \<Rightarrow> i64 \<Rightarrow> sptr \<Rightarrow> PlayerData \<Rightarrow> ('f, 'd, 'r) server \<Rightarrow> ('f, 'd, 'r) server" where
  "login_enter env token_ms pid ses data s =
     (let player = player_manager_set (ctx env);
          s1 = (if player
                then on_pm (PlayerManager_SetOnline pid (Some ses) \<circ> on_player pid (SetScore (pd_score data))
                       \<circ> PlayerManager_GetOrCreatePlayer pid (pd_name data)) s
                else s);
          s2 = snd (rejoin_room (ctx env) pid ses player s1)
      in send ses MSG_LOGIN_RESP (LoginResponse 0 pid (pd_name data) (GenerateSessionToken token_ms pid)) s2)"

definition LoginService_HandleLogin ::
    "('f, 'd, 'r) env \<Rightarrow> i64 \<Rightarrow> i64 \<Rightarrow> sptr option \<Rightarrow> string option \<Rightarrow> ('f, 'd, 'r) server
       \<Rightarrow> cpp_exception option \<times> ('f, 'd, 'r) server" where
  "LoginService_HandleLogin env token_ms heartbeat_ms session request s =
     (case session of
        None \<Rightarrow> (None, s)
      | Some ses \<Rightarrow>
          (case request of
             None \<Rightarrow> (None, send ses MSG_LOGIN_RESP (LoginResponse 1 0 [] []) s)
           | Some account \<Rightarrow>
               let (pid, s1) = LoginService_GetOrCreatePlayerId env account s;
                   (loaded, s2) = load_player env pid (login_bind env token_ms heartbeat_ms pid ses s1)
               in case loaded of
                    Inl e \<Rightarrow> (Some e, s2)
                  | Inr data \<Rightarrow> (None, login_enter env token_ms pid ses data s2)))"

definition LoginService_HandleHeartbeat ::
    "i64 \<Rightarrow> i64 \<Rightarrow> sptr option \<Rightarrow> ('f, 'd, 'r) server \<Rightarrow> ('f, 'd, 'r) server" where
  "LoginService_HandleHeartbeat heartbeat_ms reply_ms session s =
     (case session of
        None \<Rightarrow> s
      | Some ses \<Rightarrow> send ses MSG_HEARTBEAT_RESP (HeartbeatResponse reply_ms)
                     (on_net (Session_UpdateHeartbeatTime ses heartbeat_ms) s))"

text \<open>The request is the pair of player id and token.\<close>

definition LoginService_HandleReconnect ::
    "('f, 'd, 'r) env \<Rightarrow> sptr option \<Rightarrow> (i64 \<times> string) option \<Rightarrow> ('f, 'd, 'r) server \<Rightarrow> ('f, 'd, 'r) server" where
  "LoginService_HandleReconnect env session request s =
     (case session of
        None \<Rightarrow> s
      | Some ses \<Rightarrow>
          (case request of
             None \<Rightarrow> send ses MSG_RECONNECT_RESP (ReconnectResponse 1 0) s
           | Some (pid, token) \<Rightarrow>
               if um_find (session_tokens s) pid \<noteq> Some token
               then send ses MSG_RECONNECT_RESP (ReconnectResponse 2 0) s
               else
                 let s1 = bind_player (ctx env) pid ses (on_net (Session_BindPlayerId ses pid) s);
                     player = player_manager_set (ctx env);
                     s2 = (if player
                           then on_pm (PlayerManager_GetOrCreatePlayer pid [] \<circ> PlayerManager_SetOnline pid (Some ses)) s1
                           else s1);
                     (room, s3) = rejoin_room (ctx env) pid ses player s2
                 in send ses MSG_RECONNECT_RESP (ReconnectResponse 0 (case room of None \<Rightarrow> 0 | Some rid \<Rightarrow> rid)) s3))"

subsection \<open>Frame lemmas\<close>

lemma rejoin_frame [simp]:
  "sv_ids (snd (rejoin_room c pid ses b s)) = sv_ids s" "sv_queue (snd (rejoin_room c pid ses b s)) = sv_queue s"
  "sv_loop (snd (rejoin_room c pid ses b s)) = sv_loop s" "sv_config (snd (rejoin_room c pid ses b s)) = sv_config s"
  "player_room_map (snd (rejoin_room c pid ses b s)) = player_room_map s"
  "account_players (snd (rejoin_room c pid ses b s)) = account_players s"
  "session_tokens (snd (rejoin_room c pid ses b s)) = session_tokens s"
  "pending_settlements (snd (rejoin_room c pid ses b s)) = pending_settlements s"
  "sv_mysql (snd (rejoin_room c pid ses b s)) = sv_mysql s" "sv_redis (snd (rejoin_room c pid ses b s)) = sv_redis s"
  "player_sessions (sv_net (snd (rejoin_room c pid ses b s))) = player_sessions (sv_net s)"
  "sessions (sv_net (snd (rejoin_room c pid ses b s))) = sessions (sv_net s)"
  "outbox (sv_net (snd (rejoin_room c pid ses b s))) = outbox (sv_net s)"
  "closing (sv_net (snd (rejoin_room c pid ses b s))) = closing (sv_net s)"
  "online_sessions (sv_pm (snd (rejoin_room c pid ses b s))) = online_sessions (sv_pm s)"
  by (simp_all add: rejoin_room_def on_room_def Room_OnPlayerReconnect_def Let_def split: option.splits)

lemma rejoin_sessions [simp]:
  "ses_player_id (heap (sv_net (snd (rejoin_room c pid ses b s))) x) = ses_player_id (heap (sv_net s) x)"
  "conn_alive (heap (sv_net (snd (rejoin_room c pid ses b s))) x) = conn_alive (heap (sv_net s) x)"
  "session_id (heap (sv_net (snd (rejoin_room c pid ses b s))) x) = session_id (heap (sv_net s) x)"
  by (simp_all add: rejoin_room_def on_room_def Room_OnPlayerReconnect_def Session_SetRoomId_def Let_def
      split: option.splits)

lemma close_old_frame [simp]:
  "sv_ids (close_old_session c pid ses s) = sv_ids s" "sv_queue (close_old_session c pid ses s) = sv_queue s"
  "sv_loop (close_old_session c pid ses s) = sv_loop s" "sv_config (close_old_session c pid ses s) = sv_config s"
  "player_room_map (close_old_session c pid ses s) = player_room_map s" "sv_rooms (close_old_session c pid ses s) = sv_rooms s"
  "account_players (close_old_session c pid ses s) = account_players s" "sv_pm (close_old_session c pid ses s) = sv_pm s"
  "session_tokens (close_old_session c pid ses s) = session_tokens s"
  "pending_settlements (close_old_session c pid ses s) = pending_settlements s"
  "sv_mysql (close_old_session c pid ses s) = sv_mysql s" "sv_redis (close_old_session c pid ses s) = sv_redis s"
  "heap (sv_net (close_old_session c pid ses s)) = heap (sv_net s)"
  "player_sessions (sv_net (close_old_session c pid ses s)) = player_sessions (sv_net s)"
  "sessions (sv_net (close_old_session c pid ses s)) = sessions (sv_net s)"
  "outbox (sv_net (close_old_session c pid ses s)) = outbox (sv_net s)"
  by (simp_all add: close_old_session_def split: option.splits)

text \<open>The session that a login of \<open>pid\<close> on \<open>ses\<close> closes.\<close>

definition replaced_session :: "i64 \<Rightarrow> sptr \<Rightarrow> ('f, 'd, 'r) server \<Rightarrow> sptr list" where
  "replaced_session pid ses s =
     (case GetByPlayerId pid s of
        None \<Rightarrow> []
      | Some old \<Rightarrow>
          if Session_SessionId old (sv_net s) \<noteq> Session_SessionId ses (sv_net s) \<and> conn_alive (heap (sv_net s) old)
          then [old] else [])"

lemma close_old_closing:
  "connection_manager_set c \<Longrightarrow>
     closing (sv_net (close_old_session c pid ses s)) = closing (sv_net s) @ replaced_session pid ses s"
  by (simp add: close_old_session_def replaced_session_def Session_Close_def split: option.splits)

lemma load_player_frame:
  assumes "load_player env pid s = (r, s')"
  obtains m where "s' = s\<lparr>sv_mysql := m\<rparr>"
  using assms by (auto simp: load_player_def split: if_splits prod.splits) (metis server.surjective server.update_convs(11))

lemma persist_player_frame:
  obtains m where "persist_player env pid s = s\<lparr>sv_mysql := m\<rparr>"
  by (cases "sc_player_repository_set (ctx env)")
     (auto simp: persist_player_def, metis server.surjective server.update_convs(11))

text \<open>Parts of the state that finding or creating the account leaves alone.\<close>

lemma GetOrCreate_frame:
  assumes "LoginService_GetOrCreatePlayerId env account s = (pid, s')"
  shows "sv_net s' = sv_net s" "sv_pm s' = sv_pm s" "sv_rooms s' = sv_rooms s" "player_room_map s' = player_room_map s"
    "sv_queue s' = sv_queue s" "sv_loop s' = sv_loop s" "sv_config s' = sv_config s" "session_tokens s' = session_tokens s"
    "next_room_id (sv_ids s') = next_room_id (sv_ids s)" "pending_settlements s' = pending_settlements s"
    "sv_redis s' = sv_redis s"
  using assms
  by (auto simp: LoginService_GetOrCreatePlayerId_def account_key_def NextPlayerId_def account_store_def persist_player_def
      Let_def split: option.splits if_splits)

lemma GetOrCreate_account:
  assumes "LoginService_GetOrCreatePlayerId env account s = (pid, s')" and "account \<noteq> []"
  shows "account_find account s' = Some pid" and "account_find account s = Some p \<Longrightarrow> pid = p \<and> s' = s"
    and "account_find account s = None \<Longrightarrow> pid = next_player_id (sv_ids s)"
  using assms
  by (auto simp: LoginService_GetOrCreatePlayerId_def account_key_def NextPlayerId_def account_store_def persist_player_def
      account_find_def Let_def split: option.splits if_splits)

subsection \<open>The room table\<close>

lemma OnPlayerReconnect_fst:
  "same_room r (fst (Room_OnPlayerReconnect pid x r n)) \<and> room_state (fst (Room_OnPlayerReconnect pid x r n)) = room_state r"
  by (simp add: Room_OnPlayerReconnect_def same_room_def Let_def)

lemma OnPlayerReconnect_room:
  "Room_OnPlayerReconnect pid x r n = (r', n') \<Longrightarrow> same_room r r' \<and> room_state r' = room_state r"
  using OnPlayerReconnect_fst [of r pid x n] by simp

lemma rooms_inv_rejoin [inv_intros]:
  assumes i: "rooms_inv c s"
  shows "rooms_inv c (snd (rejoin_room c pid ses b s))"
proof (cases "room_manager_set c \<and> (\<exists>p r. RoomManager_GetPlayerRoom pid s = Some (p, r))")
  case True
  then obtain p r where g: "RoomManager_GetPlayerRoom pid s = Some (p, r)" by blast
  obtain r' n' where t: "Room_OnPlayerReconnect pid (Some ses) r (sv_net s) = (r', n')" by fastforce
  have "rooms_inv c (on_room p (\<lambda>_. r') s)"
    using rooms_inv_on_room [OF i, of p r "\<lambda>_. r'"] g OnPlayerReconnect_room [OF t]
    by (simp add: GetPlayerRoom_Some active_def)
  moreover have "rooms_inv c (snd (rejoin_room c pid ses b s)) = rooms_inv c (on_room p (\<lambda>_. r') s)"
    using True g t by (intro rooms_inv_cong) (simp_all add: rejoin_room_def on_room_def Let_def)
  ultimately show ?thesis by simp
next
  case False
  then have "rooms_inv c (snd (rejoin_room c pid ses b s)) = rooms_inv c s"
    by (intro rooms_inv_cong) (auto simp: rejoin_room_def split: option.splits)
  then show ?thesis using i by simp
qed

lemma rooms_inv_ids:
  assumes "next_room_id (sv_ids s') = next_room_id (sv_ids s)" "sv_rooms s' = sv_rooms s"
    "player_room_map s' = player_room_map s" "sv_loop s' = sv_loop s"
  shows "rooms_inv c s' = rooms_inv c s"
  using assms by (simp add: rooms_inv_def room_ok_def battle_ok_def)

lemma bind_player_frame [simp]:
  "sv_ids (bind_player c pid ses s) = sv_ids s" "sv_queue (bind_player c pid ses s) = sv_queue s"
  "sv_loop (bind_player c pid ses s) = sv_loop s" "sv_config (bind_player c pid ses s) = sv_config s"
  "player_room_map (bind_player c pid ses s) = player_room_map s" "sv_rooms (bind_player c pid ses s) = sv_rooms s"
  "account_players (bind_player c pid ses s) = account_players s" "sv_pm (bind_player c pid ses s) = sv_pm s"
  "session_tokens (bind_player c pid ses s) = session_tokens s"
  "pending_settlements (bind_player c pid ses s) = pending_settlements s"
  "sv_mysql (bind_player c pid ses s) = sv_mysql s" "sv_redis (bind_player c pid ses s) = sv_redis s"
  "heap (sv_net (bind_player c pid ses s)) = heap (sv_net s)"
  "sessions (sv_net (bind_player c pid ses s)) = sessions (sv_net s)"
  "closing (sv_net (bind_player c pid ses s)) = closing (sv_net s)"
  "outbox (sv_net (bind_player c pid ses s)) = outbox (sv_net s)"
  "connection_manager_set c \<Longrightarrow>
     player_sessions (sv_net (bind_player c pid ses s)) = um_put pid ses (player_sessions (sv_net s))"
  by (simp_all add: bind_player_def ConnectionManager_BindPlayer_def)

lemma rooms_inv_pm [simp]: "rooms_inv c (s\<lparr>sv_pm := x\<rparr>) = rooms_inv c s"
  and rooms_inv_net [simp]: "rooms_inv c (s\<lparr>sv_net := y\<rparr>) = rooms_inv c s"
  and rooms_inv_mysql [simp]: "rooms_inv c (s\<lparr>sv_mysql := m\<rparr>) = rooms_inv c s"
  and rooms_inv_bind [simp]: "rooms_inv c (bind_player d pid ses s) = rooms_inv c s"
  and rooms_inv_login_bind [simp]: "rooms_inv c (login_bind env t h pid ses s) = rooms_inv c s"
  by (rule rooms_inv_ids; simp add: login_bind_def Let_def)+

lemma rooms_inv_GetOrCreate:
  "LoginService_GetOrCreatePlayerId env account s = (pid, s') \<Longrightarrow> rooms_inv c s' = rooms_inv c s"
  by (rule rooms_inv_ids) (blast dest: GetOrCreate_frame)+

lemma rooms_inv_load_player: "load_player env pid s = (r, s') \<Longrightarrow> rooms_inv c s' = rooms_inv c s"
  by (erule load_player_frame) simp

lemma rooms_inv_login_enter: "rooms_inv (ctx env) s \<Longrightarrow> rooms_inv (ctx env) (login_enter env t pid ses data s)"
  by (simp add: login_enter_def Let_def rooms_inv_send rooms_inv_rejoin)

lemma rooms_inv_HandleLogin [inv_intros]:
  assumes i: "rooms_inv (ctx env) s"
  shows "rooms_inv (ctx env) (snd (LoginService_HandleLogin env t h session request s))"
  using i
  by (auto simp: LoginService_HandleLogin_def rooms_inv_send rooms_inv_GetOrCreate rooms_inv_load_player
      split: option.splits sum.splits prod.splits intro!: rooms_inv_login_enter)

lemma rooms_inv_HandleHeartbeat [inv_intros]:
  "rooms_inv c s \<Longrightarrow> rooms_inv c (LoginService_HandleHeartbeat h r session s)"
  by (simp add: LoginService_HandleHeartbeat_def rooms_inv_send split: option.splits)

lemma rooms_inv_HandleReconnect [inv_intros]:
  "rooms_inv (ctx env) s \<Longrightarrow> rooms_inv (ctx env) (LoginService_HandleReconnect env session request s)"
  by (auto simp: LoginService_HandleReconnect_def rooms_inv_send rooms_inv_rejoin split_beta Let_def
      split: option.splits)

subsection \<open>Where a returning player ends up\<close>

text \<open>\<open>reentered pid ses s s'\<close>: in \<open>s'\<close> the player is where the room table of \<open>s\<close> says.\<close>

definition reentered :: "i64 \<Rightarrow> sptr \<Rightarrow> ('f, 'd, 'r) server \<Rightarrow> ('f, 'd, 'r) server \<Rightarrow> bool" where
  "reentered pid ses s s' \<longleftrightarrow>
     (case RoomManager_GetPlayerRoom pid s of
        None \<Rightarrow> sv_rooms s' = sv_rooms s \<and>
          (\<exists>x. PlayerManager_GetPlayer pid (sv_pm s') = Some x \<and> pl_room_id x = 0)
      | Some (p, r) \<Rightarrow>
          room_of ses s' = p \<and>
          (\<exists>r'. RoomManager_GetRoom p s' = Some r' \<and> same_room r r' \<and> room_state r' = room_state r \<and>
             (\<exists>y. um_find (room_players r') pid = Some y \<and> connected y)) \<and>
          (\<exists>x. PlayerManager_GetPlayer pid (sv_pm s') = Some x \<and> pl_room_id x = p \<and>
             pl_status x = (if room_state r = Playing then InBattle else InRoom)))"

lemma on_player_find [simp]:
  "um_find (players (on_player p f pm)) q =
     (if q = p then map_option f (um_find (players pm) q) else um_find (players pm) q)"
  by (simp add: on_player_def)

lemma rejoin_reenters:
  assumes i: "rooms_inv c s" and c: "room_manager_set c" and x: "PlayerManager_GetPlayer pid (sv_pm s) = Some x"
    and e: "rejoin_room c pid ses True s = (room, s')"
  shows "reentered pid ses s s'" and "room = map_option fst (RoomManager_GetPlayerRoom pid s)"
    and "RoomManager_GetPlayerRoom pid s = None \<Longrightarrow>
           PlayerManager_GetPlayer pid (sv_pm s') = Some (x\<lparr>pl_room_id := 0\<rparr>)"
proof -
  have x': "um_find (players (sv_pm s)) pid = Some x" using x by (simp add: PlayerManager_GetPlayer_def)
  have "reentered pid ses s s' \<and> room = map_option fst (RoomManager_GetPlayerRoom pid s)"
  proof (cases "RoomManager_GetPlayerRoom pid s")
    case None
    then have "s' = on_pm (on_player pid (SetPlayerRoomId 0)) s" "room = None"
      using e c by (simp_all add: rejoin_room_def)
    then show ?thesis
      using None x' by (simp add: reentered_def PlayerManager_GetPlayer_def SetPlayerRoomId_def)
  next
    case (Some pr)
    obtain p r where g: "RoomManager_GetPlayerRoom pid s = Some (p, r)" using Some by (cases pr) simp
    then have m: "um_find (player_room_map s) pid = Some p" "um_find (sv_rooms s) p = Some r"
      by (simp_all add: GetPlayerRoom_Some)
    then have mem: "pid \<in> fst ` set (room_players r)" using rooms_invD(3) [OF i m(1)] by auto
    then obtain y where y: "um_find (room_players r) pid = Some y" using um_find_member by fastforce
    have id: "room_id r = p" using rooms_invD(2) [OF i m(2)] by (simp add: room_ok_def)
    obtain r' n' where t: "Room_OnPlayerReconnect pid (Some ses) r (sv_net s) = (r', n')" by fastforce
    note rr = OnPlayerReconnect_room [OF t]
    have r': "um_find (room_players r') pid = Some (y\<lparr>connected := True\<rparr>)" "room_id r' = p"
        "ses_room_id (heap n' ses) = p"
      using t y id by (auto simp: Room_OnPlayerReconnect_def Session_SetRoomId_def Let_def)
    let ?st = "if room_state r = Playing then InBattle else InRoom"
    have st: "sv_rooms s' = um_modify p (\<lambda>_. r') (sv_rooms s)" "sv_net s' = n'"
        "sv_pm s' = on_player pid (SetStatus ?st \<circ> SetPlayerRoomId p) (sv_pm s)" "room = Some p"
      using e c g t r'(2) rr by (auto simp: rejoin_room_def Let_def on_room_def)
    have "\<exists>y. um_find (room_players r') pid = Some y \<and> connected y" using r'(1) by simp
    moreover have "RoomManager_GetRoom p s' = Some r'" using m(2) by (simp add: RoomManager_GetRoom_def st)
    moreover have "PlayerManager_GetPlayer pid (sv_pm s') = Some (x\<lparr>pl_room_id := p, pl_status := ?st\<rparr>)"
      using x' by (simp add: PlayerManager_GetPlayer_def st(3) player_setters)
    ultimately show ?thesis
      using rr r'(3) g st(4) unfolding reentered_def g by (auto simp: room_of_def st(2))
  qed
  then show "reentered pid ses s s'" "room = map_option fst (RoomManager_GetPlayerRoom pid s)" by blast+
  show "PlayerManager_GetPlayer pid (sv_pm s') = Some (x\<lparr>pl_room_id := 0\<rparr>)"
    if "RoomManager_GetPlayerRoom pid s = None"
    using that e c x' by (auto simp: rejoin_room_def PlayerManager_GetPlayer_def SetPlayerRoomId_def)
qed

lemma rejoin_others:
  "q \<noteq> pid \<Longrightarrow> PlayerManager_GetPlayer q (sv_pm (snd (rejoin_room c pid ses b s))) = PlayerManager_GetPlayer q (sv_pm s)"
  by (simp add: rejoin_room_def on_room_def Let_def PlayerManager_GetPlayer_def split_beta split: option.splits)

text \<open>The room lookup depends on the room tables only.\<close>

lemma reentered_cong:
  "player_room_map s1 = player_room_map s \<Longrightarrow> sv_rooms s1 = sv_rooms s \<Longrightarrow> reentered pid ses s1 s' = reentered pid ses s s'"
  unfolding reentered_def RoomManager_GetPlayerRoom_def by (simp only:)

subsection \<open>Login\<close>

lemma login_bind_simps [simp]:
  "sv_ids (login_bind env t h pid ses s) = sv_ids s" "sv_queue (login_bind env t h pid ses s) = sv_queue s"
  "sv_loop (login_bind env t h pid ses s) = sv_loop s" "sv_config (login_bind env t h pid ses s) = sv_config s"
  "player_room_map (login_bind env t h pid ses s) = player_room_map s" "sv_rooms (login_bind env t h pid ses s) = sv_rooms s"
  "account_players (login_bind env t h pid ses s) = account_players s" "sv_pm (login_bind env t h pid ses s) = sv_pm s"
  "pending_settlements (login_bind env t h pid ses s) = pending_settlements s"
  "sv_mysql (login_bind env t h pid ses s) = sv_mysql s" "sv_redis (login_bind env t h pid ses s) = sv_redis s"
  "outbox (sv_net (login_bind env t h pid ses s)) = outbox (sv_net s)"
  "sessions (sv_net (login_bind env t h pid ses s)) = sessions (sv_net s)"
  "session_tokens (login_bind env t h pid ses s) = um_put pid (GenerateSessionToken t pid) (session_tokens s)"
  "heap (sv_net (login_bind env t h pid ses s)) =
     (heap (sv_net s))(ses := (heap (sv_net s) ses)\<lparr>ses_player_id := pid, last_heartbeat_ms := h\<rparr>)"
  by (simp_all add: login_bind_def Let_def Session_UpdateHeartbeatTime_def Session_BindPlayerId_def)

lemma login_bind_net:
  assumes "connection_manager_set (ctx env)"
  shows "player_sessions (sv_net (login_bind env t h pid ses s)) = um_put pid ses (player_sessions (sv_net s))"
    and "closing (sv_net (login_bind env t h pid ses s)) = closing (sv_net s) @ replaced_session pid ses s"
  using assms by (simp_all add: login_bind_def Let_def close_old_closing replaced_session_def GetByPlayerId_def
      cong: option.case_cong)

lemma login_enter_simps [simp]:
  "account_players (login_enter env t pid ses data s) = account_players s"
  "session_tokens (login_enter env t pid ses data s) = session_tokens s"
  "sv_queue (login_enter env t pid ses data s) = sv_queue s" "sv_ids (login_enter env t pid ses data s) = sv_ids s"
  "sv_config (login_enter env t pid ses data s) = sv_config s" "sv_loop (login_enter env t pid ses data s) = sv_loop s"
  "player_room_map (login_enter env t pid ses data s) = player_room_map s"
  "player_sessions (sv_net (login_enter env t pid ses data s)) = player_sessions (sv_net s)"
  "closing (sv_net (login_enter env t pid ses data s)) = closing (sv_net s)"
  "ses_player_id (heap (sv_net (login_enter env t pid ses data s)) x) = ses_player_id (heap (sv_net s) x)"
  by (simp_all add: login_enter_def Let_def)

lemma login_enter_outbox:
  "outbox (sv_net (login_enter env t pid ses data s)) = outbox (sv_net s) @
     (if conn_alive (heap (sv_net s) ses)
      then [(ses, MSG_LOGIN_RESP, LoginResponse 0 pid (pd_name data) (GenerateSessionToken t pid))] else [])"
  by (simp add: login_enter_def Let_def send_def Session_Send_def)

lemma reentered_frame:
  "heap (sv_net t) = heap (sv_net s') \<Longrightarrow> sv_rooms t = sv_rooms s' \<Longrightarrow> sv_pm t = sv_pm s' \<Longrightarrow>
     reentered pid ses s t = reentered pid ses s s'"
  unfolding reentered_def room_of_def RoomManager_GetRoom_def by (simp only:)

lemma reentered_send: "reentered pid ses s (send x mid msg s') = reentered pid ses s s'"
  by (rule reentered_frame) simp_all

lemma login_enter_player:
  assumes i: "rooms_inv (ctx env) s" and c: "room_manager_set (ctx env)" "player_manager_set (ctx env)"
  shows "reentered pid ses s (login_enter env t pid ses data s)"
    and "PlayerManager_GetPlayer pid (sv_pm (login_enter env t pid ses data s)) \<noteq> None"
    and "um_find (online_sessions (sv_pm (login_enter env t pid ses data s))) pid = Some (Some ses)"
proof -
  let ?s1 = "s\<lparr>sv_pm := PlayerManager_SetOnline pid (Some ses) (on_player pid (SetScore (pd_score data))
                   (PlayerManager_GetOrCreatePlayer pid (pd_name data) (sv_pm s)))\<rparr>"
  obtain room s2 where e: "rejoin_room (ctx env) pid ses True ?s1 = (room, s2)" by fastforce
  have le: "login_enter env t pid ses data s = send ses MSG_LOGIN_RESP (LoginResponse 0 pid (pd_name data) (GenerateSessionToken t pid)) s2"
    using e c by (simp add: login_enter_def)
  have "PlayerManager_GetPlayer pid (PlayerManager_GetOrCreatePlayer pid (pd_name data) (sv_pm s)) \<noteq> None"
    by (simp add: pm.created)
  then obtain x where "PlayerManager_GetPlayer pid (sv_pm ?s1) = Some x"
    by (fastforce simp: PlayerManager_GetPlayer_def PlayerManager_SetOnline_def)
  note r = rejoin_reenters [OF _ c(1) this e]
  have "reentered pid ses s s2" using r(1) i reentered_cong [of ?s1 s] by simp
  then show "reentered pid ses s (login_enter env t pid ses data s)" unfolding le reentered_send .
  then show "PlayerManager_GetPlayer pid (sv_pm (login_enter env t pid ses data s)) \<noteq> None"
    by (auto simp: reentered_def split: option.splits)
  have "online_sessions (sv_pm s2) = online_sessions (sv_pm ?s1)" using rejoin_frame(15) [of "ctx env" pid ses True ?s1] e by simp
  then show "um_find (online_sessions (sv_pm (login_enter env t pid ses data s))) pid = Some (Some ses)"
    by (simp add: le PlayerManager_SetOnline_def)
qed

text \<open>What a login does to the sessions: only the player and the heartbeat time of its own session change.\<close>

lemma HandleLogin_sessions:
  assumes l: "LoginService_HandleLogin env t h (Some ses) request s = (e, s')"
  shows "sessions (sv_net s') = sessions (sv_net s) \<and>
    (\<forall>p. Session_SessionId p (sv_net s') = Session_SessionId p (sv_net s) \<and>
       conn_alive (heap (sv_net s') p) = conn_alive (heap (sv_net s) p) \<and>
       (p \<noteq> ses \<longrightarrow> Session_PlayerId p (sv_net s') = Session_PlayerId p (sv_net s)))"
proof (cases request)
  case None
  then show ?thesis using l by (auto simp: LoginService_HandleLogin_def)
next
  case (Some account)
  obtain pid s1 where a: "LoginService_GetOrCreatePlayerId env account s = (pid, s1)" by fastforce
  obtain loaded s6 where b: "load_player env pid (login_bind env t h pid ses s1) = (loaded, s6)" by fastforce
  obtain m where m: "s6 = (login_bind env t h pid ses s1)\<lparr>sv_mysql := m\<rparr>" by (rule load_player_frame [OF b])
  note f = GetOrCreate_frame(1) [OF a]
  have "sv_net s' = sv_net s6 \<or> (\<exists>data. s' = login_enter env t pid ses data s6)"
    using l Some a b by (auto simp: LoginService_HandleLogin_def split: sum.splits)
  then show ?thesis using f by (auto simp: m login_enter_def Let_def split: if_splits)
qed

lemma login_outcome:
  assumes full: "ctx env = full_context" and inv: "rooms_inv (ctx env) s" and acc: "account \<noteq> []"
    and l: "LoginService_HandleLogin env t h (Some ses) (Some account) s = (None, s')"
  shows "\<exists>pid name.
    account_find account s' = Some pid \<and> (\<forall>p. account_find account s = Some p \<longrightarrow> p = pid) \<and>
    player_of ses s' = pid \<and> GetByPlayerId pid s' = Some ses \<and>
    um_find (session_tokens s') pid = Some (GenerateSessionToken t pid) \<and>
    um_find (online_sessions (sv_pm s')) pid = Some (Some ses) \<and>
    closing (sv_net s') = closing (sv_net s) @ replaced_session pid ses s \<and>
    outbox (sv_net s') = outbox (sv_net s) @
      (if conn_alive (heap (sv_net s) ses)
       then [(ses, MSG_LOGIN_RESP, LoginResponse 0 pid name (GenerateSessionToken t pid))] else []) \<and>
    reentered pid ses s s'"
proof -
  obtain pid s1 where a: "LoginService_GetOrCreatePlayerId env account s = (pid, s1)" by fastforce
  obtain loaded s6 where b: "load_player env pid (login_bind env t h pid ses s1) = (loaded, s6)" by fastforce
  obtain m where m: "s6 = (login_bind env t h pid ses s1)\<lparr>sv_mysql := m\<rparr>" by (rule load_player_frame [OF b])
  obtain data where s': "s' = login_enter env t pid ses data s6"
    using l a b by (auto simp: LoginService_HandleLogin_def split: sum.splits)
  note f = GetOrCreate_frame [OF a] and g = GetOrCreate_account [OF a acc]
  have c: "connection_manager_set (ctx env)" "room_manager_set (ctx env)" "player_manager_set (ctx env)"
    using full by (simp_all add: full_context_def)
  have i6: "rooms_inv (ctx env) s6"
    using inv rooms_inv_GetOrCreate [OF a] by (simp add: m)
  note e = login_enter_player [OF i6 c(2,3), where t = t and pid = pid and ses = ses and data = data, folded s']
  have "reentered pid ses s s'" using e(1) reentered_cong [of s6 s] f by (simp add: m)
  moreover have "account_find account s' = Some pid" using g(1) by (simp add: s' m account_find_def)
  moreover have "\<forall>p. account_find account s = Some p \<longrightarrow> p = pid" using g(2) by blast
  moreover have "player_of ses s' = pid" by (simp add: s' m player_of_def)
  moreover have "GetByPlayerId pid s' = Some ses"
    using login_bind_net(1) [OF c(1)] by (simp add: s' m GetByPlayerId_def ConnectionManager_GetByPlayerId_def)
  moreover have "um_find (session_tokens s') pid = Some (GenerateSessionToken t pid)" by (simp add: s' m)
  moreover have "closing (sv_net s') = closing (sv_net s) @ replaced_session pid ses s"
    using login_bind_net(2) [OF c(1), of t h pid ses s1] f
    by (simp add: s' m replaced_session_def GetByPlayerId_def cong: option.case_cong)
  moreover have "outbox (sv_net s') = outbox (sv_net s) @
      (if conn_alive (heap (sv_net s) ses)
       then [(ses, MSG_LOGIN_RESP, LoginResponse 0 pid (pd_name data) (GenerateSessionToken t pid))] else [])"
    using f by (simp add: s' m login_enter_outbox)
  ultimately show ?thesis using e(3) by blast
qed

text \<open>C6. A login that does not fail with an exception binds the session and the player to each other: the
  account is known by the player's id from then on (and a known account keeps its id), the reconnect
  token of the answer is the stored one, the session of another connection that the player had is
  closed and no other, the player is online, and is back in the room the room table has for it, in
  the state that room is in.\<close>

theorem HandleLogin_outcome:
  assumes full: "ctx env = full_context" and inv: "rooms_inv (ctx env) s" and acc: "account \<noteq> []"
    and l: "LoginService_HandleLogin env t h (Some ses) (Some account) s = (None, s')"
  shows "\<exists>pid name.
    account_find account s' = Some pid \<and> (\<forall>p. account_find account s = Some p \<longrightarrow> p = pid) \<and>
    player_of ses s' = pid \<and> GetByPlayerId pid s' = Some ses \<and>
    um_find (session_tokens s') pid = Some (GenerateSessionToken t pid) \<and>
    um_find (online_sessions (sv_pm s')) pid = Some (Some ses) \<and>
    closing (sv_net s') = closing (sv_net s) @ replaced_session pid ses s \<and>
    outbox (sv_net s') = outbox (sv_net s) @
      (if conn_alive (heap (sv_net s) ses)
       then [(ses, MSG_LOGIN_RESP, LoginResponse 0 pid name (GenerateSessionToken t pid))] else []) \<and>
    reentered pid ses s s'"
  by (rule login_outcome [OF full inv acc l])

lemma reconnect_outcome:
  assumes full: "ctx env = full_context" and inv: "rooms_inv (ctx env) s"
    and s': "s' = LoginService_HandleReconnect env (Some ses) (Some (pid, token)) s"
  shows "if um_find (session_tokens s) pid \<noteq> Some token
    then s' = send ses MSG_RECONNECT_RESP (ReconnectResponse 2 0) s
    else player_of ses s' = pid \<and> GetByPlayerId pid s' = Some ses \<and>
      um_find (online_sessions (sv_pm s')) pid = Some (Some ses) \<and> reentered pid ses s s' \<and>
      session_tokens s' = session_tokens s \<and> closing (sv_net s') = closing (sv_net s) \<and>
      outbox (sv_net s') = outbox (sv_net s) @
        (if conn_alive (heap (sv_net s) ses)
         then [(ses, MSG_RECONNECT_RESP,
                ReconnectResponse 0 (case RoomManager_GetPlayerRoom pid s of None \<Rightarrow> 0 | Some (p, r) \<Rightarrow> p))] else [])"
proof (cases "um_find (session_tokens s) pid = Some token")
  case False
  then show ?thesis by (simp add: s' LoginService_HandleReconnect_def)
next
  case tok: True
  have c: "connection_manager_set (ctx env)" "room_manager_set (ctx env)" "player_manager_set (ctx env)"
    using full by (simp_all add: full_context_def)
  define s1 where "s1 = bind_player (ctx env) pid ses (on_net (Session_BindPlayerId ses pid) s)"
  define s2 where "s2 = on_pm (PlayerManager_GetOrCreatePlayer pid [] \<circ> PlayerManager_SetOnline pid (Some ses)) s1"
  obtain room s3 where e: "rejoin_room (ctx env) pid ses True s2 = (room, s3)" by fastforce
  have eq: "s' = send ses MSG_RECONNECT_RESP (ReconnectResponse 0 (case room of None \<Rightarrow> 0 | Some rid \<Rightarrow> rid)) s3"
    using s' tok c e by (simp add: LoginService_HandleReconnect_def s1_def s2_def)
  have i2: "rooms_inv (ctx env) s2" using inv by (simp add: s2_def s1_def)
  obtain x where x: "PlayerManager_GetPlayer pid (sv_pm s2) = Some x"
    by (simp add: s2_def pm.created)
  have tabs: "player_room_map s2 = player_room_map s" "sv_rooms s2 = sv_rooms s" by (simp_all add: s2_def s1_def)
  then have gpr: "RoomManager_GetPlayerRoom pid s2 = RoomManager_GetPlayerRoom pid s"
    by (simp only: RoomManager_GetPlayerRoom_def)
  note r = rejoin_reenters [OF i2 c(2) x e]
  note f = rejoin_frame [of "ctx env" pid ses True s2, unfolded e snd_conv] and h = rejoin_sessions [of "ctx env" pid ses True s2, unfolded e snd_conv]
  have "(case room of None \<Rightarrow> 0 | Some rid \<Rightarrow> rid) = (case RoomManager_GetPlayerRoom pid s of None \<Rightarrow> 0 | Some (p, r) \<Rightarrow> p)"
    by (cases "RoomManager_GetPlayerRoom pid s") (auto simp: r(2) gpr)
  moreover have "reentered pid ses s s'" using r(1) reentered_cong [OF tabs] by (simp add: eq reentered_send)
  ultimately show ?thesis
    using c(1) tok by (simp add: eq player_of_def GetByPlayerId_def ConnectionManager_GetByPlayerId_def f h s2_def s1_def
        PlayerManager_SetOnline_def send_def Session_Send_def Session_BindPlayerId_def)
qed

text \<open>C11. A reconnect request is answered with code 2 and changes nothing unless it carries the token stored for the
  player; with it, the session is the player's session, the player is online again and back in its
  room, whose id is in the answer.\<close>

theorem HandleReconnect_outcome:
  assumes full: "ctx env = full_context" and inv: "rooms_inv (ctx env) s"
    and s': "s' = LoginService_HandleReconnect env (Some ses) (Some (pid, token)) s"
  shows "if um_find (session_tokens s) pid \<noteq> Some token
    then s' = send ses MSG_RECONNECT_RESP (ReconnectResponse 2 0) s
    else player_of ses s' = pid \<and> GetByPlayerId pid s' = Some ses \<and>
      um_find (online_sessions (sv_pm s')) pid = Some (Some ses) \<and> reentered pid ses s s' \<and>
      session_tokens s' = session_tokens s \<and> closing (sv_net s') = closing (sv_net s) \<and>
      outbox (sv_net s') = outbox (sv_net s) @
        (if conn_alive (heap (sv_net s) ses)
         then [(ses, MSG_RECONNECT_RESP,
                ReconnectResponse 0 (case RoomManager_GetPlayerRoom pid s of None \<Rightarrow> 0 | Some (p, r) \<Rightarrow> p))] else [])"
  using full inv s' by (rule reconnect_outcome)

subsection \<open>Concrete logins\<close>

text \<open>Two players in room 1000; a third connection (pointer 2) has nobody yet.  MySQL cannot be reached.\<close>

definition down_env :: "(rat option, sim, string \<Rightarrow> zset) env" where
  "down_env = unit_env\<lparr>mysql_of := (sim_api True)\<lparr>mysql_init := \<lambda>d. (False, d)\<rparr>\<rparr>"

definition login_room :: "(rat option, sim, string \<Rightarrow> zset) server" where
  "login_room = room79\<lparr>sv_net := (sv_net room79)
     \<lparr>heap := (\<lambda>p. (Session_new (int p + 1) 0)\<lparr>ses_player_id := (if p = 0 then 9 else if p = 1 then 7 else 0)\<rparr>)\<rparr>,
     account_players := [(''bob'', 7)], session_tokens := [(7, ''7_5'')]\<rparr>"

lemma login_room_inv: "rooms_inv full_context login_room"
  using room79_ready rooms_inv_ids [of login_room room79 full_context]
  by (simp add: match_ready_def unit_env_def login_room_def)

lemma down_simps [simp]: "ctx down_env = full_context" "\<not> my_conn m \<Longrightarrow> \<not> fst (has_conn (mysql_of down_env) m)"
  by (simp_all add: down_env_def unit_env_def has_conn_def MysqlClient_Connect_def Let_def)

lemma down_load_player:
  assumes "\<not> my_conn (sv_mysql s)"
  shows "fst (load_player down_env pid s) =
    Inr (PlayerData_default\<lparr>pd_player_id := pid, pd_name := ''player_'' @ to_string pid\<rparr>)"
  using assms down_simps(2) [of "sv_mysql s"]
  by (simp add: load_player_def full_context_def PlayerRepository_LoadPlayer_def PlayerRepository_FindPlayer_def
      MysqlClient_Query_def split_beta Let_def)

lemma login_room_login:
  "account_find ''bob'' login_room = Some 7"
  "\<exists>s'. LoginService_HandleLogin down_env 8 8 (Some 2) (Some ''bob'') login_room = (None, s')"
proof -
  let ?s = "login_room"
  show a: "account_find ''bob'' ?s = Some 7" by (simp add: account_find_def login_room_def)
  have goc: "LoginService_GetOrCreatePlayerId down_env ''bob'' ?s = (7, ?s)"
    using a by (simp add: LoginService_GetOrCreatePlayerId_def account_key_def)
  have "\<not> my_conn (sv_mysql (login_bind down_env 8 8 7 2 ?s))"
    by (simp add: login_room_def room79_def empty_server_def mysql0_def)
  then show "\<exists>s'. LoginService_HandleLogin down_env 8 8 (Some 2) (Some ''bob'') ?s = (None, s')"
    using down_load_player [of "login_bind down_env 8 8 7 2 ?s" 7] goc
    by (simp add: LoginService_HandleLogin_def split_beta)
qed

text \<open>Bob logs in again on the third connection: his old connection is closed and he is back in the room.\<close>

theorem HandleLogin_outcome_witness:
  "\<exists>s'. LoginService_HandleLogin down_env 8 8 (Some 2) (Some ''bob'') login_room = (None, s') \<and>
     GetByPlayerId 7 s' = Some 2 \<and> closing (sv_net s') = [1] \<and> room_of 2 s' = 1000"
proof -
  let ?s = "login_room"
  obtain s' where l: "LoginService_HandleLogin down_env 8 8 (Some 2) (Some ''bob'') ?s = (None, s')"
    using login_room_login(2) by blast
  obtain pid where p: "\<forall>p. account_find ''bob'' ?s = Some p \<longrightarrow> p = pid" "GetByPlayerId pid s' = Some 2"
      "closing (sv_net s') = closing (sv_net ?s) @ replaced_session pid 2 ?s" "reentered pid 2 ?s s'"
    using HandleLogin_outcome [OF _ _ _ l] login_room_inv by auto
  then have pid: "pid = 7" using login_room_login(1) by blast
  have "replaced_session 7 2 ?s = [1]" "closing (sv_net ?s) = []"
    by (simp_all add: replaced_session_def GetByPlayerId_def ConnectionManager_GetByPlayerId_def login_room_def room79_def
        Session_new_def)
  moreover have "RoomManager_GetPlayerRoom 7 ?s = Some (1000, add_players [7, 9] (Room_new 1000 True))"
    by (simp add: GetPlayerRoom_Some login_room_def room79_simps)
  ultimately show ?thesis using l p pid by (auto simp: reentered_def)
qed

theorem HandleReconnect_outcome_witness:
  "let s' = LoginService_HandleReconnect unit_env (Some 2) (Some (7, ''7_5'')) login_room in
     GetByPlayerId 7 s' = Some 2 \<and> room_of 2 s' = 1000 \<and> closing (sv_net s') = []"
proof -
  have "um_find (session_tokens login_room) 7 = Some ''7_5''" "closing (sv_net login_room) = []"
    by (simp_all add: login_room_def room79_def)
  moreover have "RoomManager_GetPlayerRoom 7 login_room = Some (1000, add_players [7, 9] (Room_new 1000 True))"
    by (simp add: GetPlayerRoom_Some login_room_def room79_simps)
  ultimately show ?thesis
    using HandleReconnect_outcome [of unit_env login_room _ 2 7 "''7_5''"] login_room_inv
    by (simp add: unit_env_def reentered_def)
qed

end
