(* ===== verification/Login_Concurrency.thy ===== *)
theory Login_Concurrency
  imports Login_Service
begin

text \<open>
  Concurrent calls of \<open>GetOrCreatePlayerId\<close> (\<open>src/src/login/login_service.cpp\<close>).  The worker threads of the
  TCP server run handlers in parallel; the function is atomic only between a lock and its unlock, and
  each use of the atomic counter is one step.  \<open>call_step\<close> interleaves any number of calls at this
  granularity; the call of one thread after the other gives the sequential function.
\<close>

datatype call =
    Called string        \<comment> \<open>with the account of the request\<close>
  | Keyed string         \<comment> \<open>before the first critical section\<close>
  | Missing string       \<comment> \<open>the key was not found\<close>
  | Allocated string i64
  | Stored string i64    \<comment> \<open>after the second critical section\<close>
  | Returned string i64

inductive call_step ::
    "('f, 'd, 'r) env \<Rightarrow> call list \<times> ('f, 'd, 'r) server \<Rightarrow> call list \<times> ('f, 'd, 'r) server \<Rightarrow> bool" for env where
  Key: "i < length cs \<Longrightarrow> cs ! i = Called a \<Longrightarrow> account_key a s = (k, s') \<Longrightarrow> call_step env (cs, s) (cs[i := Keyed k], s')"
| Find: "i < length cs \<Longrightarrow> cs ! i = Keyed k \<Longrightarrow> account_find k s = Some p \<Longrightarrow> call_step env (cs, s) (cs[i := Returned k p], s)"
| Miss: "i < length cs \<Longrightarrow> cs ! i = Keyed k \<Longrightarrow> account_find k s = None \<Longrightarrow> call_step env (cs, s) (cs[i := Missing k], s)"
| Allocate: "i < length cs \<Longrightarrow> cs ! i = Missing k \<Longrightarrow> NextPlayerId s = (p, s') \<Longrightarrow> call_step env (cs, s) (cs[i := Allocated k p], s')"
| Store: "i < length cs \<Longrightarrow> cs ! i = Allocated k p \<Longrightarrow> call_step env (cs, s) (cs[i := Stored k p], account_store k p s)"
| Persist: "i < length cs \<Longrightarrow> cs ! i = Stored k p \<Longrightarrow> call_step env (cs, s) (cs[i := Returned k p], persist_player env p s)"

inductive call_reach ::
    "('f, 'd, 'r) env \<Rightarrow> call list \<times> ('f, 'd, 'r) server \<Rightarrow> call list \<times> ('f, 'd, 'r) server \<Rightarrow> bool" for env x where
  Start: "call_reach env x x"
| Step: "call_reach env x y \<Longrightarrow> call_step env y z \<Longrightarrow> call_reach env x z"

subsection \<open>An id belongs to one account\<close>

text \<open>The pairs of key and id that a call or the table holds, and the ids that a call may still take from the counter.\<close>

fun claim_of :: "call \<Rightarrow> (string \<times> i64) set" where
  "claim_of (Allocated k p) = {(k, p)}"
| "claim_of (Stored k p) = {(k, p)}"
| "claim_of (Returned k p) = {(k, p)}"
| "claim_of _ = {}"

fun ids_left :: "call \<Rightarrow> nat" where
  "ids_left (Called a) = 2"
| "ids_left (Keyed k) = 1"
| "ids_left (Missing k) = 1"
| "ids_left _ = 0"

definition claims :: "call list \<times> ('f, 'd, 'r) server \<Rightarrow> (string \<times> i64) set" where
  "claims x = (\<Union>c\<in>set (fst x). claim_of c) \<union> {(k, p). account_find k (snd x) = Some p}"

definition claims_inv :: "call list \<times> ('f, 'd, 'r) server \<Rightarrow> bool" where
  "claims_inv x \<longleftrightarrow>
     (\<forall>k p. (k, p) \<in> claims x \<longrightarrow> p < next_player_id (sv_ids (snd x))) \<and>
     (\<forall>k k' p. (k, p) \<in> claims x \<longrightarrow> (k', p) \<in> claims x \<longrightarrow> k = k') \<and>
     in_i64 (next_player_id (sv_ids (snd x))) \<and>
     next_player_id (sv_ids (snd x)) + int (sum_list (map ids_left (fst x))) < 2 ^ 63"

text \<open>A step that gives one call other claims and takes \<open>n\<close> ids.\<close>

lemma claims_update:
  assumes "i < length cs"
  shows "claims (cs[i := c], s) \<subseteq> claims (cs, s) \<union> claim_of c"
  using set_update_subset_insert [of cs i c] by (auto simp: claims_def)

lemma ids_left_update:
  "i < length cs \<Longrightarrow> sum_list (map ids_left (cs[i := c])) + ids_left (cs ! i) = sum_list (map ids_left cs) + ids_left c"
proof (induction cs arbitrary: i)
  case (Cons x cs)
  then show ?case by (cases i) force+
qed simp

text \<open>The counter moves by at most the ids a call gives up, and new claims are below the new counter and fresh.\<close>

lemma claims_invI:
  assumes inv: "claims_inv (cs, s)" and i: "i < length cs"
    and cl: "claims (cs[i := c], s') \<subseteq> claims (cs, s) \<union> new"
    and new: "\<And>k p. (k, p) \<in> new \<Longrightarrow> p = next_player_id (sv_ids s) \<and> n = 1 \<and> new = {(k, p)}"
    and n: "ids_left c + n \<le> ids_left (cs ! i)" and id: "next_player_id (sv_ids s') = next_player_id (sv_ids s) + int n"
  shows "claims_inv (cs[i := c], s')"
proof -
  have old: "p < next_player_id (sv_ids s)" if "(k, p) \<in> claims (cs, s)" for k p
    using inv that by (auto simp: claims_inv_def)
  have uniq: "k = k'" if "(k, p) \<in> claims (cs, s)" "(k', p) \<in> claims (cs, s)" for k k' p
    using inv that by (auto simp: claims_inv_def)
  have bound: "next_player_id (sv_ids s) + int (sum_list (map ids_left cs)) < 2 ^ 63" "in_i64 (next_player_id (sv_ids s))"
    using inv by (simp_all add: claims_inv_def)
  have "p < next_player_id (sv_ids s')" if "(k, p) \<in> claims (cs[i := c], s')" for k p
    using that cl old [of k p] new [of k p] id by fastforce
  moreover have "k = k'" if a: "(k, p) \<in> claims (cs[i := c], s')" "(k', p) \<in> claims (cs[i := c], s')" for k k' p
  proof -
    have "(k, p) \<in> claims (cs, s) \<or> (k, p) \<in> new" "(k', p) \<in> claims (cs, s) \<or> (k', p) \<in> new" using a cl by blast+
    then show ?thesis using uniq [of k p k'] old [of k p] old [of k' p] new [of k p] new [of k' p] by fastforce
  qed
  moreover have "next_player_id (sv_ids s') + int (sum_list (map ids_left (cs[i := c]))) < 2 ^ 63"
    using ids_left_update [OF i, of c] n bound(1) id by linarith
  moreover from this have "in_i64 (next_player_id (sv_ids s'))"
    using bound(2) id by (simp add: in_i64_def)
  ultimately show ?thesis by (auto simp: claims_inv_def)
qed

lemma NextPlayerId_step:
  assumes "claims_inv (cs, s)" and "i < length cs" and "0 < ids_left (cs ! i)" and "NextPlayerId s = (p, s')"
  shows "p = next_player_id (sv_ids s)" "next_player_id (sv_ids s') = next_player_id (sv_ids s) + 1"
    "account_players s' = account_players s"
proof -
  have "ids_left (cs ! i) \<le> sum_list (map ids_left cs)" using assms(2) by (intro member_le_sum_list) auto
  then have "in_i64 (next_player_id (sv_ids s) + 1)"
    using assms(1,3) by (simp add: claims_inv_def in_i64_def)
  then show "p = next_player_id (sv_ids s)" "next_player_id (sv_ids s') = next_player_id (sv_ids s) + 1"
    "account_players s' = account_players s"
    using assms(4) by (auto simp: NextPlayerId_def)
qed

lemma in_table: "account_find k s = Some p \<Longrightarrow> (k, p) \<in> claims (cs, s)"
  and in_call: "c \<in> set cs \<Longrightarrow> (k, p) \<in> claim_of c \<Longrightarrow> (k, p) \<in> claims (cs, s)"
  by (auto simp: claims_def)

lemma claims_store: "claims (cs, account_store k p s) \<subseteq> insert (k, p) (claims (cs, s))"
  by (auto simp: claims_def account_find_def account_store_def split: if_splits)

lemma claims_persist: "claims (cs, persist_player env p s) = claims (cs, s)"
  by (simp add: claims_def account_find_def persist_player_def)

lemma claims_inv_step: "call_step env x y \<Longrightarrow> claims_inv x \<Longrightarrow> claims_inv y"
proof (induction rule: call_step.induct)
  case (Key i cs a s k s')
  show ?case
  proof (cases "a = []")
    case False
    then have "s' = s" "k = a" using Key(3) by (simp_all add: account_key_def)
    then show ?thesis
      using claims_invI [OF Key(4,1), of "Keyed k" s "{}" 0] claims_update [OF Key(1), of "Keyed k" s] Key(2) by simp
  next
    case True
    then obtain p where p: "NextPlayerId s = (p, s')" using Key(3) by (auto simp: account_key_def split: prod.splits)
    note n = NextPlayerId_step [OF Key(4,1) _ p]
    have "claims (cs[i := Keyed k], s') = claims (cs[i := Keyed k], s)"
      using n(3) Key(2) by (simp add: claims_def account_find_def)
    then show ?thesis
      using claims_invI [OF Key(4,1), of "Keyed k" s' "{}" 1] claims_update [OF Key(1), of "Keyed k" s] Key(2) n(2) by simp
  qed
next
  case (Find i cs k s p)
  have "claims (cs[i := Returned k p], s) \<subseteq> claims (cs, s)"
    using claims_update [OF Find(1), of "Returned k p" s] Find(3) in_table by fastforce
  then show ?case using claims_invI [OF Find(4,1), of "Returned k p" s "{}" 0] by simp
next
  case (Miss i cs k s)
  then show ?case
    using claims_invI [OF Miss(4,1), of "Missing k" s "{}" 0] claims_update [OF Miss(1), of "Missing k" s] by simp
next
  case (Allocate i cs k s p s')
  have "0 < ids_left (cs ! i)" using Allocate(2) by simp
  note n = NextPlayerId_step [OF Allocate(4,1) this Allocate(3)]
  have "claims (cs[i := Allocated k p], s') = claims (cs[i := Allocated k p], s)"
    using n(3) Allocate(2) by (simp add: claims_def account_find_def)
  then have cl: "claims (cs[i := Allocated k p], s') \<subseteq> claims (cs, s) \<union> {(k, p)}"
    using claims_update [OF Allocate(1), of "Allocated k p" s] by simp
  show ?case
    by (rule claims_invI [OF Allocate(4,1) cl, of 1]) (use Allocate(2) n(1,2) in auto)
next
  case (Store i cs k p s)
  have "Allocated k p \<in> set cs" using Store(1,2) nth_mem by fastforce
  then have "(k, p) \<in> claims (cs, s)" by (rule in_call) simp
  then have "claims (cs[i := Stored k p], account_store k p s) \<subseteq> claims (cs, s)"
    using claims_update [OF Store(1), of "Stored k p" s] claims_store [of "cs[i := Stored k p]" k p s] by fastforce
  then show ?case
    using claims_invI [OF Store(3,1), of "Stored k p" "account_store k p s" "{}" 0] by (simp add: account_store_def)
next
  case (Persist i cs k p s)
  have "Stored k p \<in> set cs" using Persist(1,2) nth_mem by fastforce
  then have "(k, p) \<in> claims (cs, s)" by (rule in_call) simp
  then have "claims (cs[i := Returned k p], persist_player env p s) \<subseteq> claims (cs, s)"
    using claims_update [OF Persist(1), of "Returned k p" s] claims_persist [of "cs[i := Returned k p]" env p s] by fastforce
  then show ?case
    using claims_invI [OF Persist(3,1), of "Returned k p" "persist_player env p s" "{}" 0] by (simp add: persist_player_def)
qed

lemma claims_inv_reach: "call_reach env x y \<Longrightarrow> claims_inv x \<Longrightarrow> claims_inv y"
  by (induction rule: call_reach.induct) (blast intro: claims_inv_step)+

subsection \<open>A call without interference\<close>

lemma call_reach_trans: "call_reach env y z \<Longrightarrow> call_reach env x y \<Longrightarrow> call_reach env x z"
  by (induction rule: call_reach.induct) (auto intro: call_reach.Step)

lemma reach_steps:
  assumes r: "call_reach env x (cs, s)" and i: "i < length cs"
  shows "cs ! i = Called a \<Longrightarrow> account_key a s = (k, s') \<Longrightarrow> cs' = cs[i := Keyed k] \<Longrightarrow> call_reach env x (cs', s')"
    and "cs ! i = Keyed k \<Longrightarrow> account_find k s = Some p \<Longrightarrow> cs' = cs[i := Returned k p] \<Longrightarrow> call_reach env x (cs', s)"
    and "cs ! i = Keyed k \<Longrightarrow> account_find k s = None \<Longrightarrow> cs' = cs[i := Missing k] \<Longrightarrow> call_reach env x (cs', s)"
    and "cs ! i = Missing k \<Longrightarrow> NextPlayerId s = (p, s') \<Longrightarrow> cs' = cs[i := Allocated k p] \<Longrightarrow> call_reach env x (cs', s')"
    and "cs ! i = Allocated k p \<Longrightarrow> cs' = cs[i := Stored k p] \<Longrightarrow> call_reach env x (cs', account_store k p s)"
    and "cs ! i = Stored k p \<Longrightarrow> cs' = cs[i := Returned k p] \<Longrightarrow> call_reach env x (cs', persist_player env p s)"
  using call_reach.Step [OF r] i by (auto intro: call_step.intros)

lemmas reach_Key = reach_steps(1) and reach_Find = reach_steps(2) and reach_Miss = reach_steps(3)
  and reach_Allocate = reach_steps(4) and reach_Store = reach_steps(5) and reach_Persist = reach_steps(6)

text \<open>The interleaved steps refine \<open>GetOrCreatePlayerId\<close>: a call that runs from its first to its last step
  while no other call moves returns the id and leaves the state that the function gives.\<close>

theorem call_alone_is_GetOrCreatePlayerId:
  assumes i: "i < length cs" "cs ! i = Called account"
  shows "case LoginService_GetOrCreatePlayerId env account s of (pid, s') \<Rightarrow>
    \<exists>key. call_reach env (cs, s) (cs[i := Returned key pid], s') \<and> (account \<noteq> [] \<longrightarrow> key = account)"
proof -
  obtain k s1 where k: "account_key account s = (k, s1)" by fastforce
  have key: "account \<noteq> [] \<longrightarrow> k = account" using k by (auto simp: account_key_def)
  have a: "call_reach env (cs, s) (cs[i := Keyed k], s1)" by (rule reach_Key [OF call_reach.Start i k refl])
  show ?thesis
  proof (cases "account_find k s1")
    case (Some p)
    have "call_reach env (cs, s) (cs[i := Returned k p], s1)"
      by (rule reach_Find [OF a, of i k p]) (use i Some in simp_all)
    then show ?thesis using Some k key by (auto simp: LoginService_GetOrCreatePlayerId_def)
  next
    case None
    obtain p s2 where p: "NextPlayerId s1 = (p, s2)" by fastforce
    have "call_reach env (cs, s) (cs[i := Missing k], s1)" by (rule reach_Miss [OF a, of i k]) (use i None in simp_all)
    then have "call_reach env (cs, s) (cs[i := Allocated k p], s2)"
      by (rule reach_Allocate [where i = i and k = k]) (use i p in simp_all)
    then have "call_reach env (cs, s) (cs[i := Stored k p], account_store k p s2)"
      by (rule reach_Store [where i = i]) (use i in simp_all)
    then have "call_reach env (cs, s) (cs[i := Returned k p], persist_player env p (account_store k p s2))"
      by (rule reach_Persist [where i = i]) (use i in simp_all)
    then show ?thesis using None k p key by (auto simp: LoginService_GetOrCreatePlayerId_def)
  qed
qed

theorem call_alone_is_GetOrCreatePlayerId_witness:
  "\<exists>key s'. call_reach unit_env ([Called ''bob''], login_room) ([Returned key 7], s')"
proof -
  have "LoginService_GetOrCreatePlayerId unit_env ''bob'' login_room = (7, login_room)"
    by (simp add: LoginService_GetOrCreatePlayerId_def account_key_def account_find_def login_room_def)
  moreover have "0 < length [Called ''bob'']" "[Called ''bob''] ! 0 = Called ''bob''" by simp_all
  note call_alone_is_GetOrCreatePlayerId [OF this, of unit_env login_room]
  ultimately show ?thesis unfolding list_update.simps nat.case by (simp only: prod.case) blast
qed

subsection \<open>Concurrent calls\<close>

text \<open>C16. In every interleaving of any number of calls, two calls that return for different accounts return different
  ids, and neither is the id of another account of the table.\<close>

theorem concurrent_accounts_distinct:
  assumes inv: "claims_inv (map Called accounts, s)" and r: "call_reach env (map Called accounts, s) (cs, s')"
    and c: "Returned k p \<in> set cs" and d: "Returned k' p' \<in> set cs \<or> account_find k' s' = Some p'" and k: "k \<noteq> k'"
  shows "p \<noteq> p'"
proof -
  have "claims_inv (cs, s')" by (rule claims_inv_reach [OF r inv])
  moreover have "(k, p) \<in> claims (cs, s')" by (rule in_call [OF c]) simp
  moreover have "(k', p') \<in> claims (cs, s')"
    using d in_call [of "Returned k' p'" cs k' p' s'] in_table [of k' s' p' cs] by auto
  ultimately show ?thesis using k unfolding claims_inv_def by blast
qed

text \<open>Two first logins side by side: both miss the table, each takes an id, and both store it.\<close>

lemma two_first_logins:
  assumes a: "a \<noteq> []" "b \<noteq> []" and f: "account_find a s = None" "account_find b s = None"
    and n: "NextPlayerId s = (n, s1)" "NextPlayerId s1 = (n', s2)"
  shows "\<exists>s'. call_reach env ([Called a, Called b], s) ([Returned a n, Returned b n'], s') \<and> account_find b s' = Some n'"
proof -
  let ?x = "([Called a, Called b], s)"
  have "call_reach env ?x ([Keyed a, Called b], s)"
    by (rule reach_Key [OF call_reach.Start, of 0 _ a]) (simp_all add: account_key_def a)
  then have "call_reach env ?x ([Keyed a, Keyed b], s)" by (rule reach_Key [where i = 1 and a = b]) (simp_all add: account_key_def a)
  then have "call_reach env ?x ([Missing a, Keyed b], s)" by (rule reach_Miss [where i = 0 and k = a]) (simp_all add: f)
  then have "call_reach env ?x ([Missing a, Missing b], s)" by (rule reach_Miss [where i = 1 and k = b]) (simp_all add: f)
  then have "call_reach env ?x ([Allocated a n, Missing b], s1)" by (rule reach_Allocate [where i = 0 and k = a]) (simp_all add: n)
  then have "call_reach env ?x ([Allocated a n, Allocated b n'], s2)" by (rule reach_Allocate [where i = 1 and k = b]) (simp_all add: n)
  then have "call_reach env ?x ([Stored a n, Allocated b n'], account_store a n s2)" by (rule reach_Store [where i = 0]) simp_all
  then have "call_reach env ?x ([Stored a n, Stored b n'], account_store b n' (account_store a n s2))"
    by (rule reach_Store [where i = 1]) simp_all
  then have "call_reach env ?x ([Returned a n, Stored b n'], persist_player env n (account_store b n' (account_store a n s2)))"
    by (rule reach_Persist [where i = 0]) simp_all
  then have "call_reach env ?x ([Returned a n, Returned b n'],
      persist_player env n' (persist_player env n (account_store b n' (account_store a n s2))))"
    by (rule reach_Persist [where i = 1]) simp_all
  then show ?thesis by (auto simp: account_find_def persist_player_def account_store_def)
qed

text \<open>The first logins of the accounts \<open>ann\<close> and \<open>eve\<close>, interleaved, on a server that knows neither.\<close>

theorem concurrent_accounts_distinct_witness:
  "\<exists>p p' s'. call_reach unit_env (map Called [''ann'', ''eve''], login_room) ([Returned ''ann'' p, Returned ''eve'' p'], s') \<and>
     account_find ''ann'' login_room = None \<and> account_find ''eve'' login_room = None \<and> account_find ''eve'' s' = Some p' \<and> p \<noteq> p'"
proof -
  let ?x = "(map Called [''ann'', ''eve''], login_room)"
  have s: "account_find k login_room = (if k = ''bob'' then Some 7 else None)" "next_player_id (sv_ids login_room) = 100002" for k
    by (simp_all add: account_find_def login_room_def room79_def)
  have "claims ?x = {(''bob'', 7)}" by (auto simp: claims_def s split: if_splits)
  then have inv: "claims_inv ?x" by (simp add: claims_inv_def s in_i64_def)
  obtain p s1 p' s2 where n: "NextPlayerId login_room = (p, s1)" "NextPlayerId s1 = (p', s2)" by (metis surj_pair)
  obtain s' where r: "call_reach unit_env ?x ([Returned ''ann'' p, Returned ''eve'' p'], s')" and e: "account_find ''eve'' s' = Some p'"
    using two_first_logins [OF _ _ _ _ n, of "''ann''" "''eve''" unit_env] s(1) by auto
  have "p \<noteq> p'" by (rule concurrent_accounts_distinct [OF inv r, of "''ann''" p "''eve''"]) simp_all
  then show ?thesis using r e s(1) by auto
qed

text \<open>Two concurrent first logins of one account can both miss it in the table: they return two different ids, and
  the table keeps the one stored last.\<close>

theorem concurrent_login_splits_account:
  fixes env :: "('f, 'd, 'r) env"
  shows "\<exists>s'. call_reach env ([Called ''bob'', Called ''bob''], empty_server cfg m r)
          ([Returned ''bob'' 100000, Returned ''bob'' 100001], s') \<and> account_find ''bob'' s' = Some 100001"
proof -
  let ?s = "empty_server cfg m r :: ('f, 'd, 'r) server"
  have n: "NextPlayerId ?s = (100000, snd (NextPlayerId ?s))"
    "NextPlayerId (snd (NextPlayerId ?s)) = (100001, snd (NextPlayerId (snd (NextPlayerId ?s))))"
    by (simp_all add: NextPlayerId_def empty_server_def id_counters_init_def in_i64_def)
  show ?thesis by (rule two_first_logins [OF _ _ _ _ n]) (simp_all add: account_find_def empty_server_def)
qed

text \<open>The key of a guest login can be a name that a client has already logged in with: then the guest is given that
  client's player.\<close>

theorem guest_login_can_take_account:
  assumes "account_find (''guest_'' @ to_string (n + 1)) s = None" and "n = next_player_id (sv_ids s)" and "in_i64 (n + 1)"
  shows "fst (LoginService_GetOrCreatePlayerId env []
      (snd (LoginService_GetOrCreatePlayerId env (''guest_'' @ to_string (n + 1)) s))) = n"
  using assms
  by (simp add: LoginService_GetOrCreatePlayerId_def account_key_def NextPlayerId_def account_store_def persist_player_def
      account_find_def Let_def)

theorem guest_login_can_take_account_witness:
  "fst (LoginService_GetOrCreatePlayerId unit_env []
      (snd (LoginService_GetOrCreatePlayerId unit_env (''guest_'' @ to_string 100003) login_room))) = 100002"
proof -
  have f: "account_find (''guest_'' @ k) login_room = None" for k by (simp add: account_find_def login_room_def)
  have n: "(100002 :: i64) = next_player_id (sv_ids login_room)" by (simp add: login_room_def room79_def)
  have "(100003 :: i64) = 100002 + 1" by simp
  then show ?thesis
    by (simp only:) (rule guest_login_can_take_account [OF f n], simp add: in_i64_def)
qed

end
