(* ===== verification/Message_Dispatcher.thy ===== *)
theory Message_Dispatcher
  imports Login_Service
begin

text \<open>
  The message dispatcher, \<open>src/src/server/message_dispatcher.h\<close> and \<open>message_dispatcher.cpp\<close>, and what the
  services register with it.  A handler takes two readings of the clock (\<open>NowMs()\<close> is called at most
  twice by a handler), the session and the packet.  \<open>ProtoHelper::Parse\<close> calls the code that protobuf
  generates; the eight parsers it stands for are the record \<open>parsers\<close>, a parameter.
\<close>

text \<open>How a handler ends: normally, with an exception that leaves it, or in undefined behaviour.\<close>

datatype 's outcome = Completed 's | Threw cpp_exception 's | Undefined

record 'f parsers =
  parse_login :: "byte list \<Rightarrow> string option"
  parse_reconnect :: "byte list \<Rightarrow> (i64 \<times> string) option"
  parse_match :: "byte list \<Rightarrow> i64 option"
  parse_cancel :: "byte list \<Rightarrow> i64 option"
  parse_ready :: "byte list \<Rightarrow> bool option"
  parse_input :: "byte list \<Rightarrow> 'f input_request option"
  parse_leave :: "byte list \<Rightarrow> i64 option"
  parse_rank :: "byte list \<Rightarrow> (i32 \<times> i32) option"

type_synonym ('f, 'd, 'r) handler =
  "i64 \<times> i64 \<Rightarrow> sptr option \<Rightarrow> Packet \<Rightarrow> ('f, 'd, 'r) server \<Rightarrow> ('f, 'd, 'r) server outcome"

record ('f, 'd, 'r) dispatcher =
  handlers :: "(u32, ('f, 'd, 'r) handler) umap"

definition RegisterHandler :: "u32 \<Rightarrow> ('f, 'd, 'r) handler \<Rightarrow> ('f, 'd, 'r) dispatcher \<Rightarrow> ('f, 'd, 'r) dispatcher" where
  "RegisterHandler mid h d = d\<lparr>handlers := um_put mid h (handlers d)\<rparr>"

definition Dispatch :: "('f, 'd, 'r) dispatcher \<Rightarrow> ('f, 'd, 'r) handler" where
  "Dispatch d clock session packet s =
     (case um_find (handlers d) (msg_id packet) of
        None \<Rightarrow> Completed s
      | Some h \<Rightarrow> h clock session packet s)"

subsection \<open>The tables of the services\<close>

definition with_exception :: "cpp_exception option \<times> 's \<Rightarrow> 's outcome" where
  "with_exception r = (case r of (None, s) \<Rightarrow> Completed s | (Some e, s) \<Rightarrow> Threw e s)"

definition LoginService_RegisterHandlers ::
    "('f, 'd, 'r) env \<Rightarrow> 'f parsers \<Rightarrow> ('f, 'd, 'r) dispatcher \<Rightarrow> ('f, 'd, 'r) dispatcher" where
  "LoginService_RegisterHandlers env ps d =
     RegisterHandler (msg_value MSG_RECONNECT_REQ)
       (\<lambda>clock session p s. Completed (LoginService_HandleReconnect env session (parse_reconnect ps (body p)) s))
     (RegisterHandler (msg_value MSG_HEARTBEAT_REQ)
       (\<lambda>clock session p s. Completed (LoginService_HandleHeartbeat (fst clock) (snd clock) session s))
     (RegisterHandler (msg_value MSG_LOGIN_REQ)
       (\<lambda>clock session p s. with_exception
          (LoginService_HandleLogin env (fst clock) (snd clock) session (parse_login ps (body p)) s)) d))"

definition MatchService_RegisterHandlers ::
    "('f, 'd, 'r) env \<Rightarrow> 'f parsers \<Rightarrow> ('f, 'd, 'r) dispatcher \<Rightarrow> ('f, 'd, 'r) dispatcher" where
  "MatchService_RegisterHandlers env ps d =
     RegisterHandler (msg_value MSG_MATCH_CANCEL_REQ)
       (\<lambda>clock session p s. Completed (MatchService_HandleCancelMatch env session (parse_cancel ps (body p)) s))
     (RegisterHandler (msg_value MSG_MATCH_REQ)
       (\<lambda>clock session p s. Completed (MatchService_HandleMatch env session (parse_match ps (body p)) s)) d)"

definition RoomManager_RegisterHandlers ::
    "('f, 'd, 'r) env \<Rightarrow> 'f parsers \<Rightarrow> ('f, 'd, 'r) dispatcher \<Rightarrow> ('f, 'd, 'r) dispatcher" where
  "RoomManager_RegisterHandlers env ps d =
     RegisterHandler (msg_value MSG_LEAVE_ROOM_REQ)
       (\<lambda>clock session p s. Completed (RoomManager_HandleLeaveRoom env session (parse_leave ps (body p)) s))
     (RegisterHandler (msg_value MSG_INPUT_REQ)
       (\<lambda>clock session p s. Completed (RoomManager_HandleInput env (fst clock) session (parse_input ps (body p)) s))
     (RegisterHandler (msg_value MSG_READY_REQ)
       (\<lambda>clock session p s. Completed (RoomManager_HandleReady env session (parse_ready ps (body p)) s)) d))"

text \<open>\<open>HandleRankRequest\<close> uses the session without a null check; the connection passes its own session.\<close>

definition rank_request ::
    "('f, 'd, 'r) env \<Rightarrow> sptr option \<Rightarrow> (i32 \<times> i32) option \<Rightarrow> ('f, 'd, 'r) server \<Rightarrow> ('f, 'd, 'r) server outcome" where
  "rank_request env session request s =
     (case session of
        None \<Rightarrow> (case request of None \<Rightarrow> Completed s | Some _ \<Rightarrow> Undefined)
      | Some ses \<Rightarrow>
          (case RankService_HandleRankRequest (redis_of env) True ses request (sv_net s, sv_redis s) of
             None \<Rightarrow> Undefined
           | Some (n, r) \<Rightarrow> Completed (s\<lparr>sv_net := n, sv_redis := r\<rparr>)))"

definition RankService_RegisterHandlers ::
    "('f, 'd, 'r) env \<Rightarrow> 'f parsers \<Rightarrow> ('f, 'd, 'r) dispatcher \<Rightarrow> ('f, 'd, 'r) dispatcher" where
  "RankService_RegisterHandlers env ps d =
     RegisterHandler (msg_value MSG_RANK_REQ)
       (\<lambda>clock session p s. rank_request env session (parse_rank ps (body p)) s) d"

text \<open>The dispatcher after \<open>GameServer::Init\<close>.\<close>

definition server_dispatcher :: "('f, 'd, 'r) env \<Rightarrow> 'f parsers \<Rightarrow> ('f, 'd, 'r) dispatcher" where
  "server_dispatcher env ps =
     RankService_RegisterHandlers env ps (RoomManager_RegisterHandlers env ps
       (MatchService_RegisterHandlers env ps (LoginService_RegisterHandlers env ps \<lparr>handlers = []\<rparr>)))"

lemmas register_defs = RegisterHandler_def LoginService_RegisterHandlers_def MatchService_RegisterHandlers_def
  RoomManager_RegisterHandlers_def RankService_RegisterHandlers_def server_dispatcher_def

text \<open>The requests of the protocol, and what the dispatcher of a running server does with each message number.\<close>

definition request_of :: "u32 \<Rightarrow> MessageId option" where
  "request_of mid = List.find (\<lambda>m. msg_value m = mid)
     [MSG_LOGIN_REQ, MSG_HEARTBEAT_REQ, MSG_RECONNECT_REQ, MSG_MATCH_REQ, MSG_MATCH_CANCEL_REQ, MSG_READY_REQ,
      MSG_LEAVE_ROOM_REQ, MSG_INPUT_REQ, MSG_RANK_REQ]"

definition serve ::
    "('f, 'd, 'r) env \<Rightarrow> 'f parsers \<Rightarrow> MessageId \<Rightarrow> i64 \<times> i64 \<Rightarrow> sptr \<Rightarrow> byte list \<Rightarrow> ('f, 'd, 'r) server
       \<Rightarrow> ('f, 'd, 'r) server outcome" where
  "serve env ps m clock ses b s =
     (case m of
        MSG_LOGIN_REQ \<Rightarrow> with_exception (LoginService_HandleLogin env (fst clock) (snd clock) (Some ses) (parse_login ps b) s)
      | MSG_HEARTBEAT_REQ \<Rightarrow> Completed (LoginService_HandleHeartbeat (fst clock) (snd clock) (Some ses) s)
      | MSG_RECONNECT_REQ \<Rightarrow> Completed (LoginService_HandleReconnect env (Some ses) (parse_reconnect ps b) s)
      | MSG_MATCH_REQ \<Rightarrow> Completed (MatchService_HandleMatch env (Some ses) (parse_match ps b) s)
      | MSG_MATCH_CANCEL_REQ \<Rightarrow> Completed (MatchService_HandleCancelMatch env (Some ses) (parse_cancel ps b) s)
      | MSG_READY_REQ \<Rightarrow> Completed (RoomManager_HandleReady env (Some ses) (parse_ready ps b) s)
      | MSG_LEAVE_ROOM_REQ \<Rightarrow> Completed (RoomManager_HandleLeaveRoom env (Some ses) (parse_leave ps b) s)
      | MSG_INPUT_REQ \<Rightarrow> Completed (RoomManager_HandleInput env (fst clock) (Some ses) (parse_input ps b) s)
      | MSG_RANK_REQ \<Rightarrow> rank_request env (Some ses) (parse_rank ps b) s
      | _ \<Rightarrow> Completed s)"

lemma Dispatch_request:
  "Dispatch (server_dispatcher env ps) clock (Some ses) p s =
     (case request_of (msg_id p) of None \<Rightarrow> Completed s | Some m \<Rightarrow> serve env ps m clock ses (body p) s)"
  by (simp add: Dispatch_def register_defs request_of_def serve_def)

text \<open>C32. The dispatch table is complete and free of collisions: every request of the protocol reaches the handler of
  its service and no other, and every other message number, those of the server's own answers
  included, leaves the server unchanged.\<close>

theorem Dispatch_serves_requests:
  "Dispatch (server_dispatcher env ps) clock (Some ses) p s =
     (case request_of (msg_id p) of None \<Rightarrow> Completed s | Some m \<Rightarrow> serve env ps m clock ses (body p) s)"
  by (rule Dispatch_request)

end
