(* ===== verification/Timer_Manager.thy ===== *)
theory Timer_Manager
  imports Prelude
begin

text \<open>
  The periodic timers: \<open>src/src/timer/timer_manager.h\<close> and \<open>timer_manager.cpp\<close>.  A time is a reading of
  the steady clock in nanoseconds; an interval is in milliseconds.  The argument of a callback is the
  reading of \<open>NowMs()\<close> that it may take.  The thread of \<open>Start\<close> runs
  \<open>timer_round\<close> again and again, with a sleep of 10 ms in between, while \<open>tm_running\<close> holds.
\<close>

type_synonym nanos = int

definition milliseconds :: "i64 \<Rightarrow> nanos" where
  "milliseconds n = n * 1000000"

record 's timer_task =
  interval_ms :: i64
  callback :: "i64 \<Rightarrow> 's \<Rightarrow> 's"
  next_run :: nanos

record 's timer_manager =
  tasks :: "'s timer_task list"
  tm_running :: bool

definition TimerManager_new :: "'s timer_manager" where
  "TimerManager_new = \<lparr>tasks = [], tm_running = False\<rparr>"

definition TimerManager_AddTimer :: "nanos \<Rightarrow> i64 \<Rightarrow> (i64 \<Rightarrow> 's \<Rightarrow> 's) \<Rightarrow> 's timer_manager \<Rightarrow> 's timer_manager" where
  "TimerManager_AddTimer now interval cb tm =
     tm\<lparr>tasks := tasks tm @ [\<lparr>interval_ms = interval, callback = cb, next_run = now + milliseconds interval\<rparr>]\<rparr>"

text \<open>The first component says whether a thread is started, or joined.\<close>

definition TimerManager_Start :: "'s timer_manager \<Rightarrow> bool \<times> 's timer_manager" where
  "TimerManager_Start tm = (\<not> tm_running tm, tm\<lparr>tm_running := True\<rparr>)"

definition TimerManager_Stop :: "'s timer_manager \<Rightarrow> bool \<times> 's timer_manager" where
  "TimerManager_Stop tm = (tm_running tm, tm\<lparr>tm_running := False\<rparr>)"

text \<open>The loop under the lock: the callbacks that are due, and the tasks with their next time.\<close>

fun due_tasks :: "nanos \<Rightarrow> 's timer_task list \<Rightarrow> (i64 \<Rightarrow> 's \<Rightarrow> 's) list \<times> 's timer_task list" where
  "due_tasks now [] = ([], [])"
| "due_tasks now (t # ts) =
     (let (cbs, ts') = due_tasks now ts
      in if now \<ge> next_run t
         then (callback t # cbs, t\<lparr>next_run := now + milliseconds (interval_ms t)\<rparr> # ts')
         else (cbs, t # ts'))"

definition timer_round :: "nanos \<times> i64 \<Rightarrow> 's timer_manager \<times> 's \<Rightarrow> 's timer_manager \<times> 's" where
  "timer_round clock ms =
     (let (tm, s) = ms; (now, wall) = clock
      in if \<not> tm_running tm then (tm, s)
         else let (cbs, ts) = due_tasks now (tasks tm)
              in (tm\<lparr>tasks := ts\<rparr>, fold (\<lambda>cb. cb wall) cbs s))"

fun timer_rounds :: "(nanos \<times> i64) list \<Rightarrow> 's timer_manager \<times> 's \<Rightarrow> 's timer_manager \<times> 's" where
  "timer_rounds [] ms = ms"
| "timer_rounds (clock # readings) ms = timer_rounds readings (timer_round clock ms)"

subsection \<open>When a task runs\<close>

text \<open>The schedule of one task: it runs at the first reading not before \<open>next_time\<close>, and so on.\<close>

fun schedule :: "nanos \<Rightarrow> nanos \<Rightarrow> (nanos \<times> i64) list \<Rightarrow> (nanos \<times> i64) list" where
  "schedule period next_time [] = []"
| "schedule period next_time ((now, wall) # readings) =
     (if now \<ge> next_time then (now, wall) # schedule period (now + period) readings
      else schedule period next_time readings)"

lemma schedule_ge: "c \<in> set (schedule period n readings) \<Longrightarrow> 0 \<le> period \<Longrightarrow> n \<le> fst c"
  by (induction period n readings rule: schedule.induct) (fastforce split: if_splits)+

lemma schedule_spaced: "0 \<le> period \<Longrightarrow> sorted_wrt (\<lambda>a b. fst a + period \<le> fst b) (schedule period n readings)"
proof (induction period n readings rule: schedule.induct)
  case (2 period n now wall readings)
  then show ?case using schedule_ge [of _ period "now + period" readings] by fastforce
qed simp

lemma schedule_misses_nothing:
  "c \<in> set readings \<Longrightarrow> c \<notin> set (schedule period n readings) \<Longrightarrow>
     fst c < n \<or> (\<exists>u\<in>set (schedule period n readings). fst c < fst u + period)"
  by (induction period n readings rule: schedule.induct) (auto split: if_splits)

lemma schedule_subset: "set (schedule period n readings) \<subseteq> set readings"
  by (induction period n readings rule: schedule.induct) auto

lemma milliseconds_nonneg [simp]: "0 \<le> milliseconds n \<longleftrightarrow> 0 \<le> n"
  by (simp add: milliseconds_def)

text \<open>C33. A server with one timer runs its callback exactly at the readings of \<open>schedule\<close>: never before the first
  interval is over, two runs at least one interval apart, and at every reading that is an interval after
  the last run; nothing else touches the state.\<close>

theorem timer_rounds_schedule:
  assumes i: "0 \<le> interval"
  shows "let (tm, s') = timer_rounds readings
             (snd (TimerManager_Start (TimerManager_AddTimer start interval cb TimerManager_new)), s);
           runs = schedule (milliseconds interval) (start + milliseconds interval) readings
         in s' = fold (\<lambda>(now, wall). cb wall) runs s \<and>
            sorted_wrt (\<lambda>a b. fst a + milliseconds interval \<le> fst b) runs \<and> set runs \<subseteq> set readings \<and>
            (\<forall>c\<in>set runs. start + milliseconds interval \<le> fst c) \<and>
            (\<forall>c\<in>set readings. c \<in> set runs \<or> (\<exists>u\<in>insert start (fst ` set runs). fst c < u + milliseconds interval))"
proof -
  have run: "timer_rounds readings (\<lparr>tasks = [\<lparr>interval_ms = interval, callback = cb, next_run = n\<rparr>], tm_running = True\<rparr>, s)
      = (tm, s') \<Longrightarrow> s' = fold (\<lambda>(now, wall). cb wall) (schedule (milliseconds interval) n readings) s" for n tm s s'
  proof (induction readings arbitrary: n s)
    case (Cons c readings)
    then show ?case
      by (cases c; cases "fst c \<ge> n") (simp_all add: timer_round_def)
  qed simp
  let ?runs = "schedule (milliseconds interval) (start + milliseconds interval) readings"
  have missed: "\<forall>c\<in>set readings. c \<in> set ?runs \<or> (\<exists>u\<in>insert start (fst ` set ?runs). fst c < u + milliseconds interval)"
    using schedule_misses_nothing by blast
  have first: "\<forall>c\<in>set ?runs. start + milliseconds interval \<le> fst c" using schedule_ge i by fastforce
  obtain tm s' where eq: "timer_rounds readings
      (snd (TimerManager_Start (TimerManager_AddTimer start interval cb TimerManager_new)), s) = (tm, s')" by fastforce
  then have "s' = fold (\<lambda>(now, wall). cb wall) ?runs s"
    by (intro run) (simp add: TimerManager_Start_def TimerManager_AddTimer_def TimerManager_new_def)
  then show ?thesis
    using schedule_spaced [of "milliseconds interval"] i schedule_subset first missed unfolding eq Let_def prod.case by simp
qed

theorem timer_rounds_schedule_witness:
  "snd (timer_rounds [(4000000000, 4), (5100000000, 5), (10000000000, 10), (10200000000, 11)]
     (snd (TimerManager_Start (TimerManager_AddTimer 0 5000 (#) TimerManager_new)), [])) = [11, 5]"
  using timer_rounds_schedule [of 5000 "[(4000000000, 4), (5100000000, 5), (10000000000, 10), (10200000000, 11)]" 0 "(#)" "[]"]
  by (simp add: milliseconds_def split_beta Let_def)

end
