(* ===== verification/Game_Server.thy ===== *)
theory Game_Server
  imports Message_Dispatcher Timer_Manager
begin

text \<open>
  The server object, \<open>src/src/server/game_server.h\<close> and \<open>game_server.cpp\<close>: \<open>Init\<close>, the tick callback that
  settles finished battles, the heartbeat timer, the callback of a closed session, and \<open>Start\<close> and
  \<open>Stop\<close>.  The members are non-null once \<open>Init\<close> has returned true, so the context is \<open>full_context\<close>.
\<close>

subsection \<open>The tick callback\<close>

text \<open>The services that \<open>Init\<close> creates have all their pointers.\<close>

definition server_ptrs :: settlement_ptrs where
  "server_ptrs = \<lparr>battle_repository_set = True, player_repository_set = True, rank_service_set = True,
     mysql_set = True, redis_set = True\<rparr>"

definition PendingSettlement_new :: PendingSettlement where
  "PendingSettlement_new = \<lparr>pend_battle_id = 0, pend_next_attempt = 0\<rparr>"

definition losers_of :: "i64 \<Rightarrow> 'f GameState \<Rightarrow> i64 list" where
  "losers_of winner st = filter (\<lambda>pid. pid \<noteq> winner) (um_keys (gs_players st))"

text \<open>The attempt to settle: \<open>CreateBattle\<close> unless an earlier attempt got an id, then \<open>SettleBattle\<close>.  The clients of
  both databases and the battle id are the state.\<close>

definition settle_attempt ::
    "'d mysql_api \<Rightarrow> 'r hiredis \<Rightarrow> i64 \<Rightarrow> i64 \<Rightarrow> i64 list \<Rightarrow> i64 \<times> 'd mysql \<times> 'r redis
       \<Rightarrow> (cpp_exception + bool) \<times> i64 \<times> 'd mysql \<times> 'r redis" where
  "settle_attempt api rapi rid winner losers st =
     (let (bid, m, r) = st;
          (bid1, m1) = (if bid = 0 then BattleRepository_CreateBattle api True rid m else (bid, m))
      in if bid1 = 0 then (Inr False, bid1, m1, r)
         else let (res, m2, r2) = SettlementService_SettleBattle api rapi server_ptrs bid1 rid winner losers (m1, r)
              in (res, bid1, m2, r2))"

text \<open>After a successful settlement: the broadcast, and the end of the room.\<close>

definition finish_room ::
    "service_context \<Rightarrow> i64 \<Rightarrow> i64 \<Rightarrow> i64 list \<Rightarrow> ('f, 'd, 'r) server \<Rightarrow> ('f, 'd, 'r) server" where
  "finish_room c rid winner losers s =
     (let s1 = s\<lparr>pending_settlements := um_erase rid (pending_settlements s)\<rparr>;
          s2 = broadcast rid MSG_GAME_OVER_NOTIFY (GameOverNotify rid winner losers) s1;
          s3 = on_room rid Room_Close s2
      in RoomManager_RemoveRoom c rid s3)"

text \<open>The room goes into settlement and gets its entry in \<open>pending_settlements_\<close>.\<close>

definition begin_settlement :: "i64 \<Rightarrow> ('f, 'd, 'r) server \<Rightarrow> PendingSettlement \<times> ('f, 'd, 'r) server" where
  "begin_settlement rid s =
     (let s1 = on_room rid Room_SetSettlement s;
          pend = (case um_find (pending_settlements s1) rid of None \<Rightarrow> PendingSettlement_new | Some p \<Rightarrow> p)
      in (pend, s1\<lparr>pending_settlements := um_put rid pend (pending_settlements s1)\<rparr>))"

text \<open>\<open>now\<close> is the reading of the steady clock.  The first component of the result is an exception that left the
  callback; it ends the process, since the thread of the loop does not catch it.\<close>

definition try_settlement ::
    "('f, 'd, 'r) env \<Rightarrow> nanos \<Rightarrow> i64 \<Rightarrow> i64 \<Rightarrow> i64 list \<Rightarrow> PendingSettlement \<Rightarrow> ('f, 'd, 'r) server
       \<Rightarrow> cpp_exception option \<times> ('f, 'd, 'r) server" where
  "try_settlement env now rid winner losers pend s =
     (let (res, bid, m, r) = settle_attempt (mysql_of env) (redis_of env) rid winner losers
                               (pend_battle_id pend, sv_mysql s, sv_redis s);
          pend' = \<lparr>pend_battle_id = bid, pend_next_attempt = now + milliseconds 1000\<rparr>;
          s1 = s\<lparr>sv_mysql := m, sv_redis := r, pending_settlements := um_put rid pend' (pending_settlements s)\<rparr>
      in case res of
           Inl e \<Rightarrow> (Some e, s1)
         | Inr ok \<Rightarrow> (None, if ok then finish_room (ctx env) rid winner losers s1 else s1))"

definition tick_callback ::
    "('f, 'd, 'r) env \<Rightarrow> nanos \<Rightarrow> i64 \<Rightarrow> 'f GameState \<Rightarrow> bool \<Rightarrow> i64 \<Rightarrow> ('f, 'd, 'r) server
       \<Rightarrow> cpp_exception option \<times> ('f, 'd, 'r) server" where
  "tick_callback env now rid st over winner s =
     (case RoomManager_GetRoom rid s of
        None \<Rightarrow> (None, s)
      | Some _ \<Rightarrow>
          let s1 = broadcast rid MSG_GAME_STATE_NOTIFY (GameStateMsg (StateSync_BuildNotify rid st)) s
          in if \<not> over then (None, s1)
             else
               let (pend, s2) = begin_settlement rid s1
               in if now < pend_next_attempt pend then (None, s2)
                  else try_settlement env now rid winner (losers_of winner st) pend s2)"

text \<open>A round of the game loop with this callback.  After an exception the process is gone: nothing changes any more.\<close>

type_synonym ('f, 'd, 'r) loop_state = "cpp_exception option \<times> ('f, 'd, 'r) server"

definition on_loop_alive ::
    "('f game_loop \<Rightarrow> 'f game_loop) \<Rightarrow> ('f, 'd, 'r) loop_state \<Rightarrow> ('f, 'd, 'r) loop_state" where
  "on_loop_alive f x = (case x of (None, s) \<Rightarrow> (None, on_loop f s) | (Some e, s) \<Rightarrow> (Some e, s))"

definition callback_alive ::
    "('f, 'd, 'r) env \<Rightarrow> (i64 \<Rightarrow> nanos) \<Rightarrow> i64 \<Rightarrow> 'f GameState \<Rightarrow> bool \<Rightarrow> i64 \<Rightarrow> ('f, 'd, 'r) loop_state
       \<Rightarrow> ('f, 'd, 'r) loop_state" where
  "callback_alive env clock rid st over winner x =
     (case x of (None, s) \<Rightarrow> tick_callback env (clock rid) rid st over winner s | (Some e, s) \<Rightarrow> (Some e, s))"

definition server_round :: "('f, 'd, 'r) env \<Rightarrow> (i64 \<Rightarrow> nanos) \<Rightarrow> ('f, 'd, 'r) server \<Rightarrow> ('f, 'd, 'r) loop_state" where
  "server_round env clock s =
     loop_round (sv_loop \<circ> snd) on_loop_alive (floats env) (Some (callback_alive env clock)) (None, s)"

subsection \<open>The heartbeat timer and the callback of a closed session\<close>

definition heartbeat_scan :: "i64 \<Rightarrow> ('f, 'd, 'r) server \<Rightarrow> ('f, 'd, 'r) server" where
  "heartbeat_scan now s =
     fold (\<lambda>ses s. if now - last_heartbeat_ms (heap (sv_net s) ses) > 30000 then on_net (Session_Close ses) s else s)
       (ConnectionManager_AllSessions (sv_net s)) s"

definition session_closed :: "sptr option \<Rightarrow> ('f, 'd, 'r) server \<Rightarrow> ('f, 'd, 'r) server" where
  "session_closed session s =
     (case session of
        None \<Rightarrow> s
      | Some ses \<Rightarrow>
          let pid = player_of ses s in
          if pid = 0 then s
          else if (case GetByPlayerId pid s of
                     None \<Rightarrow> False
                   | Some current \<Rightarrow> Session_SessionId current (sv_net s) \<noteq> Session_SessionId ses (sv_net s))
          then s
          else
            let s1 = on_pm (PlayerManager_SetOffline pid) s
            in if room_of ses s1 = 0 then s1
               else (case RoomManager_GetRoom (room_of ses s1) s1 of
                       None \<Rightarrow> s1
                     | Some _ \<Rightarrow> on_room (room_of ses s1) (Room_OnPlayerDisconnect pid) s1))"

text \<open>What the TCP server runs when the connection of a session closes.\<close>

definition connection_closed :: "sptr \<Rightarrow> ('f, 'd, 'r) server \<Rightarrow> ('f, 'd, 'r) server" where
  "connection_closed ses s =
     session_closed (Some ses) (on_net (ConnectionManager_Remove (Session_SessionId ses (sv_net s))) s)"

subsection \<open>Starting and stopping\<close>

definition new_mysql :: "config \<Rightarrow> 'd \<Rightarrow> 'd mysql" where
  "new_mysql cfg w = \<lparr>my_conn = False, my_in_transaction = False, my_cfg = mysql_cfg cfg, my_world = w\<rparr>"

definition new_redis :: "config \<Rightarrow> 'r \<Rightarrow> 'r redis" where
  "new_redis cfg w = \<lparr>rd_context = False, rd_cfg = redis_cfg cfg, rd_world = w\<rparr>"

text \<open>The result of \<open>Init\<close>: \<open>None\<close> for false; the server, its dispatcher and its timers otherwise.\<close>

definition GameServer_Init ::
    "'f float_ops \<Rightarrow> 'd mysql_api \<Rightarrow> 'r hiredis \<Rightarrow> 'f parsers \<Rightarrow> config \<Rightarrow> nanos \<Rightarrow> 'd \<Rightarrow> 'r
       \<Rightarrow> (('f, 'd, 'r) env \<times> ('f, 'd, 'r) server \<times> ('f, 'd, 'r) dispatcher \<times> ('f, 'd, 'r) server timer_manager) option" where
  "GameServer_Init F api rapi ps cfg now wm wr =
     (let (ok_m, m) = MysqlClient_Connect api (new_mysql cfg wm) in
      if \<not> ok_m then None
      else
        let (ok_r, r) = RedisClient_Connect rapi (new_redis cfg wr) in
        if \<not> ok_r then None
        else
          let env = \<lparr>ctx = full_context, floats = F, mysql_of = api, redis_of = rapi\<rparr>;
              (_, r') = RankService_Init rapi True r
          in Some (env, empty_server cfg m r', server_dispatcher env ps,
                   TimerManager_AddTimer now 5000 heartbeat_scan TimerManager_new))"

text \<open>\<open>Start\<close> starts the loop and the timers before it listens; \<open>Stop\<close> stops the TCP server first.  The flags say which
  threads are started or joined.\<close>

definition GameServer_Start ::
    "('f, 'd, 'r) server \<times> ('f, 'd, 'r) server timer_manager \<Rightarrow> (bool \<times> bool) \<times> ('f, 'd, 'r) server \<times> ('f, 'd, 'r) server timer_manager" where
  "GameServer_Start st =
     (let (s, tm) = st;
          (b1, gl) = GameLoop_Start (sv_loop s);
          (b2, tm') = TimerManager_Start tm
      in ((b1, b2), s\<lparr>sv_loop := gl\<rparr>, tm'))"

definition GameServer_Stop ::
    "('f, 'd, 'r) server \<times> ('f, 'd, 'r) server timer_manager \<Rightarrow> (bool \<times> bool) \<times> ('f, 'd, 'r) server \<times> ('f, 'd, 'r) server timer_manager" where
  "GameServer_Stop st =
     (let (s, tm) = st;
          (b2, tm') = TimerManager_Stop tm;
          (b1, gl) = GameLoop_Stop (sv_loop s)
      in ((b1, b2), s\<lparr>sv_loop := gl\<rparr>, tm'))"

end
