(* ===== verification/Settlement_Loop.thy ===== *)
theory Settlement_Loop
  imports Game_Server
begin

text \<open>
  The retries of a settlement over the ticks of a finished battle: the tick callback of
  \<open>src/src/server/game_server.cpp\<close> on top of \<open>CreateBattle\<close> and \<open>SettleBattle\<close>, on a database where every
  call may fail.  \<open>ticks\<close> is any sequence of callbacks for one room; the battle is over, so the loop
  passes the same state and the same winner each time.
\<close>

fun ticks ::
    "('f, 'd, 'r) env \<Rightarrow> i64 \<Rightarrow> 'f GameState \<Rightarrow> i64 \<Rightarrow> nanos list \<Rightarrow> ('f, 'd, 'r) server
       \<Rightarrow> cpp_exception option \<times> ('f, 'd, 'r) server" where
  "ticks env rid st winner [] s = (None, s)"
| "ticks env rid st winner (now # nows) s =
     (case tick_callback env now rid st True winner s of
        (Some e, s1) \<Rightarrow> (Some e, s1)
      | (None, s1) \<Rightarrow> ticks env rid st winner nows s1)"

subsection \<open>Creating the battle\<close>

lemma CreateBattle_idle:
  assumes d: "innodb api v lit" and i: "idle v C m" and c: "BattleRepository_CreateBattle api True rid m = (bid, m')"
  shows "idle v C m' \<and> bid = 0 \<or>
    idle v (exec_stmt lit (InsertBattleAuto rid) C) m' \<and> 0 < next_battle C \<and> (bid = 0 \<or> bid = next_battle C)"
proof (cases "rid \<le> 0")
  case True
  then show ?thesis using c i by (simp add: BattleRepository_CreateBattle_def)
next
  case False
  obtain ok m1 where h: "has_conn api m = (ok, m1)" by fastforce
  note i1 = has_conn_idle [OF d i h]
  obtain okq w where q: "mysql_query api (InsertBattleAuto rid) (my_world m1) = (okq, w)" by fastforce
  have tx: "\<not> v_tx (v (my_world m1))" and com: "v_com (v (my_world m1)) = C" using i1 by (auto simp: idle_def)
  note a = innodb_auto_query [OF d q tx, simplified, unfolded com]
  have r: "(bid, m') = (if \<not> ok then (0, m1)
      else if \<not> okq then (0, MysqlClient_ResetOnConnectionError api (m1\<lparr>my_world := w\<rparr>))
      else if wrap64 (mysql_affected_rows api w) \<noteq> 1 then (0, m1\<lparr>my_world := w\<rparr>)
      else (wrap64 (mysql_insert_id api w), m1\<lparr>my_world := w\<rparr>))"
    using c False h q by (cases ok; cases okq) (auto simp: BattleRepository_CreateBattle_def MysqlClient_ExecuteInsert_def
        MysqlClient_ExecuteAffected_def split: if_splits)
  have w: "idle v (v_com (v w)) (m1\<lparr>my_world := w\<rparr>)" using i1(1) a(1) by (simp add: idle_def)
  show ?thesis
  proof (cases "ok \<and> okq")
    case True
    then have "0 < next_battle C" "next_battle C < 2 ^ 63" "v_com (v w) = exec_stmt lit (InsertBattleAuto rid) C"
        "mysql_insert_id api w = next_battle C"
      using a(2,3,5) by auto
    then show ?thesis using r w True by (auto simp: in_i64_def split: if_splits)
  next
    case False
    then show ?thesis using r i1(1) w Reset_idle [OF d w] a(6) by (auto split: if_splits)
  qed
qed

text \<open>Nothing refers to a battle whose id is still to be given out.\<close>

definition clean_ids :: "tables \<Rightarrow> bool" where
  "clean_ids T \<longleftrightarrow> (\<forall>bid\<ge>next_battle T. battle_results bid T = [])"

definition same_scores :: "tables \<Rightarrow> tables \<Rightarrow> bool" where
  "same_scores C T \<longleftrightarrow> score_of T = score_of C \<and> wins_of T = wins_of C \<and> losses_of T = losses_of C"

lemma InsertBattle_effect:
  assumes "clean_ids T"
  shows "clean_ids (exec_stmt lit (InsertBattleAuto rid) T)" "same_scores C T \<Longrightarrow> same_scores C (exec_stmt lit (InsertBattleAuto rid) T)"
    "battle_results (next_battle T) (exec_stmt lit (InsertBattleAuto rid) T) = []"
    "um_find (tb_battle (exec_stmt lit (InsertBattleAuto rid) T)) (next_battle T) =
       Some \<lparr>br_room_id = rid, br_winner_id = 0, br_settled = 0, br_json = ''{}''\<rparr>"
  using assms by (auto simp: clean_ids_def same_scores_def score_of_def wins_of_def losses_of_def battle_results_def fun_eq_iff)

subsection \<open>One attempt\<close>

text \<open>Where the settlement of room \<open>rid\<close> stands: no battle yet, a battle that is not settled, or a settled one.\<close>

definition settlement_stage :: "tables \<Rightarrow> i64 \<Rightarrow> i64 \<Rightarrow> i64 list \<Rightarrow> i64 \<Rightarrow> tables \<Rightarrow> bool" where
  "settlement_stage C rid w losers bid T \<longleftrightarrow>
     (if bid = 0 then clean_ids T \<and> same_scores C T
      else unsettled (the_battle bid rid w) T \<and> battle_results bid T = [] \<and> same_scores C T \<or>
           settled_same (the_battle bid rid w) (the_results bid w losers) T \<and>
             settlement_effect (the_battle bid rid w) (insert w (set losers)) C T)"

lemma settlement_effect_base:
  "same_scores C T \<Longrightarrow> settlement_effect b ps T T' \<Longrightarrow> settlement_effect b ps C T'"
  by (simp add: same_scores_def settlement_effect_def)

lemma SettleBattle_stage:
  assumes d: "innodb api v lit" and i: "idle v T m" and bid: "bid \<noteq> 0" and g: "settlement_stage C rid w losers bid T"
    and e: "SettlementService_SettleBattle api rapi ptrs bid rid w losers (m, r) = (res, m', r')"
  shows "\<exists>T'. idle v T' m' \<and> settlement_stage C rid w losers bid T' \<and>
     (res = Inr True \<longrightarrow> settlement_effect (the_battle bid rid w) (insert w (set losers)) C T')"
proof -
  let ?b = "the_battle bid rid w" and ?rs = "the_results bid w losers"
  have b: "bt_battle_id ?b = bid" by (simp add: the_battle_def)
  from SettleBattle_atomic [OF d i e]
  consider "res \<noteq> Inr True" "idle v T m'" | "settled_same ?b ?rs T" "idle v T m'"
    | "unsettled ?b T" "check_results ?b ?rs 0 0 = Some 1" "idle v (settled_tables lit ?b ?rs T) m'" by blast
  then show ?thesis
  proof cases
    case 1
    then show ?thesis using g by blast
  next
    case 2
    then have "settlement_effect ?b (insert w (set losers)) C T"
      using g bid settled_not_unsettled by (auto simp: settlement_stage_def)
    then show ?thesis using 2 g by blast
  next
    case 3
    then have s: "battle_results bid T = []" "same_scores C T"
      using g bid settled_not_unsettled by (auto simp: settlement_stage_def)
    have "settlement_effect ?b (insert w (set losers)) T (settled_tables lit ?b ?rs T)"
      using settled_tables_effect [OF 3(2,1), of lit] by (simp add: the_results_players)
    then have "settlement_effect ?b (insert w (set losers)) C (settled_tables lit ?b ?rs T)"
      using settlement_effect_base s(2) by blast
    moreover have "settled_same ?b ?rs (settled_tables lit ?b ?rs T)"
      by (rule settled_tables_same [OF 3(2,1)]) (use s b in simp)
    ultimately show ?thesis using 3 bid by (auto simp: settlement_stage_def)
  qed
qed

lemma settle_attempt_stage:
  assumes d: "innodb api v lit" and i: "idle v T m" and g: "settlement_stage C rid w losers bid T"
    and e: "settle_attempt api rapi rid w losers (bid, m, r) = (res, bid', m', r')"
  shows "\<exists>T'. idle v T' m' \<and> settlement_stage C rid w losers bid' T' \<and>
     (res = Inr True \<longrightarrow> settlement_effect (the_battle bid' rid w) (insert w (set losers)) C T')"
proof -
  obtain bid1 m1 where c: "(if bid = 0 then BattleRepository_CreateBattle api True rid m else (bid, m)) = (bid1, m1)"
    by fastforce
  have "\<exists>T1. idle v T1 m1 \<and> settlement_stage C rid w losers bid1 T1"
  proof (cases "bid = 0")
    case False
    then show ?thesis using c i g by auto
  next
    case True
    then have t: "clean_ids T" "same_scores C T" using g by (simp_all add: settlement_stage_def)
    let ?T = "exec_stmt lit (InsertBattleAuto rid) T"
    note n = InsertBattle_effect [OF t(1), where lit = lit and rid = rid]
    have "unsettled (the_battle (next_battle T) rid w) ?T"
      using n(4) by (auto simp: unsettled_def the_battle_def)
    then have "settlement_stage C rid w losers (next_battle T) ?T" if "0 < next_battle T"
      using that n(2) [OF t(2)] n(3) by (simp add: settlement_stage_def)
    moreover have "settlement_stage C rid w losers 0 T" "settlement_stage C rid w losers 0 ?T"
      using t n(1,2) by (simp_all add: settlement_stage_def)
    moreover have "BattleRepository_CreateBattle api True rid m = (bid1, m1)" using c True by simp
    ultimately show ?thesis using CreateBattle_idle [OF d i] by blast
  qed
  then obtain T1 where T1: "idle v T1 m1" "settlement_stage C rid w losers bid1 T1" by blast
  show ?thesis
  proof (cases "bid1 = 0")
    case True
    then show ?thesis using e c T1 by (auto simp: settle_attempt_def)
  next
    case False
    obtain res2 m2 r2 where s: "SettlementService_SettleBattle api rapi server_ptrs bid1 rid w losers (m1, r) = (res2, m2, r2)"
      by (metis surj_pair)
    then have "res = res2" "bid' = bid1" "m' = m2" using e c False by (auto simp: settle_attempt_def)
    then show ?thesis using SettleBattle_stage [OF d T1(1) False T1(2) s] by simp
  qed
qed

subsection \<open>One tick\<close>

definition pending_battle :: "i64 \<Rightarrow> ('f, 'd, 'r) server \<Rightarrow> i64" where
  "pending_battle rid s = (case um_find (pending_settlements s) rid of None \<Rightarrow> 0 | Some p \<Rightarrow> pend_battle_id p)"

definition room_settling ::
    "('d \<Rightarrow> db_view) \<Rightarrow> tables \<Rightarrow> i64 \<Rightarrow> i64 \<Rightarrow> i64 list \<Rightarrow> ('f, 'd, 'r) server \<Rightarrow> bool" where
  "room_settling v C rid w losers s \<longleftrightarrow>
     (\<exists>T. idle v T (sv_mysql s) \<and>
       (if RoomManager_GetRoom rid s \<noteq> None then settlement_stage C rid w losers (pending_battle rid s) T
        else \<exists>bid. settlement_effect (the_battle bid rid w) (insert w (set losers)) C T))"

lemma finish_room_simps [simp]:
  "sv_mysql (finish_room c rid w ls s) = sv_mysql s" "sv_redis (finish_room c rid w ls s) = sv_redis s"
  "RoomManager_GetRoom q (finish_room c rid w ls s) = (if q = rid then None else RoomManager_GetRoom q s)"
  "pending_settlements (finish_room c rid w ls s) = um_erase rid (pending_settlements s)"
  by (simp_all add: finish_room_def Let_def on_room_def RoomManager_GetRoom_def)

lemma begin_settlement_simps:
  assumes "begin_settlement rid s = (pend, s')"
  shows "sv_mysql s' = sv_mysql s" "sv_redis s' = sv_redis s" "RoomManager_GetRoom rid s \<noteq> None \<Longrightarrow> RoomManager_GetRoom rid s' \<noteq> None"
    "pend_battle_id pend = pending_battle rid s" "pending_battle rid s' = pending_battle rid s"
  using assms
  by (auto simp: begin_settlement_def Let_def on_room_def RoomManager_GetRoom_def pending_battle_def PendingSettlement_new_def
      split: option.splits)

lemma try_settlement_settling:
  assumes d: "innodb (mysql_of env) v lit" and i: "room_settling v C rid w ls s" and room: "RoomManager_GetRoom rid s \<noteq> None"
    and p: "pend_battle_id pend = pending_battle rid s" and e: "try_settlement env now rid w ls pend s = (x, s')"
  shows "room_settling v C rid w ls s'"
proof -
  obtain T where T: "idle v T (sv_mysql s)" "settlement_stage C rid w ls (pend_battle_id pend) T"
    using i room p by (auto simp: room_settling_def)
  obtain res bid m r where a: "settle_attempt (mysql_of env) (redis_of env) rid w ls
      (pend_battle_id pend, sv_mysql s, sv_redis s) = (res, bid, m, r)" by (metis surj_pair)
  let ?s1 = "s\<lparr>sv_mysql := m, sv_redis := r, pending_settlements :=
      um_put rid \<lparr>pend_battle_id = bid, pend_next_attempt = now + milliseconds 1000\<rparr> (pending_settlements s)\<rparr>"
  obtain T' where T': "idle v T' m" "settlement_stage C rid w ls bid T'"
      "res = Inr True \<Longrightarrow> settlement_effect (the_battle bid rid w) (insert w (set ls)) C T'"
    using settle_attempt_stage [OF d T a] by blast
  have "s' = (if res = Inr True then finish_room (ctx env) rid w ls ?s1 else ?s1)"
    using e a by (cases res) (auto simp: try_settlement_def Let_def)
  moreover have "RoomManager_GetRoom rid ?s1 \<noteq> None" "pending_battle rid ?s1 = bid"
    using room by (simp_all add: RoomManager_GetRoom_def pending_battle_def)
  ultimately show ?thesis using T' by (auto simp: room_settling_def)
qed

lemma tick_settling:
  assumes d: "innodb (mysql_of env) v lit" and i: "room_settling v C rid w (losers_of w st) s"
    and e: "tick_callback env now rid st True w s = (x, s')"
  shows "room_settling v C rid w (losers_of w st) s'"
proof (cases "RoomManager_GetRoom rid s = None")
  case True
  then show ?thesis using e i by (simp add: tick_callback_def)
next
  case False
  define s1 where "s1 = broadcast rid MSG_GAME_STATE_NOTIFY (GameStateMsg (StateSync_BuildNotify rid st)) s"
  have i1: "room_settling v C rid w (losers_of w st) s1" "RoomManager_GetRoom rid s1 \<noteq> None"
    using i False by (simp_all add: s1_def room_settling_def RoomManager_GetRoom_def pending_battle_def)
  obtain pend s2 where p: "begin_settlement rid s1 = (pend, s2)" by fastforce
  note s2 = begin_settlement_simps [OF p]
  have i2: "room_settling v C rid w (losers_of w st) s2" "RoomManager_GetRoom rid s2 \<noteq> None"
    using i1 s2(1,3,5) by (simp_all add: room_settling_def)
  have eq: "(x, s') = (if now < pend_next_attempt pend then (None, s2)
      else try_settlement env now rid w (losers_of w st) pend s2)"
    using e False p by (auto simp: tick_callback_def s1_def)
  show ?thesis
  proof (cases "now < pend_next_attempt pend")
    case True
    then show ?thesis using eq i2(1) by simp
  next
    case False
    then show ?thesis using eq try_settlement_settling [OF d i2, of pend now x s'] s2(4,5) by simp
  qed
qed

lemma ticks_settling:
  assumes d: "innodb (mysql_of env) v lit"
  shows "room_settling v C rid w (losers_of w st) s \<Longrightarrow> ticks env rid st w nows s = (x, s') \<Longrightarrow>
     room_settling v C rid w (losers_of w st) s'"
proof (induction nows arbitrary: s)
  case (Cons now nows)
  obtain y s1 where t: "tick_callback env now rid st True w s = (y, s1)" by fastforce
  then have "room_settling v C rid w (losers_of w st) s1" using tick_settling [OF d Cons.prems(1)] by blast
  then show ?case using Cons t by (cases y) auto
qed simp

subsection \<open>Properties\<close>

text \<open>C1. A finished battle is settled at most once over any number of ticks, with any failures of MySQL and Redis in
  between: \<open>CreateBattle\<close> may have to be repeated, the answer of a \<open>COMMIT\<close> may be lost and the same
  battle tried again.  The committed scores are those from before or those after exactly one
  settlement (20 points and a win for the winner, -10 and a loss for everyone else in the battle), and
  the room disappears only when they are the latter.\<close>

theorem ticks_settle_once:
  assumes d: "innodb (mysql_of env) v lit" and i: "idle v C (sv_mysql s)" and c: "clean_ids C"
    and room: "RoomManager_GetRoom rid s \<noteq> None" and p: "um_find (pending_settlements s) rid = None"
    and t: "ticks env rid st w nows s = (x, s')"
  shows "\<exists>T. idle v T (sv_mysql s') \<and>
    (same_scores C T \<and> RoomManager_GetRoom rid s' \<noteq> None \<or>
     (\<exists>bid. settlement_effect (the_battle bid rid w) (insert w (set (losers_of w st))) C T))"
proof -
  have "settlement_stage C rid w (losers_of w st) (pending_battle rid s) C"
    using c p by (simp add: settlement_stage_def pending_battle_def same_scores_def)
  then have "room_settling v C rid w (losers_of w st) s" using i room by (auto simp: room_settling_def)
  from ticks_settling [OF d this t] obtain T where T: "idle v T (sv_mysql s')"
      "if RoomManager_GetRoom rid s' \<noteq> None then settlement_stage C rid w (losers_of w st) (pending_battle rid s') T
       else \<exists>bid. settlement_effect (the_battle bid rid w) (insert w (set (losers_of w st))) C T"
    by (auto simp: room_settling_def)
  then show ?thesis by (intro exI [of _ T]) (auto simp: settlement_stage_def split: if_splits)
qed

text \<open>The battle of players 7 and 9 in room 1000, won by player 9.  The first attempt fails when the connection breaks.\<close>

definition battle79 :: "rat option GameState" where
  "battle79 = \<lparr>frame_id = 40, gs_players =
     [(7, \<lparr>ent_player_id = 7, ent_x = Some 0, ent_y = Some 0, ent_hp = 0, ent_alive = False\<rparr>),
      (9, \<lparr>ent_player_id = 9, ent_x = Some 4, ent_y = Some 0, ent_hp = 100, ent_alive = True\<rparr>)]\<rparr>"

definition finished79 :: "(rat option, sim, string \<Rightarrow> zset) server" where
  "finished79 = room79\<lparr>sv_rooms := [(1000, (add_players [7, 9] (Room_new 1000 True))\<lparr>room_state := Playing\<rparr>)],
     sv_mysql := mysql0 [0, 0, 0, 1]\<rparr>"

lemma finished79_closes:
  "map (\<lambda>nows. RoomManager_GetRoom 1000 (snd (ticks unit_env 1000 battle79 9 nows finished79)) = None)
     [[0], [0, 500000000], [0, 500000000, 1000000000]] = [False, False, True]"
  by code_simp

theorem ticks_settle_once_witness:
  "\<exists>x s' T. ticks unit_env 1000 battle79 9 [0, 500000000, 1000000000] finished79 = (x, s') \<and>
     RoomManager_GetRoom 1000 s' = None \<and> idle sim_view T (sv_mysql s') \<and>
     (\<exists>bid. settlement_effect (the_battle bid 1000 9) {9, 7} tables0 T)"
proof -
  obtain x s' where t: "ticks unit_env 1000 battle79 9 [0, 500000000, 1000000000] finished79 = (x, s')" by fastforce
  then have closed: "RoomManager_GetRoom 1000 s' = None" using finished79_closes by simp
  have "innodb (mysql_of unit_env) sim_view id" by (simp add: unit_env_def sim_innodb)
  moreover have "idle sim_view tables0 (sv_mysql finished79)" by (simp add: finished79_def mysql0_idle)
  moreover have "clean_ids tables0" by (simp add: clean_ids_def battle_results_def tables0_def)
  moreover have "RoomManager_GetRoom 1000 finished79 \<noteq> None" by (simp add: finished79_def RoomManager_GetRoom_def)
  moreover have "um_find (pending_settlements finished79) 1000 = None"
    by (simp add: finished79_def room79_def empty_server_def)
  ultimately obtain T where "idle sim_view T (sv_mysql s')"
      "\<exists>bid. settlement_effect (the_battle bid 1000 9) (insert 9 (set (losers_of 9 battle79))) tables0 T"
    using ticks_settle_once [OF _ _ _ _ _ t] closed by blast
  moreover have "losers_of 9 battle79 = [7]" by (simp add: losers_of_def battle79_def)
  ultimately show ?thesis using t closed by auto
qed

subsection \<open>A battle without a winner\<close>

text \<open>\<open>T\<close> is \<open>C\<close> with at most new rows in \<open>battle\<close>, of room \<open>rid\<close>, without a winner and not settled.  No player, no
  result, no settlement log and no existing battle differs.\<close>

definition only_battles_added :: "i64 \<Rightarrow> tables \<Rightarrow> tables \<Rightarrow> bool" where
  "only_battles_added rid C T \<longleftrightarrow>
     (\<exists>bs n. T = C\<lparr>tb_battle := bs, next_battle := n\<rparr> \<and>
        (\<forall>bid. um_find bs bid = um_find (tb_battle C) bid \<or>
           um_find (tb_battle C) bid = None \<and>
             um_find bs bid = Some \<lparr>br_room_id = rid, br_winner_id = 0, br_settled = 0, br_json = ''{}''\<rparr>))"

text \<open>Ids are handed out in increasing order.\<close>

definition fresh_battles :: "tables \<Rightarrow> bool" where
  "fresh_battles T \<longleftrightarrow> (\<forall>bid\<ge>next_battle T. um_find (tb_battle T) bid = None)"

lemma InsertBattle_added:
  assumes "fresh_battles T" and a: "only_battles_added rid C T"
  shows "fresh_battles (exec_stmt lit (InsertBattleAuto rid) T)" and "only_battles_added rid C (exec_stmt lit (InsertBattleAuto rid) T)"
proof -
  let ?row = "\<lparr>br_room_id = rid, br_winner_id = 0, br_settled = 0, br_json = ''{}''\<rparr>"
  obtain bs n where T: "T = C\<lparr>tb_battle := bs, next_battle := n\<rparr>" and bs: "\<forall>bid. um_find bs bid = um_find (tb_battle C) bid \<or>
      um_find (tb_battle C) bid = None \<and> um_find bs bid = Some ?row"
    using a unfolding only_battles_added_def by blast
  have "um_find bs n = None" using assms(1) T by (simp add: fresh_battles_def)
  then have "um_find (tb_battle C) n = None" using bs by (metis option.distinct(1))
  then have "\<forall>bid. um_find (um_put n ?row bs) bid = um_find (tb_battle C) bid \<or>
      um_find (tb_battle C) bid = None \<and> um_find (um_put n ?row bs) bid = Some ?row"
    using bs by simp
  moreover have "exec_stmt lit (InsertBattleAuto rid) T = C\<lparr>tb_battle := um_put n ?row bs, next_battle := n + 1\<rparr>" by (simp add: T)
  ultimately show "only_battles_added rid C (exec_stmt lit (InsertBattleAuto rid) T)" unfolding only_battles_added_def by blast
  show "fresh_battles (exec_stmt lit (InsertBattleAuto rid) T)" using assms(1) by (simp add: fresh_battles_def)
qed

text \<open>What a draw keeps: the room, Redis and all tables but for new rows of battles.\<close>

definition draw_kept :: "('d \<Rightarrow> db_view) \<Rightarrow> i64 \<Rightarrow> tables \<Rightarrow> 'r redis \<Rightarrow> ('f, 'd, 'r) server \<Rightarrow> bool" where
  "draw_kept v rid C rd s \<longleftrightarrow> RoomManager_GetRoom rid s \<noteq> None \<and> sv_redis s = rd \<and>
     (\<exists>T. idle v T (sv_mysql s) \<and> fresh_battles T \<and> only_battles_added rid C T)"

lemma try_settlement_draw:
  assumes d: "innodb (mysql_of env) v lit" and k: "draw_kept v rid C rd s" and w: "w \<le> 0"
    and e: "try_settlement env now rid w ls pend s = (x, s')"
  shows "x = None \<and> draw_kept v rid C rd s'"
proof -
  obtain T where T: "idle v T (sv_mysql s)" "fresh_battles T" "only_battles_added rid C T" using k by (auto simp: draw_kept_def)
  have settle: "SettlementService_SettleBattle api rapi ptrs bid rid w ls y = (Inr False, y)" for api rapi ptrs bid y
    using w by (simp add: SettlementService_SettleBattle_def)
  obtain bid m where c: "(if pend_battle_id pend = 0 then BattleRepository_CreateBattle (mysql_of env) True rid (sv_mysql s)
      else (pend_battle_id pend, sv_mysql s)) = (bid, m)" by fastforce
  have m: "\<exists>T. idle v T m \<and> fresh_battles T \<and> only_battles_added rid C T"
  proof (cases "pend_battle_id pend = 0")
    case True
    then show ?thesis using CreateBattle_idle [OF d T(1), of rid bid m] c T InsertBattle_added [OF T(2,3), of lit] by auto
  qed (use c T in auto)
  have "settle_attempt (mysql_of env) (redis_of env) rid w ls (pend_battle_id pend, sv_mysql s, sv_redis s) = (Inr False, bid, m, sv_redis s)"
    using c by (simp add: settle_attempt_def settle)
  then show ?thesis using e k m by (auto simp: try_settlement_def draw_kept_def RoomManager_GetRoom_def Let_def)
qed

lemma tick_draw:
  assumes d: "innodb (mysql_of env) v lit" and k: "draw_kept v rid C rd s" and w: "w \<le> 0"
    and e: "tick_callback env now rid st True w s = (x, s')"
  shows "x = None \<and> draw_kept v rid C rd s'"
proof -
  let ?s0 = "broadcast rid MSG_GAME_STATE_NOTIFY (GameStateMsg (StateSync_BuildNotify rid st)) s"
  obtain pend s2 where b: "begin_settlement rid ?s0 = (pend, s2)" by fastforce
  have "draw_kept v rid C rd ?s0" using k by (simp add: draw_kept_def RoomManager_GetRoom_def)
  then have k2: "draw_kept v rid C rd s2" using begin_settlement_simps [OF b] by (simp add: draw_kept_def)
  have "(x, s') = (if now < pend_next_attempt pend then (None, s2) else try_settlement env now rid w (losers_of w st) pend s2)"
    using e k b by (auto simp: tick_callback_def draw_kept_def)
  then show ?thesis using k2 try_settlement_draw [OF d k2 w, of now "losers_of w st" pend x s'] by (simp split: if_splits)
qed

lemma ticks_draw:
  assumes d: "innodb (mysql_of env) v lit" and w: "w \<le> 0"
  shows "draw_kept v rid C rd s \<Longrightarrow> ticks env rid st w nows s = (x, s') \<Longrightarrow> x = None \<and> draw_kept v rid C rd s'"
proof (induction nows arbitrary: s)
  case (Cons now nows)
  obtain y s1 where t: "tick_callback env now rid st True w s = (y, s1)" by fastforce
  then have "y = None" "draw_kept v rid C rd s1" using tick_draw [OF d Cons.prems(1) w] by blast+
  then show ?case using Cons.IH [of s1] Cons.prems(2) t by simp
qed simp

text \<open>C34. A battle that ended with nobody alive has winner 0 and is never settled, however many ticks follow and
  whatever MySQL answers.  The room stays.  No score, no win or loss count, no result and no
  settlement log is written, no existing battle is touched or marked as settled, the leaderboard in Redis stays as
  it is; the database gains at most battles of the room that are not settled and have no winner.\<close>

theorem draw_never_settles:
  assumes d: "innodb (mysql_of env) v lit" and i: "idle v C (sv_mysql s)" and c: "fresh_battles C"
    and room: "RoomManager_GetRoom rid s \<noteq> None" and w: "w \<le> 0"
    and t: "ticks env rid st w nows s = (x, s')"
  shows "x = None \<and> RoomManager_GetRoom rid s' \<noteq> None \<and> sv_redis s' = sv_redis s \<and>
    (\<exists>T. idle v T (sv_mysql s') \<and> tb_player T = tb_player C \<and> tb_result T = tb_result C \<and> tb_log T = tb_log C \<and>
       (\<forall>bid. um_find (tb_battle T) bid = um_find (tb_battle C) bid \<or>
          um_find (tb_battle C) bid = None \<and>
            um_find (tb_battle T) bid = Some \<lparr>br_room_id = rid, br_winner_id = 0, br_settled = 0, br_json = ''{}''\<rparr>))"
proof -
  have "only_battles_added rid C C"
    unfolding only_battles_added_def by (rule exI [of _ "tb_battle C"], rule exI [of _ "next_battle C"]) simp
  then have "draw_kept v rid C (sv_redis s) s" using i c room by (auto simp: draw_kept_def)
  from ticks_draw [OF d w this t] have x: "x = None" "RoomManager_GetRoom rid s' \<noteq> None" "sv_redis s' = sv_redis s"
    and T: "\<exists>T. idle v T (sv_mysql s') \<and> only_battles_added rid C T" by (auto simp: draw_kept_def)
  obtain T bs n where "idle v T (sv_mysql s')" "T = C\<lparr>tb_battle := bs, next_battle := n\<rparr>"
      "\<forall>bid. um_find bs bid = um_find (tb_battle C) bid \<or> um_find (tb_battle C) bid = None \<and>
        um_find bs bid = Some \<lparr>br_room_id = rid, br_winner_id = 0, br_settled = 0, br_json = ''{}''\<rparr>"
    using T unfolding only_battles_added_def by blast
  then show ?thesis using x by (intro conjI exI [of _ T]) simp_all
qed

text \<open>Both players died in the same frame and MySQL works: three seconds later nobody's score has changed.\<close>

definition draw79 :: "rat option GameState" where
  "draw79 = \<lparr>frame_id = 40, gs_players =
     [(7, \<lparr>ent_player_id = 7, ent_x = Some 0, ent_y = Some 0, ent_hp = 0, ent_alive = False\<rparr>),
      (9, \<lparr>ent_player_id = 9, ent_x = Some 4, ent_y = Some 0, ent_hp = 0, ent_alive = False\<rparr>)]\<rparr>"

theorem draw_never_settles_witness:
  "\<exists>s' T. ticks unit_env 1000 draw79 0 [0, 1000000000, 2000000000] (finished79\<lparr>sv_mysql := mysql0 []\<rparr>) = (None, s') \<and>
     RoomManager_GetRoom 1000 s' \<noteq> None \<and> idle sim_view T (sv_mysql s') \<and> score_of T 7 = 1200 \<and> tb_log T = [] \<and>
     (\<exists>b. um_find (tb_battle T) 1 = Some b \<and> br_settled b = 0)"
proof -
  let ?s = "finished79\<lparr>sv_mysql := mysql0 []\<rparr>"
  obtain x s' where t: "ticks unit_env 1000 draw79 0 [0, 1000000000, 2000000000] ?s = (x, s')" by fastforce
  have d: "innodb (mysql_of unit_env) sim_view id" by (simp add: unit_env_def sim_innodb)
  have i: "idle sim_view tables0 (sv_mysql ?s)" by (simp add: mysql0_idle)
  have c: "fresh_battles tables0" by (simp add: fresh_battles_def tables0_def)
  have room: "RoomManager_GetRoom 1000 ?s \<noteq> None" by (simp add: finished79_def RoomManager_GetRoom_def)
  obtain T where T: "x = None" "RoomManager_GetRoom 1000 s' \<noteq> None" "idle sim_view T (sv_mysql s')" "tb_player T = tb_player tables0"
      "tb_log T = tb_log tables0" "\<forall>bid. um_find (tb_battle T) bid = um_find (tb_battle tables0) bid \<or> um_find (tb_battle tables0) bid = None \<and>
        um_find (tb_battle T) bid = Some \<lparr>br_room_id = 1000, br_winner_id = 0, br_settled = 0, br_json = ''{}''\<rparr>"
    using draw_never_settles [OF d i c room order.refl t] by (elim conjE exE) (rule that; assumption)
  have "um_find (tb_battle T) 1 = um_find (tb_battle tables0) 1" using T(6) tables0_battle(1) by (metis option.distinct(1))
  moreover have "score_of T 7 = 1200" "tb_log T = []" using T(4,5) by (simp_all add: score_of_def tables0_def)
  ultimately show ?thesis using T(1-3) t tables0_battle(1) by auto
qed

end
