(* ===== verification/Session_Lifecycle.thy ===== *)
theory Session_Lifecycle
  imports Game_Server
begin

text \<open>
  What happens to the player when a connection closes or falls silent: the callback of
  \<open>src/src/server/game_server.cpp\<close> after \<open>ConnectionManager::Remove\<close>, the heartbeat timer, and how both
  fit with a login on another connection.
\<close>

subsection \<open>Closing a connection\<close>

text \<open>The session \<open>ses\<close> is registered under its own id.\<close>

definition registered :: "sptr \<Rightarrow> ('f, 'd, 'r) server \<Rightarrow> bool" where
  "registered ses s \<longleftrightarrow> um_find (sessions (sv_net s)) (Session_SessionId ses (sv_net s)) = Some ses"

abbreviation forget_session :: "sptr \<Rightarrow> ('f, 'd, 'r) server \<Rightarrow> ('f, 'd, 'r) server" where
  "forget_session ses s \<equiv> on_net (\<lambda>n. n\<lparr>sessions := um_erase (Session_SessionId ses n) (sessions n)\<rparr>) s"

text \<open>A session whose player meanwhile uses another connection.\<close>

lemma connection_closed_stale:
  assumes r: "registered ses s" and cur: "GetByPlayerId (player_of ses s) s = Some cur"
    and ne: "Session_SessionId cur (sv_net s) \<noteq> Session_SessionId ses (sv_net s)"
  shows "connection_closed ses s = forget_session ses s"
proof -
  have "cur \<noteq> ses" using ne by blast
  then have "ConnectionManager_Remove (Session_SessionId ses (sv_net s)) (sv_net s) =
      (sv_net s)\<lparr>sessions := um_erase (Session_SessionId ses (sv_net s)) (sessions (sv_net s))\<rparr>"
    using r cur by (simp add: ConnectionManager_Remove_def registered_def GetByPlayerId_def
        ConnectionManager_GetByPlayerId_def player_of_def Let_def)
  then show ?thesis
    using cur ne by (simp add: connection_closed_def session_closed_def Let_def player_of_def GetByPlayerId_def
        ConnectionManager_GetByPlayerId_def)
qed

lemma OnPlayerDisconnect_map:
  "Room_OnPlayerDisconnect pid r =
     r\<lparr>room_players := map (\<lambda>(k, x). (k, if k = pid then x\<lparr>connected := False\<rparr> else x)) (room_players r)\<rparr>"
proof (cases "um_has (room_players r) pid")
  case True
  then show ?thesis by (simp add: Room_OnPlayerDisconnect_def um_modify_as_map)
next
  case False
  then have h: "pid \<notin> fst ` set (room_players r)" by (simp add: map_of_eq_None_iff)
  have "k \<noteq> pid" if "(k, x) \<in> set (room_players r)" for k x using that h by force
  then have "map (\<lambda>(k, x). (k, if k = pid then x\<lparr>connected := False\<rparr> else x)) (room_players r) = room_players r"
    by (auto intro!: map_idI)
  then show ?thesis using False by (simp add: Room_OnPlayerDisconnect_def)
qed

text \<open>C12. Closing the connection a player is using takes the player offline and nothing more.  The player has no
  session any more, its object is \<open>Offline\<close>, in its room it is marked as not connected, and that room is
  otherwise as before.  Other players, other rooms, the player-to-room map, battles, the match queue,
  accounts, tokens, settlements to retry, both databases and all messages stay as they were.\<close>

theorem connection_closed_current:
  assumes r: "registered ses s" and cur: "GetByPlayerId pid s = Some ses" and p: "player_of ses s = pid" "pid \<noteq> 0"
    and s': "s' = connection_closed ses s"
  shows "(\<exists>n pm rms. s' = s\<lparr>sv_net := n, sv_pm := pm, sv_rooms := rms\<rparr> \<and>
      heap n = heap (sv_net s) \<and> outbox n = outbox (sv_net s) \<and> closing n = closing (sv_net s)) \<and>
    (\<forall>sid. ConnectionManager_Get sid (sv_net s') =
       (if sid = Session_SessionId ses (sv_net s) then None else ConnectionManager_Get sid (sv_net s))) \<and>
    (\<forall>q. GetByPlayerId q s' = (if q = pid then None else GetByPlayerId q s)) \<and>
    (\<forall>q. PlayerManager_IsOnline q (sv_pm s') \<longleftrightarrow> q \<noteq> pid \<and> PlayerManager_IsOnline q (sv_pm s)) \<and>
    (\<forall>q. PlayerManager_GetPlayer q (sv_pm s') =
       map_option (\<lambda>x. if q = pid then x\<lparr>pl_status := Offline\<rparr> else x) (PlayerManager_GetPlayer q (sv_pm s))) \<and>
    (\<forall>q. RoomManager_GetRoom q s' =
       map_option (\<lambda>r. if q = room_of ses s \<and> q \<noteq> 0
           then r\<lparr>room_players := map (\<lambda>(k, x). (k, if k = pid then x\<lparr>connected := False\<rparr> else x)) (room_players r)\<rparr> else r)
         (RoomManager_GetRoom q s))"
proof -
  let ?n = "ConnectionManager_Remove (Session_SessionId ses (sv_net s)) (sv_net s)"
  have n: "?n = (sv_net s)\<lparr>player_sessions := um_erase pid (player_sessions (sv_net s)),
      sessions := um_erase (Session_SessionId ses (sv_net s)) (sessions (sv_net s))\<rparr>"
    using r cur p by (simp add: ConnectionManager_Remove_def registered_def GetByPlayerId_def
        ConnectionManager_GetByPlayerId_def player_of_def Let_def)
  let ?s1 = "s\<lparr>sv_net := ?n, sv_pm := PlayerManager_SetOffline pid (sv_pm s)\<rparr>"
  have eq: "s' = (if room_of ses s = 0 \<or> RoomManager_GetRoom (room_of ses s) s = None then ?s1
      else on_room (room_of ses s) (Room_OnPlayerDisconnect pid) ?s1)"
    using p unfolding s' connection_closed_def session_closed_def n
    by (simp add: Let_def player_of_def GetByPlayerId_def ConnectionManager_GetByPlayerId_def room_of_def
        RoomManager_GetRoom_def split: option.splits)
  define rms where "rms = sv_rooms s'"
  have fr: "s' = s\<lparr>sv_net := ?n, sv_pm := PlayerManager_SetOffline pid (sv_pm s), sv_rooms := rms\<rparr>"
    by (simp add: eq on_room_def rms_def)
  have "RoomManager_GetRoom q s' = map_option (\<lambda>r. if q = room_of ses s \<and> q \<noteq> 0
           then r\<lparr>room_players := map (\<lambda>(k, x). (k, if k = pid then x\<lparr>connected := False\<rparr> else x)) (room_players r)\<rparr> else r)
         (RoomManager_GetRoom q s)" for q
    by (cases "RoomManager_GetRoom q s") (auto simp: eq on_room_def RoomManager_GetRoom_def OnPlayerDisconnect_map)
  moreover have "\<exists>n pm rms. s' = s\<lparr>sv_net := n, sv_pm := pm, sv_rooms := rms\<rparr> \<and>
      heap n = heap (sv_net s) \<and> outbox n = outbox (sv_net s) \<and> closing n = closing (sv_net s)"
    by (rule exI [of _ ?n], rule exI [of _ "PlayerManager_SetOffline pid (sv_pm s)"], rule exI [of _ rms]) (use fr n in simp)
  moreover have f: "sv_net s' = ?n" "sv_pm s' = PlayerManager_SetOffline pid (sv_pm s)" by (simp_all add: fr)
  have "PlayerManager_GetPlayer q (sv_pm s') =
       map_option (\<lambda>x. if q = pid then x\<lparr>pl_status := Offline\<rparr> else x) (PlayerManager_GetPlayer q (sv_pm s))" for q
    by (cases "PlayerManager_GetPlayer q (sv_pm s)")
       (auto simp: f(2) PlayerManager_SetOffline_def PlayerManager_GetPlayer_def SetStatus_def)
  moreover have "PlayerManager_IsOnline q (sv_pm s') \<longleftrightarrow> q \<noteq> pid \<and> PlayerManager_IsOnline q (sv_pm s)" for q
    by (simp add: f(2) PlayerManager_IsOnline_def PlayerManager_SetOffline_def)
  moreover have "ConnectionManager_Get sid (sv_net s') =
       (if sid = Session_SessionId ses (sv_net s) then None else ConnectionManager_Get sid (sv_net s))" for sid
    by (simp add: f(1) n ConnectionManager_Get_def)
  moreover have "GetByPlayerId q s' = (if q = pid then None else GetByPlayerId q s)" for q
    by (simp add: f(1) n GetByPlayerId_def ConnectionManager_GetByPlayerId_def)
  ultimately show ?thesis by blast
qed

text \<open>Bob (player 7, session pointer 1) is in room 1000 and also waits in the match queue.\<close>

definition bob_in_room :: "(rat option, sim, string \<Rightarrow> zset) server" where
  "bob_in_room = login_room\<lparr>sv_queue := \<lparr>queue = [7], in_queue = {7}\<rparr>,
     sv_net := (sv_net login_room)\<lparr>heap := (heap (sv_net login_room))(1 := (heap (sv_net login_room) 1)\<lparr>ses_room_id := 1000\<rparr>)\<rparr>\<rparr>"

text \<open>He loses his connection.\<close>

theorem connection_closed_current_witness:
  "let s' = connection_closed 1 bob_in_room in
     GetByPlayerId 7 s' = None \<and> GetByPlayerId 9 s' = Some 0 \<and> queue (sv_queue s') = [7] \<and>
     (\<exists>r x y. RoomManager_GetRoom 1000 s' = Some r \<and> room_players r = [(7, x), (9, y)] \<and> \<not> connected x \<and> connected y)"
proof -
  let ?s = bob_in_room
  have w: "registered 1 ?s" "GetByPlayerId 7 ?s = Some 1" "GetByPlayerId 9 ?s = Some 0" "player_of 1 ?s = 7" "room_of 1 ?s = 1000"
      "RoomManager_GetRoom 1000 ?s = Some (add_players [7, 9] (Room_new 1000 True))"
    by (simp_all add: registered_def bob_in_room_def login_room_def room79_def GetByPlayerId_def ConnectionManager_GetByPlayerId_def
        player_of_def room_of_def RoomManager_GetRoom_def Session_new_def)
  have n: "(7 :: i64) \<noteq> 0" by simp
  define s' where "s' = connection_closed 1 ?s"
  note c = connection_closed_current [OF w(1,2,4) n s'_def]
  have "\<exists>n pm rms. s' = ?s\<lparr>sv_net := n, sv_pm := pm, sv_rooms := rms\<rparr>" using c by blast
  then have q: "queue (sv_queue s') = [7]" by (auto simp: bob_in_room_def)
  have g: "\<forall>q. GetByPlayerId q s' = (if q = 7 then None else GetByPlayerId q ?s)" using c by blast
  have "RoomManager_GetRoom 1000 s' = map_option (\<lambda>r. if (1000 :: i64) = room_of 1 ?s \<and> (1000 :: i64) \<noteq> 0
      then r\<lparr>room_players := map (\<lambda>(k, x). (k, if k = 7 then x\<lparr>connected := False\<rparr> else x)) (room_players r)\<rparr> else r)
      (RoomManager_GetRoom 1000 ?s)"
    using c by blast
  then have "\<exists>r x y. RoomManager_GetRoom 1000 s' = Some r \<and> room_players r = [(7, x), (9, y)] \<and> \<not> connected x \<and> connected y"
    unfolding w(5,6) by (simp add: Room_AddPlayer_def Room_new_def)
  then show ?thesis using q g w(3) unfolding s'_def Let_def by simp
qed

text \<open>C10. A login on a new connection survives the end of the old one.  The login asks the old connection to close; when
  that happens right after the login, the player stays online on the new session and stays connected
  in its room: only the entry of the old session goes away.\<close>

theorem relogin_survives_old_close:
  assumes full: "ctx env = full_context" and inv: "rooms_inv (ctx env) s" and acc: "account \<noteq> []"
    and known: "account_find account s = Some pid" and old: "GetByPlayerId pid s = Some old" "player_of old s = pid"
    and ids: "Session_SessionId old (sv_net s) \<noteq> Session_SessionId ses (sv_net s)" "registered old s" "conn_alive (heap (sv_net s) old)"
    and l: "LoginService_HandleLogin env t h (Some ses) (Some account) s = (None, s')"
  shows "closing (sv_net s') = closing (sv_net s) @ [old] \<and> connection_closed old s' = forget_session old s' \<and>
    GetByPlayerId pid (connection_closed old s') = Some ses \<and> reentered pid ses s (connection_closed old s')"
proof -
  obtain pid' name where h: "\<forall>p. account_find account s = Some p \<longrightarrow> p = pid'" "GetByPlayerId pid' s' = Some ses"
      "closing (sv_net s') = closing (sv_net s) @ replaced_session pid' ses s" "reentered pid' ses s s'"
    using login_outcome [OF full inv acc l] by blast
  have pid: "pid' = pid" using h(1) known by blast
  have ne: "old \<noteq> ses" using ids by blast
  have keep: "Session_SessionId p (sv_net s') = Session_SessionId p (sv_net s)"
      "p \<noteq> ses \<Longrightarrow> Session_PlayerId p (sv_net s') = Session_PlayerId p (sv_net s)" "sessions (sv_net s') = sessions (sv_net s)" for p
    using HandleLogin_sessions [OF l] by blast+
  have "registered old s'" "player_of old s' = pid" using ids old ne by (simp_all add: registered_def player_of_def keep)
  moreover have "Session_SessionId ses (sv_net s') \<noteq> Session_SessionId old (sv_net s')" using ids by (simp add: keep)
  ultimately have c: "connection_closed old s' = forget_session old s'"
    using connection_closed_stale [of old s' ses] h(2) pid by simp
  have "replaced_session pid ses s = [old]" using old ids by (simp add: replaced_session_def)
  moreover have "reentered pid ses s (forget_session old s') = reentered pid ses s s'" by (rule reentered_frame) simp_all
  ultimately show ?thesis using h pid c by (simp add: GetByPlayerId_def ConnectionManager_GetByPlayerId_def)
qed

theorem relogin_survives_old_close_witness:
  "\<exists>s'. LoginService_HandleLogin down_env 8 8 (Some 2) (Some ''bob'') login_room = (None, s') \<and>
     GetByPlayerId 7 (connection_closed 1 s') = Some 2 \<and> reentered 7 2 login_room (connection_closed 1 s')"
proof -
  obtain s' where l: "LoginService_HandleLogin down_env 8 8 (Some 2) (Some ''bob'') login_room = (None, s')"
    using login_room_login(2) by blast
  have w: "GetByPlayerId 7 login_room = Some 1" "player_of 1 login_room = 7" "registered 1 login_room"
      "Session_SessionId 1 (sv_net login_room) \<noteq> Session_SessionId 2 (sv_net login_room)" "conn_alive (heap (sv_net login_room) 1)"
    by (simp_all add: registered_def login_room_def room79_def GetByPlayerId_def ConnectionManager_GetByPlayerId_def
        player_of_def Session_new_def)
  have "''bob'' \<noteq> []" by simp
  moreover have "rooms_inv (ctx down_env) login_room" using login_room_inv by simp
  ultimately show ?thesis
    using relogin_survives_old_close [OF down_simps(1) _ _ login_room_login(1) w(1,2,4,3,5) l] l by blast
qed

subsection \<open>A session that changes its player\<close>

lemma session_closed_net: "sv_net (session_closed session s) = sv_net s"
  by (simp add: session_closed_def Let_def on_room_def split: option.splits)

lemma GetByPlayerId_closed:
  "GetByPlayerId q (connection_closed ses s) =
     ConnectionManager_GetByPlayerId q (ConnectionManager_Remove (Session_SessionId ses (sv_net s)) (sv_net s))"
  by (simp add: GetByPlayerId_def connection_closed_def session_closed_net)

text \<open>A session that logs in for a second account stays registered for its first player: no step of the login or of the
  end of the connection removes that entry, so messages for the first player go to a closed session
  until that player logs in again.\<close>

theorem relogin_leaves_stale_player_session:
  assumes c: "connection_manager_set (ctx env)" and a: "account_find account s = Some pid" "account \<noteq> []" and p: "p \<noteq> pid"
    and s: "GetByPlayerId p s = Some ses"
    and l: "LoginService_HandleLogin env t h (Some ses) (Some account) s = (e, s')"
  shows "GetByPlayerId p (connection_closed ses s') = Some ses"
proof -
  have goc: "LoginService_GetOrCreatePlayerId env account s = (pid, s)"
    using a by (simp add: LoginService_GetOrCreatePlayerId_def account_key_def)
  obtain loaded s6 where b: "load_player env pid (login_bind env t h pid ses s) = (loaded, s6)" by fastforce
  obtain m where m: "s6 = (login_bind env t h pid ses s)\<lparr>sv_mysql := m\<rparr>" by (rule load_player_frame [OF b])
  have s': "s' = s6 \<or> (\<exists>data. s' = login_enter env t pid ses data s6)"
    using l goc b by (auto simp: LoginService_HandleLogin_def split: sum.splits)
  then have "player_sessions (sv_net s') = um_put pid ses (player_sessions (sv_net s))" "player_of ses s' = pid"
    using login_bind_net(1) [OF c] by (auto simp: m player_of_def)
  then have "ConnectionManager_GetByPlayerId p (sv_net s') = Some ses" "Session_PlayerId ses (sv_net s') \<noteq> p"
    using s p by (simp_all add: GetByPlayerId_def ConnectionManager_GetByPlayerId_def player_of_def)
  then show ?thesis by (auto simp: GetByPlayerId_closed cm.removed)
qed

theorem relogin_leaves_stale_player_session_witness:
  "\<exists>e s'. LoginService_HandleLogin down_env 8 8 (Some 0) (Some ''bob'') login_room = (e, s') \<and>
     GetByPlayerId 9 (connection_closed 0 s') = Some 0"
proof -
  obtain e s' where l: "LoginService_HandleLogin down_env 8 8 (Some 0) (Some ''bob'') login_room = (e, s')" by fastforce
  have "connection_manager_set (ctx down_env)" by (simp add: full_context_def)
  moreover have "GetByPlayerId 9 login_room = Some 0"
    by (simp add: login_room_def room79_def GetByPlayerId_def ConnectionManager_GetByPlayerId_def)
  ultimately show ?thesis
    using relogin_leaves_stale_player_session [OF _ login_room_login(1) _ _ _ l, of 9] l by simp
qed

subsection \<open>The heartbeat timer\<close>

definition heartbeat_late :: "i64 \<Rightarrow> ('f, 'd, 'r) server \<Rightarrow> sptr \<Rightarrow> bool" where
  "heartbeat_late now s ses \<longleftrightarrow> now - last_heartbeat_ms (heap (sv_net s) ses) > 30000"

text \<open>A heartbeat scan asks exactly the connections to close whose session sent neither a login nor a heartbeat for
  more than 30 seconds, each once for every entry of the session table, and changes nothing else.\<close>

theorem heartbeat_scan_closes_late:
  "heartbeat_scan now s = on_net (\<lambda>n. n\<lparr>closing := closing n @
     filter (\<lambda>ses. conn_alive (heap n ses)) (filter (heartbeat_late now s) (map snd (sessions n)))\<rparr>) s"
proof -
  have "fold (\<lambda>ses s. if now - last_heartbeat_ms (heap (sv_net s) ses) > 30000 then on_net (Session_Close ses) s else s) ps s =
     on_net (\<lambda>n. n\<lparr>closing := closing n @
       filter (\<lambda>ses. conn_alive (heap n ses)) (filter (heartbeat_late now s) ps)\<rparr>) s" for ps
  proof (induction ps arbitrary: s)
    case (Cons p ps)
    have "heartbeat_late now (on_net (Session_Close p) s) = heartbeat_late now s" by (simp add: heartbeat_late_def fun_eq_iff)
    then show ?case by (simp add: Cons heartbeat_late_def Session_Close_def)
  qed simp
  then show ?thesis by (simp add: heartbeat_scan_def ConnectionManager_AllSessions_def)
qed

end
