(* ===== verification/Tcp_Server.thy ===== *)
theory Tcp_Server
  imports Session_Lifecycle
begin

text \<open>
  Accepting connections: \<open>src/src/net/tcp_server.h\<close> and \<open>tcp_server.cpp\<close>.  Asio is outside the model: the
  results of its calls are arguments, and an \<open>async_accept\<close> in flight is the field \<open>ac_pending\<close>, the id
  its connection has.  A new session object lives at the next free address.  Afterwards the handlers of
  the connection run on its strand (\<open>Tcp_Connection\<close>).
\<close>

record acceptor =
  ac_worker_threads :: i32
  ac_running :: bool
  ac_open :: bool
  ac_pending :: "u64 option"
  ac_next_ptr :: sptr

definition TcpServer_new :: "i32 \<Rightarrow> acceptor" where
  "TcpServer_new threads =
     \<lparr>ac_worker_threads = (if threads > 0 then threads else 1), ac_running = False, ac_open = False,
      ac_pending = None, ac_next_ptr = 0\<rparr>"

type_synonym ('f, 'd, 'r) listening = "acceptor \<times> ('f, 'd, 'r) server"

definition DoAccept :: "('f, 'd, 'r) listening \<Rightarrow> ('f, 'd, 'r) listening" where
  "DoAccept x =
     (let (a, s) = x; (sid, s1) = NextSessionId s
      in (a\<lparr>ac_pending := Some (sid mod 2 ^ 64)\<rparr>, s1))"

text \<open>The completion of \<open>async_accept\<close>; \<open>now\<close> is the heartbeat time of the new session.\<close>

definition on_accept :: "bool \<Rightarrow> i64 \<Rightarrow> ('f, 'd, 'r) listening \<Rightarrow> ('f, 'd, 'r) listening" where
  "on_accept ok now x =
     (let (a, s) = x in
      case ac_pending a of
        None \<Rightarrow> x
      | Some conn_id \<Rightarrow>
          let a1 = a\<lparr>ac_pending := None\<rparr>;
              (a2, s2) =
                (if ok then
                   let p = ac_next_ptr a1;
                       s1 = on_net (on_session p (\<lambda>_. Session_new conn_id now)) s
                   in (a1\<lparr>ac_next_ptr := Suc p\<rparr>, on_net (ConnectionManager_Add (Some p)) s1)
                 else (a1, s))
          in if ac_running a2 then DoAccept (a2, s2) else (a2, s2))"

text \<open>The first component of the result is the value returned, the second the number of worker threads that run the
  \<open>io_context\<close>; \<open>true\<close> is returned when they have all ended.  The result of \<open>set_option\<close> is not looked at.\<close>

definition TcpServer_Start ::
    "bool \<Rightarrow> bool \<Rightarrow> bool \<Rightarrow> bool \<Rightarrow> ('f, 'd, 'r) listening \<Rightarrow> bool \<times> nat \<times> ('f, 'd, 'r) listening" where
  "TcpServer_Start address_ok open_ok bind_ok listen_ok x =
     (let (a, s) = x in
      if \<not> address_ok then (False, 0, x)
      else if \<not> open_ok then (False, 0, x)
      else
        let a1 = a\<lparr>ac_open := True\<rparr> in
        if \<not> bind_ok then (False, 0, (a1, s))
        else if \<not> listen_ok then (False, 0, (a1, s))
        else (True, nat (ac_worker_threads a1), DoAccept (a1\<lparr>ac_running := True\<rparr>, s)))"

text \<open>The flag says whether the \<open>io_context\<close> was stopped by this call.\<close>

definition TcpServer_Stop :: "acceptor \<Rightarrow> bool \<times> acceptor" where
  "TcpServer_Stop a = (ac_running a, if ac_running a then a\<lparr>ac_running := False, ac_open := False\<rparr> else a)"

subsection \<open>Session ids are unique\<close>

text \<open>Every entry of the session table is an allocated session under its own id, no two entries share an object, and the
  ids in use are below the counter.\<close>

definition sessions_inv :: "('f, 'd, 'r) listening \<Rightarrow> bool" where
  "sessions_inv x \<longleftrightarrow>
     (let (a, s) = x; n = sv_net s in
       (\<forall>sid p. um_find (sessions n) sid = Some p \<longrightarrow>
          Session_SessionId p n = sid \<and> p < ac_next_ptr a \<and> 0 \<le> sid \<and> sid < next_session_id (sv_ids s)) \<and>
       (\<forall>sid. ac_pending a = Some sid \<longrightarrow>
          um_find (sessions n) sid = None \<and> 0 \<le> sid \<and> sid < next_session_id (sv_ids s)) \<and>
       1 \<le> next_session_id (sv_ids s) \<and> next_session_id (sv_ids s) < 2 ^ 63)"

text \<open>Steps that leave the table and the ids of the sessions alone.\<close>

definition net_kept :: "'f net \<Rightarrow> 'f net \<Rightarrow> bool" where
  "net_kept n n' \<longleftrightarrow> sessions n' = sessions n \<and> (\<forall>p. Session_SessionId p n' = Session_SessionId p n)"

definition sessions_kept :: "('f, 'd, 'r) server \<Rightarrow> ('f, 'd, 'r) server \<Rightarrow> bool" where
  "sessions_kept s s' \<longleftrightarrow> net_kept (sv_net s) (sv_net s') \<and>
     next_session_id (sv_ids s') = next_session_id (sv_ids s)"

lemma net_kept_refl [simp]: "net_kept n n"
  by (simp add: net_kept_def)

lemma sessions_kept_refl [simp]: "sessions_kept s s"
  by (simp add: sessions_kept_def)

lemma sessions_kept_trans: "sessions_kept s s' \<Longrightarrow> sessions_kept s' s'' \<Longrightarrow> sessions_kept s s''"
  by (simp add: sessions_kept_def net_kept_def)

lemma sessions_inv_kept: "sessions_kept s s' \<Longrightarrow> sessions_inv (a, s) \<Longrightarrow> sessions_inv (a, s')"
  by (simp add: sessions_kept_def net_kept_def sessions_inv_def Let_def)

lemma sessions_invD:
  assumes "sessions_inv (a, s)"
  shows "um_find (sessions (sv_net s)) sid = Some p \<Longrightarrow>
      Session_SessionId p (sv_net s) = sid \<and> p < ac_next_ptr a \<and> 0 \<le> sid \<and> sid < next_session_id (sv_ids s)"
    and "ac_pending a = Some sid \<Longrightarrow>
      um_find (sessions (sv_net s)) sid = None \<and> 0 \<le> sid \<and> sid < next_session_id (sv_ids s)"
    and "1 \<le> next_session_id (sv_ids s)" "next_session_id (sv_ids s) < 2 ^ 63"
  using assms unfolding sessions_inv_def Let_def prod.case by blast+

lemma sessions_inv_DoAccept:
  assumes i: "sessions_inv (a, s)" and n: "next_session_id (sv_ids s) < 2 ^ 63 - 1"
  shows "sessions_inv (DoAccept (a, s))"
proof -
  let ?n = "next_session_id (sv_ids s)"
  note d = sessions_invD [OF i]
  have w: "wrap64 (?n + 1) = ?n + 1" "?n mod 2 ^ 64 = ?n" using n d(3) by (simp_all add: in_i64_def)
  have fresh: "um_find (sessions (sv_net s)) ?n = None"
    using d(1) [of ?n] by (cases "um_find (sessions (sv_net s)) ?n") auto
  have "DoAccept (a, s) = (a\<lparr>ac_pending := Some ?n\<rparr>, s\<lparr>sv_ids := (sv_ids s)\<lparr>next_session_id := ?n + 1\<rparr>\<rparr>)"
    by (simp only: DoAccept_def NextSessionId_def Let_def prod.case w)
  moreover have "sessions_inv (a\<lparr>ac_pending := Some ?n\<rparr>, s\<lparr>sv_ids := (sv_ids s)\<lparr>next_session_id := ?n + 1\<rparr>\<rparr>)"
    using d(1,3) n fresh by (simp add: sessions_inv_def) fastforce
  ultimately show ?thesis by simp
qed

lemma sessions_inv_on_accept:
  assumes i: "sessions_inv (a, s)" and n: "next_session_id (sv_ids s) < 2 ^ 63 - 1"
  shows "sessions_inv (on_accept ok now (a, s))"
proof (cases "ac_pending a")
  case None
  then show ?thesis using i by (simp add: on_accept_def)
next
  case (Some cid)
  let ?p = "ac_next_ptr a"
  define x where "x = (if ok then (a\<lparr>ac_pending := None, ac_next_ptr := Suc ?p\<rparr>,
      on_net (ConnectionManager_Add (Some ?p) \<circ> on_session ?p (\<lambda>_. Session_new cid now)) s) else (a\<lparr>ac_pending := None\<rparr>, s))"
  have ids: "next_session_id (sv_ids (snd x)) = next_session_id (sv_ids s)" by (simp add: x_def)
  have "sessions_inv x"
    using i Some by (auto simp: x_def sessions_inv_def Let_def ConnectionManager_Add_def Session_new_def less_Suc_eq
        split: if_splits)
  moreover have "on_accept ok now (a, s) = (if ac_running (fst x) then DoAccept x else x)"
    using Some by (simp add: on_accept_def x_def Let_def)
  ultimately show ?thesis using sessions_inv_DoAccept [of "fst x" "snd x"] ids n by simp
qed

end
