(* ===== verification/Server_System.thy ===== *)
theory Server_System
  imports Tcp_Server Settlement_Loop
begin

text \<open>
  The running server as a transition system: accepted connections, dispatched packets, closed connections,
  heartbeat scans and rounds of the game loop, in any order, from the state \<open>GameServer::Init\<close> and
  \<open>Start\<close> leave.  The tables of the services stay consistent with each other in every reachable
  state.  A handler runs as one step; the sequence of the steps is arbitrary.
\<close>

subsection \<open>The session table is only written by the connections\<close>

lemma net_kept_simps [simp]:
  "net_kept n (Session_SetRoomId ses rid n') = net_kept n n'" "net_kept n (Session_UpdateHeartbeatTime ses now n') = net_kept n n'"
  "net_kept n (Session_BindPlayerId ses pid n') = net_kept n n'" "net_kept n (Session_Close ses n') = net_kept n n'"
  "net_kept n (Session_Send ses mid msg n') = net_kept n n'" "net_kept n (ConnectionManager_BindPlayer pid x n') = net_kept n n'"
  "net_kept n (Room_Broadcast r mid msg n') = net_kept n n'"
  by (auto simp: net_kept_def Session_SetRoomId_def Session_UpdateHeartbeatTime_def Session_BindPlayerId_def
      ConnectionManager_BindPlayer_def split: option.splits)

lemma sessions_kept_simps [simp]:
  "sessions_kept s (s'\<lparr>sv_pm := pm\<rparr>) = sessions_kept s s'" "sessions_kept s (s'\<lparr>sv_queue := q\<rparr>) = sessions_kept s s'"
  "sessions_kept s (s'\<lparr>sv_loop := gl\<rparr>) = sessions_kept s s'" "sessions_kept s (s'\<lparr>sv_rooms := rs\<rparr>) = sessions_kept s s'"
  "sessions_kept s (s'\<lparr>player_room_map := pr\<rparr>) = sessions_kept s s'" "sessions_kept s (s'\<lparr>sv_mysql := m\<rparr>) = sessions_kept s s'"
  "sessions_kept s (s'\<lparr>sv_redis := r\<rparr>) = sessions_kept s s'" "sessions_kept s (s'\<lparr>pending_settlements := pe\<rparr>) = sessions_kept s s'"
  "sessions_kept s (send ses mid msg s') = sessions_kept s s'" "sessions_kept s (broadcast rid mid msg s') = sessions_kept s s'"
  "sessions_kept s (on_room rid f s') = sessions_kept s s'"
  "sessions_kept s (s'\<lparr>sv_net := n\<rparr>) = (net_kept (sv_net s) n \<and> next_session_id (sv_ids s') = next_session_id (sv_ids s))"
  by (simp_all add: sessions_kept_def on_room_def send_def broadcast_def split: option.splits)

lemma sessions_kept_fold:
  "(\<And>x s. sessions_kept s (f x s)) \<Longrightarrow> sessions_kept s (fold f xs s)"
proof (induction xs arbitrary: s)
  case (Cons x xs)
  then show ?case by (metis fold_simps(2) sessions_kept_trans)
qed (simp add: sessions_kept_refl)

lemma sessions_kept_rooms:
  "sessions_kept s (enter_room c rid pid s)" "sessions_kept s (release_player c pid s)"
  "sessions_kept s (start_player c rid pid s)" "sessions_kept s (notify_match c rid msg pid s)"
  by (simp_all add: enter_room_def release_player_def start_player_def notify_match_def Let_def sessions_kept_refl
      split: option.splits)

lemma sessions_kept_CreateRoom: "sessions_kept s (snd (RoomManager_CreateRoom c ps s))"
  unfolding RoomManager_CreateRoom_def Let_def NextRoomId_def prod.case snd_conv
  by (rule sessions_kept_trans [OF _ sessions_kept_fold [OF sessions_kept_rooms(1)]]) (simp add: sessions_kept_def)

lemma sessions_kept_RemoveRoom: "sessions_kept s (RoomManager_RemoveRoom c rid s)"
proof -
  have "sessions_kept s (fold (release_player c) ps (s\<lparr>player_room_map := x, sv_rooms := y\<rparr>))" for ps x y
    by (rule sessions_kept_trans [OF _ sessions_kept_fold [OF sessions_kept_rooms(2)]]) (simp add: sessions_kept_refl)
  then show ?thesis by (simp add: RoomManager_RemoveRoom_def Let_def)
qed

lemma sessions_kept_StartGameRoom: "sessions_kept s (RoomManager_StartGameRoom env ptr s)"
proof -
  have "sessions_kept s (fold (start_player c rid) ps (s\<lparr>sv_loop := x\<rparr>))" for c rid ps x
    by (rule sessions_kept_trans [OF _ sessions_kept_fold [OF sessions_kept_rooms(3)]]) (simp add: sessions_kept_refl)
  then show ?thesis by (simp add: RoomManager_StartGameRoom_def Let_def sessions_kept_refl split: option.splits)
qed

lemma sessions_kept_match_players: "sessions_kept s (match_players c ps s)"
  unfolding match_players_def split_beta Let_def
  by (rule sessions_kept_trans [OF sessions_kept_CreateRoom sessions_kept_fold [OF sessions_kept_rooms(4)]])

lemma sessions_kept_TryCreateRoom: "sessions_kept s (MatchService_TryCreateRoom env s)"
proof (induction env s rule: MatchService_TryCreateRoom.induct)
  case (1 env s)
  obtain g q where pop: "MatchQueue_TryPopN (to_size_t (room_player_count (sv_config s))) (sv_queue s) = (g, q)" by fastforce
  show ?case
  proof (cases "g = [] \<or> length g \<noteq> to_size_t (room_player_count (sv_config s)) \<or> \<not> room_manager_set (ctx env)")
    case True
    then show ?thesis by (subst MatchService_TryCreateRoom.simps) (auto simp: pop Let_def sessions_kept_refl)
  next
    case False
    have "sessions_kept s (match_players (ctx env) g (s\<lparr>sv_queue := q\<rparr>))"
      by (rule sessions_kept_trans [OF _ sessions_kept_match_players]) (simp add: sessions_kept_refl)
    from sessions_kept_trans [OF this 1 [OF refl pop [symmetric] refl refl]] False show ?thesis
      by (subst MatchService_TryCreateRoom.simps) (simp add: pop Let_def)
  qed
qed

lemma sessions_kept_StartMatching: "sessions_kept s (snd (MatchService_StartMatching env pid session msg s))"
proof -
  have t: "sessions_kept s t \<Longrightarrow> sessions_kept s (MatchService_TryCreateRoom env t)" for t
    using sessions_kept_trans [OF _ sessions_kept_TryCreateRoom] .
  show ?thesis
    by (auto simp: MatchService_StartMatching_def Let_def sessions_kept_refl split_beta split: option.splits intro!: t)
qed

lemma sessions_kept_match:
  "sessions_kept s (MatchService_HandleMatch env session request s)"
  "sessions_kept s (MatchService_HandleCancelMatch env session request s)"
  "sessions_kept s (snd (MatchService_RequeuePlayer env pid s))"
  using sessions_kept_StartMatching [of s env _ _ "''matching''"]
  by (auto simp: MatchService_HandleMatch_def MatchService_HandleCancelMatch_def MatchService_RequeuePlayer_def Let_def
      sessions_kept_refl split_beta split: option.splits)

lemma ready_kept: "Room_SetReadyAndTryStart pid rdy r n = (b, r', n') \<Longrightarrow> net_kept n n'"
  by (auto simp: Room_SetReadyAndTryStart_def Let_def split: if_splits)

lemma load_player_ids: "sv_ids (snd (load_player env pid s)) = sv_ids s"
  by (simp add: load_player_def split_beta)

lemma sessions_kept_rooms_handlers:
  "sessions_kept s (RoomManager_HandleReady env session rdy s)"
  "sessions_kept s (RoomManager_HandleInput env now session input s)"
  "sessions_kept s (RoomManager_HandleLeaveRoom env session req s)"
proof -
  have start: "sessions_kept s t \<Longrightarrow> sessions_kept s (RoomManager_StartGameRoom env ptr t)" for t ptr
    using sessions_kept_trans [OF _ sessions_kept_StartGameRoom] .
  show "sessions_kept s (RoomManager_HandleReady env session rdy s)"
    by (auto simp: RoomManager_HandleReady_def Let_def on_room_def split: option.splits prod.splits intro!: start
        intro: ready_kept)
  show "sessions_kept s (RoomManager_HandleInput env now session input s)"
    by (simp add: RoomManager_HandleInput_def Let_def split: option.splits)
  have requeue: "sessions_kept s (fold (\<lambda>pid s. snd (MatchService_RequeuePlayer env pid s)) ps t)"
    if "sessions_kept s t" for ps t
    by (rule sessions_kept_trans [OF that sessions_kept_fold]) (rule sessions_kept_match(3))
  have remove: "sessions_kept s t \<Longrightarrow> sessions_kept s (RoomManager_RemoveRoom c rid t)" for c rid t
    using sessions_kept_trans [OF _ sessions_kept_RemoveRoom] .
  show "sessions_kept s (RoomManager_HandleLeaveRoom env session req s)"
    by (auto simp: RoomManager_HandleLeaveRoom_def RoomManager_HandleLeaveWaiting_def RoomManager_HandleLeavePlaying_def Let_def
        split: option.splits intro!: requeue remove)
qed

lemma sessions_kept_login:
  assumes "LoginService_HandleLogin env t h session request s = (e, s')"
  shows "sessions_kept s s'"
proof (cases session)
  case (Some ses)
  have "next_session_id (sv_ids (snd (LoginService_GetOrCreatePlayerId env account s))) = next_session_id (sv_ids s)" for account
    by (simp add: LoginService_GetOrCreatePlayerId_def account_key_def NextPlayerId_def account_store_def persist_player_def
        Let_def split_beta split: option.splits)
  then have "next_session_id (sv_ids s') = next_session_id (sv_ids s)"
    using assms Some by (auto simp: LoginService_HandleLogin_def split_beta load_player_ids
        split: option.splits sum.splits)
  then show ?thesis using HandleLogin_sessions [of env t h ses request s e s'] assms Some
    by (simp add: sessions_kept_def net_kept_def)
qed (use assms in \<open>simp add: LoginService_HandleLogin_def\<close>)

lemma rejoin_kept: "sessions_kept s (snd (rejoin_room c pid ses b t)) = sessions_kept s t"
  by (simp add: sessions_kept_def net_kept_def)

lemma sessions_kept_bind: "sessions_kept s (bind_player c pid ses t) = sessions_kept s t"
  by (simp add: sessions_kept_def net_kept_def)

lemma sessions_kept_others:
  "sessions_kept s (LoginService_HandleReconnect env session rq s)"
  "sessions_kept s (LoginService_HandleHeartbeat h r session s)"
  "rank_request env session page s = Completed s' \<Longrightarrow> sessions_kept s s'"
  "sessions_kept s (heartbeat_scan now s)"
proof -
  show "sessions_kept s (LoginService_HandleReconnect env session rq s)"
    by (simp add: LoginService_HandleReconnect_def Let_def split_beta rejoin_kept sessions_kept_bind split: option.splits)
  show "sessions_kept s (LoginService_HandleHeartbeat h r session s)"
    by (simp add: LoginService_HandleHeartbeat_def split: option.splits)
  show "rank_request env session page s = Completed s' \<Longrightarrow> sessions_kept s s'"
    by (auto simp: rank_request_def RankService_HandleRankRequest_def split: option.splits prod.splits)
  show "sessions_kept s (heartbeat_scan now s)"
    by (simp add: heartbeat_scan_closes_late net_kept_def)
qed

text \<open>Every dispatched packet.\<close>

lemma serve_cases:
  assumes "serve env ps m clock ses b s = r"
  obtains (rank) page where "r = rank_request env (Some ses) page s"
  | (login) rq where "r = with_exception (LoginService_HandleLogin env (fst clock) (snd clock) (Some ses) rq s)"
  | (other) f where "r = Completed (f s)"
      "f \<in> {id, LoginService_HandleHeartbeat (fst clock) (snd clock) (Some ses)} \<union>
        range (LoginService_HandleReconnect env (Some ses)) \<union> range (MatchService_HandleMatch env (Some ses)) \<union>
        range (MatchService_HandleCancelMatch env (Some ses)) \<union> range (RoomManager_HandleReady env (Some ses)) \<union>
        range (RoomManager_HandleLeaveRoom env (Some ses)) \<union> range (RoomManager_HandleInput env (fst clock) (Some ses))"
proof -
  have "(\<exists>page. r = rank_request env (Some ses) page s) \<or>
    (\<exists>rq. r = with_exception (LoginService_HandleLogin env (fst clock) (snd clock) (Some ses) rq s)) \<or>
    (\<exists>f. r = Completed (f s) \<and> f \<in> {id, LoginService_HandleHeartbeat (fst clock) (snd clock) (Some ses)} \<union>
        range (LoginService_HandleReconnect env (Some ses)) \<union> range (MatchService_HandleMatch env (Some ses)) \<union>
        range (MatchService_HandleCancelMatch env (Some ses)) \<union> range (RoomManager_HandleReady env (Some ses)) \<union>
        range (RoomManager_HandleLeaveRoom env (Some ses)) \<union> range (RoomManager_HandleInput env (fst clock) (Some ses)))"
    using assms by (cases m) (force simp: serve_def)+
  then show thesis using that by blast
qed

subsection \<open>The invariant\<close>

definition server_inv :: "('f, 'd, 'r) server \<Rightarrow> bool" where
  "server_inv s \<longleftrightarrow> rooms_inv full_context s \<and> mq_inv (sv_queue s)"

text \<open>Enough room ids for what one handler can use: one per player it puts into the queue.\<close>

definition ids_left_ok :: "('f, 'd, 'r) server \<Rightarrow> bool" where
  "ids_left_ok s \<longleftrightarrow> id_need s + 1 < 2 ^ 63 \<and>
     (\<forall>(rid, r)\<in>set (sv_rooms s). id_need s + int (length (room_players r)) < 2 ^ 63)"

lemma server_inv_match:
  assumes "match_keeps c s s'" and "c = full_context" and "server_inv s"
  shows "server_inv s'"
  using assms by (simp add: match_keeps_def server_inv_def)

lemma requeue_keeps:
  "ctx env = full_context \<Longrightarrow> server_inv s \<Longrightarrow> id_need s + int (length ps) < 2 ^ 63 \<Longrightarrow>
     server_inv (fold (\<lambda>pid s. snd (MatchService_RequeuePlayer env pid s)) ps s)"
proof (induction ps arbitrary: s)
  case (Cons p ps)
  let ?s1 = "snd (MatchService_RequeuePlayer env p s)"
  have "match_keeps (ctx env) s ?s1"
    by (rule RequeuePlayer_keeps) (use Cons.prems in \<open>simp_all add: server_inv_def\<close>)
  then have "server_inv ?s1" "id_need ?s1 \<le> id_need s + 1"
    using server_inv_match Cons.prems(1,2) by (blast, simp add: match_keeps_def)
  then show ?case using Cons.IH [OF Cons.prems(1), of ?s1] Cons.prems(3) by simp
qed simp

lemma server_inv_cong:
  assumes "server_inv s" and "sv_queue s' = sv_queue s" and "rooms_inv full_context s'"
  shows "server_inv s'"
  using assms by (simp add: server_inv_def)

lemma server_inv_send [simp]: "server_inv (send ses mid msg s) = server_inv s"
  by (simp add: server_inv_def rooms_inv_send)

lemma server_inv_LeaveRoom:
  assumes full: "ctx env = full_context" and i: "server_inv s" and left: "ids_left_ok s"
  shows "server_inv (RoomManager_HandleLeaveRoom env session req s)"
proof (cases "\<exists>ses q p r. session = Some ses \<and> req = Some q \<and> RoomManager_GetPlayerRoom (player_of ses s) s = Some (p, r)")
  case False
  then show ?thesis using i by (auto simp: RoomManager_HandleLeaveRoom_def split: option.splits)
next
  case True
  then obtain ses q p r where c: "session = Some ses" "req = Some q" "RoomManager_GetPlayerRoom (player_of ses s) s = Some (p, r)"
    by blast
  have ri: "rooms_inv full_context s" using i by (simp add: server_inv_def)
  let ?others = "filter (\<lambda>pid. pid \<noteq> player_of ses s) (Room_PlayerIds r)" and ?t = "after_leaving env ses (p, r) s"
  have "rooms_inv full_context ?t"
    using ri full by (simp add: after_leaving_def rooms_inv_RemoveRoom rooms_inv_send rooms_inv_broadcast full_context_def)
  then have t: "server_inv ?t" using i by (simp add: server_inv_def)
  have "(p, r) \<in> set (sv_rooms s)" using c(3) by (simp add: GetPlayerRoom_Some map_of_SomeD)
  then have "id_need s + int (length (room_players r)) < 2 ^ 63" using left by (auto simp: ids_left_ok_def)
  moreover have "length ?others \<le> length (room_players r)"
    using length_filter_le [of _ "Room_PlayerIds r"] by (simp add: Room_PlayerIds_def del: length_filter_le)
  moreover have "id_need ?t = id_need s" by (simp add: id_need_def)
  ultimately have w: "server_inv (RoomManager_HandleLeaveWaiting env ses (p, r) s)"
    using HandleLeaveWaiting_eq [of env ses p r s] full requeue_keeps [OF full t, of ?others]
    by (simp add: full_context_def)
  have "rooms_inv full_context (on_loop (on_game_room (room_id r) (GameRoom_EliminatePlayer (player_of ses s))) s)"
    by (rule rooms_inv_on_game_room [OF ri]) (simp add: game_room_keys)
  then have "server_inv (RoomManager_HandleLeavePlaying env ses (p, r) s)"
    using i by (simp add: RoomManager_HandleLeavePlaying_def Let_def server_inv_def rooms_inv_broadcast rooms_inv_send)
  then show ?thesis using w i c by (simp add: RoomManager_HandleLeaveRoom_def)
qed

lemma queue_kept:
  "sv_queue (RoomManager_HandleReady env session rdy s) = sv_queue s"
  "sv_queue (RoomManager_HandleInput env now session input s) = sv_queue s"
  "sv_queue (LoginService_HandleReconnect env session rq s) = sv_queue s"
  "sv_queue (LoginService_HandleHeartbeat h r session s) = sv_queue s"
  "LoginService_HandleLogin env t h session request s = (e, s') \<Longrightarrow> sv_queue s' = sv_queue s"
proof -
  have "sv_queue (RoomManager_StartGameRoom env ptr u) = sv_queue u" for ptr u
    using StartGameRoom_simps(4) by (simp add: RoomManager_StartGameRoom_def Let_def fold_frame split: option.splits)
  then show "sv_queue (RoomManager_HandleReady env session rdy s) = sv_queue s"
    by (auto simp: RoomManager_HandleReady_def Let_def on_room_def split: option.splits prod.splits)
  show "sv_queue (RoomManager_HandleInput env now session input s) = sv_queue s"
    by (simp add: RoomManager_HandleInput_def Let_def split: option.splits)
  show "sv_queue (LoginService_HandleReconnect env session rq s) = sv_queue s"
    by (simp add: LoginService_HandleReconnect_def Let_def split_beta split: option.splits)
  show "sv_queue (LoginService_HandleHeartbeat h r session s) = sv_queue s"
    by (simp add: LoginService_HandleHeartbeat_def split: option.splits)
  have goc: "sv_queue (snd (LoginService_GetOrCreatePlayerId env account s)) = sv_queue s" for account
    using GetOrCreate_frame(5) [of env account s] by (metis prod.collapse)
  have ld: "sv_queue (snd (load_player env pid u)) = sv_queue u" for pid u by (simp add: load_player_def split_beta)
  show "LoginService_HandleLogin env t h session request s = (e, s') \<Longrightarrow> sv_queue s' = sv_queue s"
    by (auto simp: LoginService_HandleLogin_def split_beta goc ld split: option.splits sum.splits)
qed

text \<open>One dispatched request: it completes or ends with an exception, and either way the invariants hold; undefined
  behaviour is the third result.\<close>

lemma serve_inv:
  assumes full: "ctx env = full_context" and i: "server_inv s" and left: "ids_left_ok s"
    and r: "serve env ps m clock ses b s = Completed s' \<or> serve env ps m clock ses b s = Threw e s'"
  shows "server_inv s' \<and> sessions_kept s s'"
proof -
  have "serve env ps m clock ses b s = serve env ps m clock ses b s" ..
  then show ?thesis
proof (cases rule: serve_cases)
  case (rank page)
  then obtain n r where "s' = s\<lparr>sv_net := n, sv_redis := r\<rparr>" "rank_request env (Some ses) page s = Completed s'"
    using r by (auto simp: rank_request_def split: option.splits)
  moreover from this have "server_inv s'" using i rooms_inv_ids [of s' s full_context] by (simp add: server_inv_def)
  ultimately show ?thesis using sessions_kept_others(3) by blast
next
  case (login rq)
  obtain x where l: "LoginService_HandleLogin env (fst clock) (snd clock) (Some ses) rq s = (x, s')"
    using r login by (auto simp: with_exception_def split: prod.splits option.splits)
  have "rooms_inv full_context s'"
    using rooms_inv_HandleLogin [of env s "fst clock" "snd clock" "Some ses" rq] i full l by (simp add: server_inv_def)
  then show ?thesis using i queue_kept(5) [OF l] sessions_kept_login [OF l] by (simp add: server_inv_def)
next
  case (other f)
  then have s': "s' = f s" using r by simp
  have ri: "rooms_inv (ctx env) s" using i full by (simp add: server_inv_def)
  have id1: "id_need s + 1 < 2 ^ 63" using left by (simp add: ids_left_ok_def)
  have gl: "game_loop_set (ctx env)" by (simp add: full full_context_def)
  have "server_inv (LoginService_HandleHeartbeat x y (Some ses) s)" for x y
    using rooms_inv_HandleHeartbeat [OF ri] i full by (simp add: server_inv_def queue_kept)
  moreover have "server_inv (LoginService_HandleReconnect env (Some ses) x s)" for x
    using rooms_inv_HandleReconnect [OF ri] i full by (simp add: server_inv_def queue_kept)
  moreover have "server_inv (MatchService_HandleMatch env (Some ses) x s)" for x
    by (rule server_inv_match [OF HandleMatch_keeps [OF ri id1] full i])
  moreover have "server_inv (MatchService_HandleCancelMatch env (Some ses) x s)" for x
    using HandleCancelMatch_keeps [OF ri] i full by (simp add: server_inv_def)
  moreover have "server_inv (RoomManager_HandleReady env (Some ses) x s)" for x
    using rooms_inv_HandleReady [OF ri gl] i full by (simp add: server_inv_def queue_kept)
  moreover have "server_inv (RoomManager_HandleInput env y (Some ses) x s)" for x y
    using rooms_inv_HandleInput [OF ri] i full by (simp add: server_inv_def queue_kept)
  moreover have "server_inv (RoomManager_HandleLeaveRoom env (Some ses) x s)" for x
    by (rule server_inv_LeaveRoom [OF full i left])
  ultimately have "server_inv s'" using other(2) i unfolding s' by auto
  moreover have "sessions_kept s s'"
    using other(2) unfolding s' by (auto simp: sessions_kept_others sessions_kept_match sessions_kept_rooms_handlers)
  ultimately show ?thesis ..
qed
qed

lemma closed_inv:
  assumes i: "server_inv s"
  shows "server_inv (connection_closed ses s)"
proof -
  have ri: "rooms_inv full_context s" using i by (simp add: server_inv_def)
  let ?s0 = "on_net (ConnectionManager_Remove (Session_SessionId ses (sv_net s))) s"
  have "rooms_inv full_context (on_room rid (Room_OnPlayerDisconnect pid) t)"
    if "RoomManager_GetRoom rid t = Some r" "rooms_inv full_context t" for rid pid r and t :: "('a, 'b, 'c) server"
    by (rule rooms_inv_on_room [OF that(2)])
      (use that(1) in \<open>simp_all add: RoomManager_GetRoom_def Room_OnPlayerDisconnect_def same_room_def active_def\<close>)
  then have "rooms_inv full_context (session_closed (Some ses) ?s0)"
    using ri by (auto simp: session_closed_def Let_def split: option.splits)
  moreover have "sv_queue (session_closed (Some ses) ?s0) = sv_queue s"
    by (simp add: session_closed_def Let_def on_room_def split: option.splits)
  ultimately show ?thesis using i by (simp add: connection_closed_def server_inv_def)
qed

lemma closed_sessions:
  assumes i: "sessions_inv (a, s)"
  shows "sessions_inv (a, connection_closed ses s)"
proof -
  let ?s' = "connection_closed ses s"
  have n: "sv_net ?s' = ConnectionManager_Remove (Session_SessionId ses (sv_net s)) (sv_net s)"
    by (simp add: connection_closed_def session_closed_net)
  have ids: "sv_ids ?s' = sv_ids s"
    by (simp add: connection_closed_def session_closed_def Let_def on_room_def split: option.splits)
  have "sessions (sv_net ?s') = um_erase (Session_SessionId ses (sv_net s)) (sessions (sv_net s))"
      "heap (sv_net ?s') = heap (sv_net s)"
    unfolding n by (simp_all add: ConnectionManager_Remove_def Let_def split: option.splits)
  then show ?thesis using i ids by (simp add: sessions_inv_def Let_def)
qed

subsection \<open>A round of the game loop\<close>

lemma um_erase_modify: "um_erase k (um_modify k f m) = um_erase k m"
  by (induction m) auto

text \<open>Closing a room just before it is removed makes no difference to what is left.\<close>

lemma finish_room_inv:
  assumes "rooms_inv full_context s"
  shows "rooms_inv full_context (finish_room full_context rid w ls s)"
proof -
  let ?s2 = "broadcast rid MSG_GAME_OVER_NOTIFY (GameOverNotify rid w ls) (s\<lparr>pending_settlements := um_erase rid (pending_settlements s)\<rparr>)"
  have "rooms_inv full_context ?s2" using assms rooms_inv_ids [of ?s2 s] by simp
  moreover have "RoomManager_RemoveRoom full_context rid (on_room rid Room_Close ?s2) = RoomManager_RemoveRoom full_context rid ?s2"
  proof -
    have ids: "Room_PlayerIds (Room_Close r) = Room_PlayerIds r" for r by (simp add: Room_PlayerIds_def Room_Close_def)
    show ?thesis
      by (cases "um_find (sv_rooms ?s2) rid") (simp_all add: RoomManager_RemoveRoom_def on_room_def um_erase_modify ids Let_def)
  qed
  ultimately show ?thesis by (simp add: finish_room_def Let_def rooms_inv_RemoveRoom full_context_def)
qed

lemma tick_callback_inv:
  assumes full: "ctx env = full_context" and i: "server_inv s" and t: "tick_callback env now rid st over w s = (x, s')"
  shows "server_inv s' \<and> sessions_kept s s'"
proof (cases "RoomManager_GetRoom rid s")
  case None
  then show ?thesis using t i by (simp add: tick_callback_def)
next
  case (Some r)
  let ?s1 = "broadcast rid MSG_GAME_STATE_NOTIFY (GameStateMsg (StateSync_BuildNotify rid st)) s"
  obtain pend s2 where b: "begin_settlement rid ?s1 = (pend, s2)" by fastforce
  have ri: "rooms_inv full_context ?s1" using i by (simp add: server_inv_def rooms_inv_broadcast)
  have "rooms_inv full_context (on_room rid Room_SetSettlement ?s1)"
    by (rule rooms_inv_on_room [OF ri, of rid r])
      (use Some in \<open>simp_all add: RoomManager_GetRoom_def Room_SetSettlement_def same_room_def active_def\<close>)
  moreover have s2: "s2 = (on_room rid Room_SetSettlement ?s1)\<lparr>pending_settlements := um_put rid pend (pending_settlements ?s1)\<rparr>"
    using b by (auto simp: begin_settlement_def Let_def on_room_def)
  ultimately have ri2: "rooms_inv full_context s2"
    using rooms_inv_ids [of s2 "on_room rid Room_SetSettlement ?s1"] by simp
  have fr: "sv_queue s2 = sv_queue s" "sessions_kept s s2" unfolding s2 by (simp_all add: on_room_def)
  have "server_inv s' \<and> sessions_kept s s'" if a: "try_settlement env now rid w ls pend s2 = (x, s')" for ls
  proof -
    obtain res bid m rr where at: "settle_attempt (mysql_of env) (redis_of env) rid w ls
        (pend_battle_id pend, sv_mysql s2, sv_redis s2) = (res, bid, m, rr)" by (metis surj_pair)
    let ?s3 = "s2\<lparr>sv_mysql := m, sv_redis := rr, pending_settlements :=
      um_put rid \<lparr>pend_battle_id = bid, pend_next_attempt = now + milliseconds 1000\<rparr> (pending_settlements s2)\<rparr>"
    have s': "s' = ?s3 \<or> s' = finish_room full_context rid w ls ?s3"
      using a at full by (auto simp: try_settlement_def Let_def split: sum.splits if_splits)
    have ri3: "rooms_inv full_context ?s3" using ri2 rooms_inv_ids [of ?s3 s2] by simp
    have k3: "sessions_kept s ?s3" using fr(2) by simp
    have "sessions_kept s (finish_room full_context rid w ls ?s3)"
      unfolding finish_room_def Let_def by (rule sessions_kept_trans [OF _ sessions_kept_RemoveRoom]) (use k3 in simp)
    moreover have "sv_queue (finish_room full_context rid w ls ?s3) = sv_queue s"
      using fr(1) by (simp add: finish_room_def Let_def on_room_def)
    ultimately show ?thesis using s' ri3 k3 fr(1) i finish_room_inv [OF ri3] by (auto simp: server_inv_def)
  qed
  moreover have "server_inv ?s1 \<and> sessions_kept s ?s1" "server_inv s2 \<and> sessions_kept s s2"
    using ri ri2 fr i by (simp_all add: server_inv_def)
  moreover have "(x, s') = (if \<not> over then (None, ?s1) else if now < pend_next_attempt pend then (None, s2)
      else try_settlement env now rid w (losers_of w st) pend s2)"
    using t Some b by (cases over) (simp_all add: tick_callback_def)
  ultimately show ?thesis by (auto split: if_splits)
qed

lemma server_round_inv:
  assumes full: "ctx env = full_context" and i: "server_inv s" and r: "server_round env clock s = (x, s')"
  shows "server_inv s' \<and> sessions_kept s s'"
proof -
  define I where "I = (\<lambda>y :: ('a, 'b, 'c) loop_state. server_inv (snd y) \<and> sessions_kept s (snd y))"
  have tick: "I (on_loop_alive (on_game_room rid (\<lambda>_. GameRoom_Tick F g)) y)"
    if "I y" "GameLoop_GetRoom rid ((sv_loop \<circ> snd) y) = Some g" for y rid g F
  proof (cases y)
    case (Pair e t)
    have "rooms_inv full_context (on_loop (on_game_room rid (\<lambda>_. GameRoom_Tick F g)) t)"
      if "GameLoop_GetRoom rid (sv_loop t) = Some g" "rooms_inv full_context t"
      by (rule rooms_inv_on_game_room [OF that(2)]) (use that(1) in \<open>simp add: game_room_keys\<close>)
    then show ?thesis using that Pair by (auto simp: I_def on_loop_alive_def server_inv_def split: option.splits)
  qed
  have cb: "I (cb rid st go w y)" if "Some (callback_alive env clock) = Some cb" "I y" for cb y rid st go w
  proof (cases y)
    case (Pair e t)
    obtain z t' where t': "tick_callback env (clock rid) rid st go w t = (z, t')" by fastforce
    then have "server_inv t \<Longrightarrow> server_inv t' \<and> sessions_kept t t'" using tick_callback_inv [OF full] by blast
    then show ?thesis using that Pair t' sessions_kept_trans
      by (auto simp: I_def callback_alive_def split: option.splits)
  qed
  have rounds: "I y \<Longrightarrow> I (loop_rooms (sv_loop \<circ> snd) on_loop_alive F (Some (callback_alive env clock)) rids y)" for F rids y
    by (rule loop_rooms_invariant [where I = I]) (rule tick, assumption+, rule cb)
  have "I (None, s)" using i by (simp add: I_def)
  then have "I (server_round env clock s)"
    unfolding server_round_def loop_round_def using rounds by (simp only: if_split simp_thms)
  then show ?thesis using r by (simp add: I_def)
qed

subsection \<open>Runs of the server\<close>

text \<open>A step of the running server.  A handler that ends with an exception: \<open>TcpConnection::DoRead\<close> catches it and
  closes the connection.  An exception in a round of the loop ends the process, so it is no step, and
  neither is undefined behaviour.\<close>

inductive server_step ::
    "('f, 'd, 'r) env \<Rightarrow> 'f parsers \<Rightarrow> ('f, 'd, 'r) listening \<Rightarrow> ('f, 'd, 'r) listening \<Rightarrow> bool" for env ps where
  Accept: "next_session_id (sv_ids s) < 2 ^ 63 - 1 \<Longrightarrow> server_step env ps (a, s) (on_accept ok now (a, s))"
| Packet: "ids_left_ok s \<Longrightarrow> Dispatch (server_dispatcher env ps) clock (Some ses) p s = Completed s' \<Longrightarrow>
    server_step env ps (a, s) (a, s')"
| Packet_threw: "ids_left_ok s \<Longrightarrow> Dispatch (server_dispatcher env ps) clock (Some ses) p s = Threw e s' \<Longrightarrow>
    server_step env ps (a, s) (a, on_net (Session_Close ses) s')"
| Closed: "server_step env ps (a, s) (a, connection_closed ses s)"
| Heartbeat: "server_step env ps (a, s) (a, heartbeat_scan now s)"
| Round: "server_round env clock s = (None, s') \<Longrightarrow> server_step env ps (a, s) (a, s')"

inductive server_reach ::
    "('f, 'd, 'r) env \<Rightarrow> 'f parsers \<Rightarrow> ('f, 'd, 'r) listening \<Rightarrow> ('f, 'd, 'r) listening \<Rightarrow> bool" for env ps x where
  Start: "server_reach env ps x x"
| Step: "server_reach env ps x y \<Longrightarrow> server_step env ps y z \<Longrightarrow> server_reach env ps x z"

inductive_cases server_stepE: "server_step env ps x y"

lemma Dispatch_inv:
  assumes "ctx env = full_context" and "server_inv s" and "ids_left_ok s"
    and "Dispatch (server_dispatcher env ps) clock (Some ses) p s = Completed s' \<or>
         Dispatch (server_dispatcher env ps) clock (Some ses) p s = Threw e s'"
  shows "server_inv s' \<and> sessions_kept s s'"
proof (cases "request_of (msg_id p)")
  case None
  then show ?thesis using assms(2,4) by (simp add: Dispatch_request)
next
  case (Some m)
  show ?thesis
    by (rule serve_inv [OF assms(1-3), of ps m clock ses "body p" s' e]) (use assms(4) Some in \<open>simp add: Dispatch_request\<close>)
qed

lemma on_accept_frame:
  "next_room_id (sv_ids (snd (on_accept ok now (a, s)))) = next_room_id (sv_ids s)"
  "sv_rooms (snd (on_accept ok now (a, s))) = sv_rooms s"
  "player_room_map (snd (on_accept ok now (a, s))) = player_room_map s"
  "sv_loop (snd (on_accept ok now (a, s))) = sv_loop s" "sv_queue (snd (on_accept ok now (a, s))) = sv_queue s"
  by (simp_all add: on_accept_def DoAccept_def NextSessionId_def Let_def split: option.splits)

lemma server_step_inv:
  assumes full: "ctx env = full_context" and st: "server_step env ps x y"
  shows "server_inv (snd x) \<and> sessions_inv x \<Longrightarrow> server_inv (snd y) \<and> sessions_inv y"
  using st
proof (induction rule: server_step.induct)
  case (Accept s a ok now)
  have "server_inv (snd (on_accept ok now (a, s)))"
    using Accept by (simp add: server_inv_def on_accept_frame(5) rooms_inv_ids [OF on_accept_frame(1-4)])
  then show ?case using Accept by (simp add: sessions_inv_on_accept)
next
  case (Packet s clock ses p s' a)
  have "server_inv s' \<and> sessions_kept s s'"
    by (rule Dispatch_inv [OF full _ Packet(1) disjI1 [OF Packet(2)]]) (use Packet(3) in simp)
  then show ?case using Packet(3) by (simp add: sessions_inv_kept [of s s'])
next
  case (Packet_threw s clock ses p e s' a)
  have "server_inv s' \<and> sessions_kept s s'"
    by (rule Dispatch_inv [OF full _ Packet_threw(1) disjI2 [OF Packet_threw(2)]]) (use Packet_threw(3) in simp)
  moreover from this have "sessions_kept s (on_net (Session_Close ses) s')" by (simp add: sessions_kept_def)
  ultimately show ?case using Packet_threw(3) by (simp add: server_inv_def sessions_inv_kept [of s])
next
  case (Closed a s ses)
  then show ?case by (simp add: closed_inv closed_sessions)
next
  case (Heartbeat a s now)
  then show ?case
    by (simp add: sessions_inv_kept [OF sessions_kept_others(4)]) (simp add: heartbeat_scan_closes_late server_inv_def)
next
  case (Round clock s s' a)
  then have "server_inv s' \<and> sessions_kept s s'" using server_round_inv [OF full _ Round(1)] by simp
  then show ?case using Round(2) by (simp add: sessions_inv_kept [of s s'])
qed

lemma server_reach_inv:
  "server_reach env ps x y \<Longrightarrow> ctx env = full_context \<Longrightarrow> server_inv (snd x) \<and> sessions_inv x \<Longrightarrow> server_inv (snd y) \<and> sessions_inv y"
  by (induction rule: server_reach.induct) (use server_step_inv in blast)+

text \<open>What \<open>GameServer::Start\<close> leaves once the server listens.\<close>

definition listening_server :: "i32 \<Rightarrow> ('f, 'd, 'r) server \<Rightarrow> ('f, 'd, 'r) listening" where
  "listening_server threads s =
     snd (snd (TcpServer_Start True True True True
       (TcpServer_new threads, s\<lparr>sv_loop := snd (GameLoop_Start (sv_loop s))\<rparr>)))"

lemma listening_inv:
  "server_inv (snd (listening_server threads (empty_server cfg m r))) \<and> sessions_inv (listening_server threads (empty_server cfg m r))"
  by (simp add: listening_server_def TcpServer_Start_def TcpServer_new_def DoAccept_def NextSessionId_def empty_server_def
      id_counters_init_def server_inv_def rooms_inv_def mq_inv_def MatchQueue_empty_def sessions_inv_def Let_def
      GameLoop_GetRoom_def GameLoop_new_def GameLoop_Start_def in_i64_def)

subsection \<open>The main program\<close>

text \<open>
  \<open>src/src/main.cpp\<close>.  How \<open>main\<close> ends, and the server that listened on the way there: \<open>Start\<close> returns
  when the TCP server is stopped, or at once when the address cannot be used, which \<open>Start\<close> does not
  look at.  An exception of \<open>Load\<close> leaves \<open>main\<close>.
\<close>

datatype ('f, 'd, 'r) main_result =
    Main_threw cpp_exception
  | Main_returns i32 "(('f, 'd, 'r) env \<times> ('f, 'd, 'r) listening) option"

definition server_main ::
    "'f float_ops \<Rightarrow> 'd mysql_api \<Rightarrow> 'r hiredis \<Rightarrow> 'f parsers \<Rightarrow> string list option \<Rightarrow> nanos \<Rightarrow> 'd \<Rightarrow> 'r
       \<Rightarrow> bool \<Rightarrow> bool \<Rightarrow> bool \<Rightarrow> bool \<Rightarrow> ('f, 'd, 'r) main_result" where
  "server_main F api rapi ps file now wm wr address_ok open_ok bind_ok listen_ok =
     (case ConfigManager_Load file config_default of
        (Inl e, _) \<Rightarrow> Main_threw e
      | (Inr _, cfg) \<Rightarrow>
          (case GameServer_Init F api rapi ps cfg now wm wr of
             None \<Rightarrow> Main_returns 1 None
           | Some (env, s0, d, tm) \<Rightarrow>
               let (_, s1, tm1) = GameServer_Start (s0, tm);
                   (served, _, x) = TcpServer_Start address_ok open_ok bind_ok listen_ok (TcpServer_new (worker_threads cfg), s1)
               in Main_returns 0 (if served then Some (env, x) else None)))"

text \<open>The server that \<open>main\<close> runs is the one the properties below are about.\<close>

lemma server_main_listens:
  assumes "server_main F api rapi ps file now wm wr a o' b l = Main_returns code (Some (env, x))"
  shows "code = 0 \<and> (\<exists>cfg s0 d tm. snd (ConfigManager_Load file config_default) = cfg \<and>
    GameServer_Init F api rapi ps cfg now wm wr = Some (env, s0, d, tm) \<and> x = listening_server (worker_threads cfg) s0)"
  using assms
  by (auto simp: server_main_def GameServer_Start_def TcpServer_Start_def listening_server_def Let_def split_beta
      split: prod.splits sum.splits option.splits if_splits)

text \<open>A server that cannot listen ends as if it had been stopped.\<close>

lemma server_main_bind_failure:
  assumes "ConfigManager_Load file config_default = (Inr loaded, cfg)"
    and "GameServer_Init F api rapi ps cfg now wm wr = Some r"
  shows "server_main F api rapi ps file now wm wr True True False True = Main_returns 0 None"
  using assms by (simp add: server_main_def TcpServer_Start_def Let_def split_beta)

subsection \<open>The tables agree\<close>

text \<open>C3. The tables of a running server agree with each other in every state it can reach, from a successful \<open>Init\<close> on
  and over any sequence of accepted and closed connections, requests, heartbeat scans and rounds of
  the loop.  A player that the room manager knows is in a room that exists; the game loop runs a
  battle exactly for the rooms that are playing or being settled, with the players of the room; the
  match queue holds nobody twice; every entry of the session table is the session with that id, so no
  two entries share a session.\<close>

theorem server_tables_consistent:
  assumes init: "GameServer_Init F api rapi ps cfg now wm wr = Some (env, s0, d, tm)"
    and r: "server_reach env ps (listening_server threads s0) (a, s)"
  shows "(\<forall>pid rid. um_find (player_room_map s) pid = Some rid \<longrightarrow>
       (\<exists>r. RoomManager_GetRoom rid s = Some r \<and> room_id r = rid \<and> pid \<in> set (Room_PlayerIds r))) \<and>
    (\<forall>rid. (\<exists>r. RoomManager_GetRoom rid s = Some r \<and> room_state r \<in> {Playing, Settlement}) \<longleftrightarrow>
       GameLoop_GetRoom rid (sv_loop s) \<noteq> None) \<and>
    (\<forall>rid g r. GameLoop_GetRoom rid (sv_loop s) = Some g \<longrightarrow> RoomManager_GetRoom rid s = Some r \<longrightarrow>
       set (um_keys (gr_players g)) = set (Room_PlayerIds r)) \<and>
    distinct (queue (sv_queue s)) \<and> in_queue (sv_queue s) = set (queue (sv_queue s)) \<and>
    (\<forall>sid p. um_find (sessions (sv_net s)) sid = Some p \<longrightarrow> Session_SessionId p (sv_net s) = sid)"
proof -
  obtain m rd where s0: "s0 = empty_server cfg m rd" "ctx env = full_context"
    using init by (auto simp: GameServer_Init_def Let_def split: prod.splits if_splits)
  have "server_inv s \<and> sessions_inv (a, s)"
    using server_reach_inv [OF r s0(2)] listening_inv [of threads cfg m rd] by (simp add: s0(1))
  then have ri: "rooms_inv full_context s" and q: "mq_inv (sv_queue s)" and si: "sessions_inv (a, s)"
    by (simp_all add: server_inv_def)
  note d = rooms_invD [OF ri]
  have "\<exists>r. RoomManager_GetRoom rid s = Some r \<and> room_id r = rid \<and> pid \<in> set (Room_PlayerIds r)"
    if known: "um_find (player_room_map s) pid = Some rid" for pid rid
  proof -
    obtain r where r: "um_find (sv_rooms s) rid = Some r" "pid \<in> fst ` set (room_players r)" using d(3) [OF known] by blast
    then show ?thesis using d(2) [OF r(1)] by (simp add: RoomManager_GetRoom_def Room_PlayerIds_def room_ok_def)
  qed
  moreover have "(\<exists>r. RoomManager_GetRoom rid s = Some r \<and> room_state r \<in> {Playing, Settlement}) \<longleftrightarrow>
       GameLoop_GetRoom rid (sv_loop s) \<noteq> None" for rid
    using d(2,4) [of rid] by (auto simp: RoomManager_GetRoom_def room_ok_def battle_ok_def)
  moreover have "set (um_keys (gr_players g)) = set (Room_PlayerIds r)"
    if "GameLoop_GetRoom rid (sv_loop s) = Some g" "RoomManager_GetRoom rid s = Some r" for rid g r
    using d(4) [OF that(1)] that(2) by (simp add: battle_ok_def RoomManager_GetRoom_def Room_PlayerIds_def)
  moreover have "Session_SessionId p (sv_net s) = sid" if "um_find (sessions (sv_net s)) sid = Some p" for sid p
    using sessions_invD(1) [OF si that] by simp
  moreover have "distinct (queue (sv_queue s)) \<and> in_queue (sv_queue s) = set (queue (sv_queue s))"
    using q by (simp add: mq_inv_def)
  ultimately show ?thesis by simp
qed

text \<open>A server over the simulated databases, one accepted connection and one round of the loop.\<close>

theorem server_tables_consistent_witness:
  "\<forall>ps. \<exists>env s0 d tm a s. GameServer_Init rat_nan (sim_api True) sim_redis ps config_default 0 (sim0 []) (\<lambda>key. [])
       = Some (env, s0, d, tm) \<and>
     server_reach env ps (listening_server 4 s0) (a, s) \<and> distinct (queue (sv_queue s)) \<and>
     um_find (sessions (sv_net s)) 1 = Some 0 \<and> Session_SessionId 0 (sv_net s) = 1"
proof
  fix ps
  obtain env s0 d tm where init: "GameServer_Init rat_nan (sim_api True) sim_redis ps config_default 0 (sim0 []) (\<lambda>key. [])
       = Some (env, s0, d, tm)"
    by (simp add: GameServer_Init_def MysqlClient_Connect_def new_mysql_def MysqlClient_Disconnect_def sim_api_def sim_fault_def
        sim0_def RedisClient_Connect_def RedisClient_Disconnect_def new_redis_def sim_redis_def Let_def split_beta)
  let ?x = "listening_server 4 s0" and ?y = "on_accept True 9 (listening_server 4 s0)"
  obtain m rd where s0: "s0 = empty_server config_default m rd"
    using init by (auto simp: GameServer_Init_def Let_def split: prod.splits if_splits)
  have x: "next_session_id (sv_ids (snd ?x)) = 2" "ac_pending (fst ?x) = Some 1" "ac_next_ptr (fst ?x) = 0"
      "sessions (sv_net (snd ?x)) = []"
    by (simp_all add: listening_server_def TcpServer_Start_def TcpServer_new_def DoAccept_def NextSessionId_def s0
        empty_server_def id_counters_init_def Let_def in_i64_def)
  have "server_step env ps ?x ?y"
    using server_step.Accept [of "snd ?x" env ps "fst ?x" True 9] x(1) by simp
  then have r: "server_reach env ps ?x (fst ?y, snd ?y)" using server_reach.Step [OF server_reach.Start] by simp
  have y: "um_find (sessions (sv_net (snd ?y))) 1 = Some 0"
    using x by (cases ?x) (simp add: on_accept_def DoAccept_def NextSessionId_def Let_def ConnectionManager_Add_def Session_new_def)
  note c = server_tables_consistent [OF init r]
  have "distinct (queue (sv_queue (snd ?y)))" using c by blast
  moreover have "Session_SessionId 0 (sv_net (snd ?y)) = 1" using c y by blast
  ultimately show "\<exists>env s0 d tm a s. GameServer_Init rat_nan (sim_api True) sim_redis ps config_default 0 (sim0 []) (\<lambda>key. [])
       = Some (env, s0, d, tm) \<and>
     server_reach env ps (listening_server 4 s0) (a, s) \<and> distinct (queue (sv_queue s)) \<and>
     um_find (sessions (sv_net s)) 1 = Some 0 \<and> Session_SessionId 0 (sv_net s) = 1"
    using init r y by blast
qed

end
