(* ===== verification/Bot_Client.thy ===== *)
theory Bot_Client
  imports Net Cpp_Strings "HOL-Library.Sublist"
begin

text \<open>
  The load generator: one simulated client, \<open>src/bot/bot_client.h\<close> and \<open>bot_client.cpp\<close>.  A client has
  one thread that runs the handlers of its \<open>io_context\<close> one at a time.  What the \<open>io_context\<close> still
  has to run is part of the state: the posted functions in their order (\<open>bc_posts\<close>), the timers that
  have not expired (\<open>bc_timers\<close>, a delay and a callback each), and the connects, reads and writes in
  flight with the socket they were started on.  The lambdas of the source are the constructors of
  \<open>callback\<close>.

  A socket object is a number, a \<open>shared_ptr\<close> to it is that number, \<open>None\<close> is the null pointer.
  What protobuf generates (serialising a request, parsing an answer) and the random numbers are the
  record \<open>bot_env\<close>, a parameter; the \<open>k\<close>-th call of \<open>RandomUtil::Int\<close> with the bounds \<open>lo\<close> and \<open>hi\<close>
  returns \<open>rng_int env k lo hi\<close>, and \<open>bc_draws\<close> records the bounds of every call.  The results of
  Asio and of the clock are arguments.  \<open>bc_built\<close> records the packets given to \<open>SendPacket\<close> and
  \<open>bc_wire\<close> the frames written, with their sockets.  A trace line on standard output is not modelled.
\<close>

subsection \<open>Options, counters and requests\<close>

record BotOptions =
  cancel_match_percent :: i32
  queue_disconnect_percent :: i32
  room_disconnect_percent :: i32
  playing_disconnect_percent :: i32
  ready_toggle_percent :: i32
  max_reconnects :: i32
  reconnect_delay_ms :: i32
  rematch_delay_ms :: i32
  action_jitter_ms :: i32
  heartbeat_interval_ms :: i32
  input_interval_ms :: i32
  verbose :: bool

definition BotOptions_default :: BotOptions where
  "BotOptions_default = \<lparr>cancel_match_percent = 10, queue_disconnect_percent = 5, room_disconnect_percent = 5,
     playing_disconnect_percent = 5, ready_toggle_percent = 10, max_reconnects = 2, reconnect_delay_ms = 500,
     rematch_delay_ms = 500, action_jitter_ms = 800, heartbeat_interval_ms = 5000, input_interval_ms = 50,
     verbose = False\<rparr>"

text \<open>The counters are atomic: \<open>++\<close> wraps around.\<close>

record BotStats =
  connect_ok :: i64
  connect_failed :: i64
  disconnects :: i64
  login_ok :: i64
  login_failed :: i64
  reconnect_ok :: i64
  reconnect_failed :: i64
  match_ok :: i64
  match_failed :: i64
  match_cancel :: i64
  match_success :: i64
  stat_ready :: i64
  stat_unready :: i64
  room_playing :: i64
  input_sent :: i64
  stat_game_state :: i64
  stat_game_over :: i64

definition BotStats_new :: BotStats where
  "BotStats_new = \<lparr>connect_ok = 0, connect_failed = 0, disconnects = 0, login_ok = 0, login_failed = 0,
     reconnect_ok = 0, reconnect_failed = 0, match_ok = 0, match_failed = 0, match_cancel = 0, match_success = 0,
     stat_ready = 0, stat_unready = 0, room_playing = 0, input_sent = 0, stat_game_state = 0, stat_game_over = 0\<rparr>"

datatype 'f bot_request =
    LoginRequest string string
  | ReconnectRequest i64 string
  | HeartbeatRequest i64
  | MatchRequest i64
  | MatchCancelRequest i64
  | ReadyRequest bool
  | InputRequest i64 i64 'f 'f bool

text \<open>The parsers return the fields that the client reads.\<close>

record 'f bot_env =
  serialize :: "'f bot_request \<Rightarrow> byte list"
  login_resp :: "byte list \<Rightarrow> (i32 \<times> i64 \<times> string) option"      \<comment> \<open>code, player id, session token\<close>
  reconnect_resp :: "byte list \<Rightarrow> (i32 \<times> i64) option"            \<comment> \<open>code, room id\<close>
  match_resp :: "byte list \<Rightarrow> i32 option"                           \<comment> \<open>code\<close>
  match_success_notify :: "byte list \<Rightarrow> i64 option"                 \<comment> \<open>room id\<close>
  room_state_notify :: "byte list \<Rightarrow> (i64 \<times> i32) option"         \<comment> \<open>room id, state\<close>
  rng_int :: "nat \<Rightarrow> int \<Rightarrow> int \<Rightarrow> int"
  rng_float :: "nat \<Rightarrow> 'f"                                           \<comment> \<open>the \<open>k\<close>-th \<open>Float(-1.0f, 1.0f)\<close>\<close>

subsection \<open>The client\<close>

datatype FlowState = Disconnected | Connecting | LoggedIn | Matching | InRoom | BotPlaying

datatype DisconnectPoint = AtQueue | AtRoom | AtPlaying

datatype callback =
    Do_Connect bool
  | Do_Heartbeat
  | Do_Match
  | Do_Rematch            \<comment> \<open>the lambda of \<open>CancelMatch\<close>\<close>
  | Do_CancelMatch
  | Do_SimulateDisconnect DisconnectPoint
  | Do_UnreadyThenReady   \<comment> \<open>the outer lambda of \<open>ScheduleReadyFlow\<close>\<close>
  | Do_Ready
  | Do_ReadyFlow          \<comment> \<open>the lambda of \<open>HandleMatchSuccess\<close>\<close>
  | Do_SendInput

datatype posted = Post_Send Packet | Post_Close

type_synonym sock = nat

record BotClient =
  bc_index :: i32
  bc_options :: BotOptions
  bc_stats :: "BotStats option"
  bc_running :: bool
  bc_stopped :: bool               \<comment> \<open>\<open>io_context_.stop()\<close> was called\<close>
  bc_socket :: "sock option"
  bc_next_sock :: sock
  bc_open :: "sock list"
  bc_connects :: "(sock \<times> bool) list"
  bc_reads :: "sock list"
  bc_writes :: "sock list"
  bc_posts :: "posted list"
  bc_timers :: "(int \<times> callback) list"
  bc_read_buffer :: Buffer
  bc_write_queue :: "byte list list"
  bc_state :: FlowState
  bc_connected :: bool
  heartbeat_started :: bool
  input_loop_active :: bool
  cancelled_this_round :: bool
  queue_disconnect_this_round :: bool
  room_disconnect_this_round :: bool
  playing_disconnect_this_round :: bool
  reconnect_count :: i32
  bc_seq :: u32
  bc_player_id :: i64
  bc_room_id :: i64
  bc_input_seq :: i64
  session_token :: string
  bc_draws :: "(int \<times> int) list"
  bc_floats :: nat
  bc_built :: "Packet list"
  bc_wire :: "(sock \<times> byte list) list"

definition BotClient_new :: "i32 \<Rightarrow> BotOptions \<Rightarrow> BotStats option \<Rightarrow> BotClient" where
  "BotClient_new index options stats = \<lparr>bc_index = index, bc_options = options, bc_stats = stats,
     bc_running = False, bc_stopped = False, bc_socket = None, bc_next_sock = 0, bc_open = [], bc_connects = [],
     bc_reads = [], bc_writes = [], bc_posts = [], bc_timers = [], bc_read_buffer = [], bc_write_queue = [],
     bc_state = Disconnected, bc_connected = False, heartbeat_started = False, input_loop_active = False,
     cancelled_this_round = False, queue_disconnect_this_round = False, room_disconnect_this_round = False,
     playing_disconnect_this_round = False, reconnect_count = 0, bc_seq = 0, bc_player_id = 0, bc_room_id = 0,
     bc_input_seq = 0, session_token = [], bc_draws = [], bc_floats = 0, bc_built = [], bc_wire = []\<rparr>"

definition count_stat :: "(BotStats \<Rightarrow> BotStats) \<Rightarrow> BotClient \<Rightarrow> BotClient" where
  "count_stat f b = b\<lparr>bc_stats := map_option f (bc_stats b)\<rparr>"

definition inc64 :: "i64 \<Rightarrow> i64" where
  "inc64 i = wrap64 (i + 1)"

subsection \<open>Random numbers and timers\<close>

definition RandomUtil_Int :: "'f bot_env \<Rightarrow> int \<Rightarrow> int \<Rightarrow> BotClient \<Rightarrow> int \<times> BotClient" where
  "RandomUtil_Int env lo hi b =
     (rng_int env (length (bc_draws b)) lo hi, b\<lparr>bc_draws := bc_draws b @ [(lo, hi)]\<rparr>)"

definition RandomUtil_Float :: "'f bot_env \<Rightarrow> BotClient \<Rightarrow> 'f \<times> BotClient" where
  "RandomUtil_Float env b = (rng_float env (bc_floats b), b\<lparr>bc_floats := Suc (bc_floats b)\<rparr>)"

definition JitterMs :: "'f bot_env \<Rightarrow> int \<Rightarrow> BotClient \<Rightarrow> int \<times> BotClient" where
  "JitterMs env base_ms b =
     (let jitter = max 0 (action_jitter_ms (bc_options b));
          (j, b) = RandomUtil_Int env 0 jitter b
      in (max 0 (base_ms + j), b))"

definition PercentHit :: "'f bot_env \<Rightarrow> int \<Rightarrow> BotClient \<Rightarrow> bool \<times> BotClient" where
  "PercentHit env percent b =
     (if percent \<le> 0 then (False, b)
      else if percent \<ge> 100 then (True, b)
      else let (k, b) = RandomUtil_Int env 1 100 b in (k \<le> percent, b))"

definition ScheduleTimer :: "int \<Rightarrow> callback \<Rightarrow> BotClient \<Rightarrow> BotClient" where
  "ScheduleTimer delay_ms cb b =
     (if \<not> bc_running b then b else b\<lparr>bc_timers := bc_timers b @ [(max 0 delay_ms, cb)]\<rparr>)"

text \<open>\<open>ScheduleTimer(JitterMs(base), cb)\<close> and \<open>ScheduleTimer(RandomUtil::Int(lo, JitterMs(base)), cb)\<close>.\<close>

definition schedule_jitter :: "'f bot_env \<Rightarrow> int \<Rightarrow> callback \<Rightarrow> BotClient \<Rightarrow> BotClient" where
  "schedule_jitter env base_ms cb b = (let (d, b) = JitterMs env base_ms b in ScheduleTimer d cb b)"

definition schedule_random :: "'f bot_env \<Rightarrow> int \<Rightarrow> int \<Rightarrow> callback \<Rightarrow> BotClient \<Rightarrow> BotClient" where
  "schedule_random env lo base_ms cb b =
     (let (hi, b) = JitterMs env base_ms b; (d, b) = RandomUtil_Int env lo hi b in ScheduleTimer d cb b)"

subsection \<open>Sending\<close>

definition SendPacket :: "Packet \<Rightarrow> BotClient \<Rightarrow> BotClient" where
  "SendPacket packet b0 =
     (let b = b0\<lparr>bc_built := bc_built b0 @ [packet]\<rparr> in
      if \<not> bc_running b then b else b\<lparr>bc_posts := bc_posts b @ [Post_Send packet]\<rparr>)"

text \<open>\<open>SendPacket(ProtoHelper::Build(mid, request, ++seq_))\<close>.\<close>

definition send_request :: "'f bot_env \<Rightarrow> MessageId \<Rightarrow> 'f bot_request \<Rightarrow> BotClient \<Rightarrow> BotClient" where
  "send_request env mid request b =
     SendPacket (Build (msg_value mid) (serialize env request) (bc_seq b + 1)) (b\<lparr>bc_seq := bc_seq b + 1\<rparr>)"

definition BotClient_DoWrite :: "sock option \<Rightarrow> BotClient \<Rightarrow> BotClient" where
  "BotClient_DoWrite socket b =
     (case socket of
        None \<Rightarrow> b
      | Some s \<Rightarrow> if socket \<noteq> bc_socket b \<or> bc_write_queue b = [] then b
                  else b\<lparr>bc_writes := bc_writes b @ [s]\<rparr>)"

text \<open>The lambda posted by \<open>SendPacket\<close>.  An exception of \<open>Encode\<close> would leave \<open>io_context::run\<close>.\<close>

definition run_send :: "Packet \<Rightarrow> BotClient \<Rightarrow> codec_error + BotClient" where
  "run_send packet b =
     (if \<not> bc_running b \<or> \<not> bc_connected b \<or> (case bc_socket b of None \<Rightarrow> True | Some s \<Rightarrow> s \<notin> set (bc_open b))
      then Inr b
      else let was_writing = (bc_write_queue b \<noteq> []) in
        case Encode packet of
          Inl e \<Rightarrow> Inl e
        | Inr bytes \<Rightarrow>
            let b = b\<lparr>bc_write_queue := bc_write_queue b @ [bytes]\<rparr>
            in Inr (if \<not> was_writing then BotClient_DoWrite (bc_socket b) b else b))"

definition BotClient_CloseSocket :: "BotClient \<Rightarrow> BotClient" where
  "BotClient_CloseSocket b =
     (let b1 = b\<lparr>bc_connected := False, input_loop_active := False, bc_write_queue := [], bc_socket := None\<rparr> in
      case bc_socket b of None \<Rightarrow> b1 | Some s \<Rightarrow> b1\<lparr>bc_open := removeAll s (bc_open b)\<rparr>)"

text \<open>The completion of \<open>async_write\<close> on a socket.\<close>

definition bot_on_written :: "bool \<Rightarrow> sock \<Rightarrow> BotClient \<Rightarrow> BotClient" where
  "bot_on_written ok s b =
     (if \<not> bc_running b \<or> Some s \<noteq> bc_socket b then b
      else if \<not> ok then BotClient_CloseSocket b
      else case bc_write_queue b of
        [] \<Rightarrow> b  \<comment> \<open>\<open>pop_front\<close> on an empty queue; never reached\<close>
      | bytes # rest \<Rightarrow>
          let b = b\<lparr>bc_write_queue := rest, bc_wire := bc_wire b @ [(s, bytes)]\<rparr>
          in if rest \<noteq> [] then BotClient_DoWrite (Some s) b else b)"

subsection \<open>Requests and their timers\<close>

definition BotClient_Login :: "'f bot_env \<Rightarrow> BotClient \<Rightarrow> BotClient" where
  "BotClient_Login env b =
     send_request env MSG_LOGIN_REQ (LoginRequest (''bot_'' @ to_string (bc_index b)) ''bot_token'') b"

definition BotClient_Reconnect :: "'f bot_env \<Rightarrow> BotClient \<Rightarrow> BotClient" where
  "BotClient_Reconnect env b =
     send_request env MSG_RECONNECT_REQ (ReconnectRequest (bc_player_id b) (session_token b)) b"

definition ScheduleHeartbeat :: "BotClient \<Rightarrow> BotClient" where
  "ScheduleHeartbeat b =
     (if heartbeat_started b \<or> heartbeat_interval_ms (bc_options b) \<le> 0 then b
      else ScheduleTimer (heartbeat_interval_ms (bc_options b)) Do_Heartbeat (b\<lparr>heartbeat_started := True\<rparr>))"

definition BotClient_Heartbeat :: "'f bot_env \<Rightarrow> i64 \<Rightarrow> BotClient \<Rightarrow> BotClient" where
  "BotClient_Heartbeat env now b =
     (if \<not> bc_running b then b
      else ScheduleTimer (heartbeat_interval_ms (bc_options b)) Do_Heartbeat
        (if bc_connected b then send_request env MSG_HEARTBEAT_REQ (HeartbeatRequest now) b else b))"

definition BotClient_Match :: "'f bot_env \<Rightarrow> BotClient \<Rightarrow> BotClient" where
  "BotClient_Match env b =
     (if \<not> bc_connected b \<or> bc_player_id b = 0 \<or> bc_room_id b \<noteq> 0 then b
      else send_request env MSG_MATCH_REQ (MatchRequest (bc_player_id b)) (b\<lparr>bc_state := Matching\<rparr>))"

definition BotClient_CancelMatch :: "'f bot_env \<Rightarrow> BotClient \<Rightarrow> BotClient" where
  "BotClient_CancelMatch env b =
     (if \<not> bc_connected b \<or> bc_state b \<noteq> Matching \<or> bc_room_id b \<noteq> 0 then b
      else let b = send_request env MSG_MATCH_CANCEL_REQ (MatchCancelRequest (bc_player_id b)) b;
               b = count_stat (match_cancel_update inc64) (b\<lparr>cancelled_this_round := True, bc_state := LoggedIn\<rparr>)
           in schedule_jitter env (rematch_delay_ms (bc_options b)) Do_Rematch b)"

definition ScheduleCancelMatch :: "'f bot_env \<Rightarrow> BotClient \<Rightarrow> BotClient" where
  "ScheduleCancelMatch env b = schedule_random env 50 250 Do_CancelMatch b"

definition round_flag :: "DisconnectPoint \<Rightarrow> BotClient \<Rightarrow> bool" where
  "round_flag point b = (case point of
      AtQueue \<Rightarrow> queue_disconnect_this_round b
    | AtRoom \<Rightarrow> room_disconnect_this_round b
    | AtPlaying \<Rightarrow> playing_disconnect_this_round b)"

definition set_round_flag :: "DisconnectPoint \<Rightarrow> BotClient \<Rightarrow> BotClient" where
  "set_round_flag point b = (case point of
      AtQueue \<Rightarrow> b\<lparr>queue_disconnect_this_round := True\<rparr>
    | AtRoom \<Rightarrow> b\<lparr>room_disconnect_this_round := True\<rparr>
    | AtPlaying \<Rightarrow> b\<lparr>playing_disconnect_this_round := True\<rparr>)"

definition disconnect_percent :: "DisconnectPoint \<Rightarrow> BotClient \<Rightarrow> int" where
  "disconnect_percent point b = (case point of
      AtQueue \<Rightarrow> queue_disconnect_percent (bc_options b)
    | AtRoom \<Rightarrow> room_disconnect_percent (bc_options b)
    | AtPlaying \<Rightarrow> playing_disconnect_percent (bc_options b))"

definition MaybeScheduleDisconnect :: "'f bot_env \<Rightarrow> DisconnectPoint \<Rightarrow> BotClient \<Rightarrow> bool \<times> BotClient" where
  "MaybeScheduleDisconnect env point b =
     (if reconnect_count b \<ge> max_reconnects (bc_options b) then (False, b)
      else if round_flag point b then (False, b)
      else let (hit, b) = PercentHit env (disconnect_percent point b) b in
        if \<not> hit then (False, b)
        else (True, schedule_random env 50 500 (Do_SimulateDisconnect point) (set_round_flag point b)))"

definition ScheduleReconnect :: "'f bot_env \<Rightarrow> BotClient \<Rightarrow> BotClient" where
  "ScheduleReconnect env b =
     (if \<not> bc_running b \<or> bc_player_id b = 0 \<or> session_token b = [] then b
      else schedule_jitter env (reconnect_delay_ms (bc_options b)) (Do_Connect True) b)"

definition SimulateDisconnect :: "'f bot_env \<Rightarrow> DisconnectPoint \<Rightarrow> BotClient \<Rightarrow> BotClient" where
  "SimulateDisconnect env point b =
     (if \<not> bc_running b \<or> \<not> bc_connected b \<or> reconnect_count b \<ge> max_reconnects (bc_options b) then b
      else ScheduleReconnect env (BotClient_CloseSocket
        (count_stat (disconnects_update inc64) (b\<lparr>reconnect_count := reconnect_count b + 1\<rparr>))))"

definition BotClient_Ready :: "'f bot_env \<Rightarrow> BotClient \<Rightarrow> BotClient" where
  "BotClient_Ready env b =
     (if \<not> bc_connected b \<or> bc_room_id b = 0 then b
      else count_stat (stat_ready_update inc64) (send_request env MSG_READY_REQ (ReadyRequest True) b))"

definition BotClient_Unready :: "'f bot_env \<Rightarrow> BotClient \<Rightarrow> BotClient" where
  "BotClient_Unready env b =
     (if \<not> bc_connected b \<or> bc_room_id b = 0 then b
      else count_stat (stat_unready_update inc64) (send_request env MSG_READY_REQ (ReadyRequest False) b))"

definition ScheduleReadyFlow :: "'f bot_env \<Rightarrow> BotClient \<Rightarrow> BotClient" where
  "ScheduleReadyFlow env b =
     (if bc_room_id b = 0 then b
      else let (toggle, b) = PercentHit env (ready_toggle_percent (bc_options b)) b in
        if toggle then schedule_random env 100 600 Do_UnreadyThenReady (BotClient_Ready env b)
        else BotClient_Ready env b)"

definition SendInput :: "'f bot_env \<Rightarrow> BotClient \<Rightarrow> BotClient" where
  "SendInput env b =
     (if \<not> bc_running b \<or> \<not> bc_connected b \<or> bc_room_id b = 0 \<or> \<not> input_loop_active b then b
      else let b = b\<lparr>bc_input_seq := bc_input_seq b + 1\<rparr>;
               (x, b) = RandomUtil_Float env b;
               (y, b) = RandomUtil_Float env b;
               (k, b) = RandomUtil_Int env 0 3 b;
               b = send_request env MSG_INPUT_REQ (InputRequest (bc_player_id b) (bc_input_seq b) x y (k = 0)) b
           in ScheduleTimer (input_interval_ms (bc_options b)) Do_SendInput
                (count_stat (input_sent_update inc64) b))"

definition StartInputLoop :: "'f bot_env \<Rightarrow> BotClient \<Rightarrow> BotClient" where
  "StartInputLoop env b =
     (if \<not> bc_running b \<or> bc_room_id b = 0 \<or> input_loop_active b then b
      else SendInput env (b\<lparr>input_loop_active := True\<rparr>))"

subsection \<open>Answers of the server\<close>

definition HandleLoginResponse :: "'f bot_env \<Rightarrow> byte list \<Rightarrow> BotClient \<Rightarrow> BotClient" where
  "HandleLoginResponse env resp b =
     (case login_resp env resp of
        None \<Rightarrow> count_stat (login_failed_update inc64) b
      | Some (code, pid, token) \<Rightarrow>
          if code = 0 then
            let b = b\<lparr>bc_player_id := pid, session_token := token, bc_state := LoggedIn\<rparr>
            in schedule_jitter env 10 Do_Match (ScheduleHeartbeat (count_stat (login_ok_update inc64) b))
          else count_stat (login_failed_update inc64) b)"

definition HandleReconnectResponse :: "'f bot_env \<Rightarrow> byte list \<Rightarrow> BotClient \<Rightarrow> BotClient" where
  "HandleReconnectResponse env resp b =
     (case reconnect_resp env resp of
        None \<Rightarrow> count_stat (reconnect_failed_update inc64) b
      | Some (code, rid) \<Rightarrow>
          if code = 0 then
            let b = count_stat (reconnect_ok_update inc64)
                      (b\<lparr>bc_room_id := rid, bc_state := if rid = 0 then LoggedIn else InRoom\<rparr>)
            in if rid \<noteq> 0 then StartInputLoop env (ScheduleReadyFlow env b)
               else schedule_jitter env (rematch_delay_ms (bc_options b)) Do_Match b
          else count_stat (reconnect_failed_update inc64) b)"

definition BotClient_HandleMatchResponse :: "'f bot_env \<Rightarrow> byte list \<Rightarrow> BotClient \<Rightarrow> BotClient" where
  "BotClient_HandleMatchResponse env resp b =
     (case match_resp env resp of
        None \<Rightarrow> b
      | Some code \<Rightarrow>
          if code = 0 then
            let b = count_stat (match_ok_update inc64) (b\<lparr>bc_state := Matching\<rparr>);
                (cancel, b) = (if cancelled_this_round b then (False, b)
                               else PercentHit env (cancel_match_percent (bc_options b)) b)
            in if cancel then ScheduleCancelMatch env b else snd (MaybeScheduleDisconnect env AtQueue b)
          else if code = 2 then b\<lparr>bc_state := Matching\<rparr>
          else schedule_jitter env (rematch_delay_ms (bc_options b)) Do_Match
                 ((count_stat (match_failed_update inc64) b)\<lparr>bc_state := LoggedIn\<rparr>))"

definition BotClient_HandleMatchSuccess :: "'f bot_env \<Rightarrow> byte list \<Rightarrow> BotClient \<Rightarrow> BotClient" where
  "BotClient_HandleMatchSuccess env resp b =
     (case match_success_notify env resp of
        None \<Rightarrow> b
      | Some rid \<Rightarrow>
          let b = count_stat (match_success_update inc64)
                    (b\<lparr>bc_room_id := rid, bc_state := InRoom, input_loop_active := False\<rparr>);
              (will_disconnect, b) = MaybeScheduleDisconnect env AtRoom b
          in if will_disconnect then b else schedule_jitter env 50 Do_ReadyFlow b)"

definition BotClient_HandleRoomState :: "'f bot_env \<Rightarrow> byte list \<Rightarrow> BotClient \<Rightarrow> BotClient" where
  "BotClient_HandleRoomState env resp b =
     (case room_state_notify env resp of
        None \<Rightarrow> b
      | Some (rid, st) \<Rightarrow>
          let b = b\<lparr>bc_room_id := rid\<rparr> in
          if st = 2 then
            snd (MaybeScheduleDisconnect env AtPlaying
              (StartInputLoop env (count_stat (room_playing_update inc64) (b\<lparr>bc_state := BotPlaying\<rparr>))))
          else b)"

definition BotClient_HandleGameState :: "'f bot_env \<Rightarrow> BotClient \<Rightarrow> BotClient" where
  "BotClient_HandleGameState env b0 =
     (let b = count_stat (stat_game_state_update inc64) b0 in
      if bc_room_id b \<noteq> 0 \<and> bc_state b \<noteq> BotPlaying
      then snd (MaybeScheduleDisconnect env AtPlaying (StartInputLoop env (b\<lparr>bc_state := BotPlaying\<rparr>)))
      else b)"

definition BotClient_HandleGameOver :: "'f bot_env \<Rightarrow> BotClient \<Rightarrow> BotClient" where
  "BotClient_HandleGameOver env b =
     schedule_jitter env (rematch_delay_ms (bc_options b)) Do_Match
       (count_stat (stat_game_over_update inc64)
         (b\<lparr>bc_room_id := 0, input_loop_active := False, bc_state := LoggedIn, cancelled_this_round := False,
            queue_disconnect_this_round := False, room_disconnect_this_round := False,
            playing_disconnect_this_round := False, reconnect_count := 0, bc_input_seq := 0\<rparr>))"

definition BotClient_OnMessage :: "'f bot_env \<Rightarrow> Packet \<Rightarrow> BotClient \<Rightarrow> BotClient" where
  "BotClient_OnMessage env packet b =
     (if msg_id packet = msg_value MSG_LOGIN_RESP then HandleLoginResponse env (body packet) b
      else if msg_id packet = msg_value MSG_RECONNECT_RESP then HandleReconnectResponse env (body packet) b
      else if msg_id packet = msg_value MSG_MATCH_RESP then BotClient_HandleMatchResponse env (body packet) b
      else if msg_id packet = msg_value MSG_MATCH_SUCCESS_NOTIFY
        then BotClient_HandleMatchSuccess env (body packet) b
      else if msg_id packet = msg_value MSG_ROOM_STATE_NOTIFY then BotClient_HandleRoomState env (body packet) b
      else if msg_id packet = msg_value MSG_GAME_STATE_NOTIFY then BotClient_HandleGameState env b
      else if msg_id packet = msg_value MSG_GAME_OVER_NOTIFY then BotClient_HandleGameOver env b
      else b)"

subsection \<open>Connecting and reading\<close>

definition BotClient_DoRead :: "sock \<Rightarrow> BotClient \<Rightarrow> BotClient" where
  "BotClient_DoRead s b = b\<lparr>bc_reads := bc_reads b @ [s]\<rparr>"

text \<open>\<open>resolved\<close> tells whether the resolver finds the host.\<close>

definition BotClient_Connect :: "bool \<Rightarrow> bool \<Rightarrow> BotClient \<Rightarrow> BotClient" where
  "BotClient_Connect resolved reconnect b0 =
     (if \<not> bc_running b0 then b0
      else let s = bc_next_sock b0;
               b = b0\<lparr>bc_state := Connecting, bc_connected := False, bc_read_buffer := [], bc_write_queue := [],
                      bc_socket := Some s, bc_next_sock := Suc s\<rparr>
           in if \<not> resolved
              then ScheduleTimer (reconnect_delay_ms (bc_options b)) (Do_Connect reconnect)
                     (count_stat (connect_failed_update inc64) b)
              else b\<lparr>bc_connects := bc_connects b @ [(s, reconnect)]\<rparr>)"

text \<open>The completion of \<open>async_connect\<close> on a socket.\<close>

definition bot_on_connected :: "'f bot_env \<Rightarrow> bool \<Rightarrow> sock \<Rightarrow> bool \<Rightarrow> BotClient \<Rightarrow> BotClient" where
  "bot_on_connected env ok s reconnect b0 =
     (let b = (if ok then b0\<lparr>bc_open := s # bc_open b0\<rparr> else b0) in
      if \<not> bc_running b \<or> Some s \<noteq> bc_socket b then b
      else if \<not> ok
      then ScheduleTimer (reconnect_delay_ms (bc_options b)) (Do_Connect reconnect)
             (count_stat (connect_failed_update inc64) b)
      else let b = count_stat (connect_ok_update inc64) (b\<lparr>bc_connected := True\<rparr>);
               b = (if reconnect \<and> bc_player_id b \<noteq> 0 \<and> session_token b \<noteq> []
                    then BotClient_Reconnect env b else BotClient_Login env b)
           in BotClient_DoRead s b)"

text \<open>The completion of \<open>async_read_some\<close>: an error, or the bytes read.\<close>

definition bot_on_read :: "'f bot_env \<Rightarrow> byte list option \<Rightarrow> sock \<Rightarrow> BotClient \<Rightarrow> BotClient" where
  "bot_on_read env result s b =
     (if \<not> bc_running b \<or> Some s \<noteq> bc_socket b then b
      else case result of
        None \<Rightarrow> b\<lparr>bc_connected := False\<rparr>
      | Some bytes \<Rightarrow>
          (case Decode (bc_read_buffer b @ bytes) of
             Decoded packets rest \<Rightarrow>
               BotClient_DoRead s (fold (BotClient_OnMessage env) packets (b\<lparr>bc_read_buffer := rest\<rparr>))
           | DecodeThrow _ rest \<Rightarrow> BotClient_CloseSocket (b\<lparr>bc_read_buffer := rest\<rparr>)))"

fun run_callback :: "'f bot_env \<Rightarrow> i64 \<Rightarrow> bool \<Rightarrow> callback \<Rightarrow> BotClient \<Rightarrow> BotClient" where
  "run_callback env now resolved (Do_Connect reconnect) b = BotClient_Connect resolved reconnect b"
| "run_callback env now resolved Do_Heartbeat b = BotClient_Heartbeat env now b"
| "run_callback env now resolved Do_Match b = BotClient_Match env b"
| "run_callback env now resolved Do_Rematch b =
     (if bc_state b = LoggedIn \<and> bc_room_id b = 0 then BotClient_Match env b else b)"
| "run_callback env now resolved Do_CancelMatch b = BotClient_CancelMatch env b"
| "run_callback env now resolved (Do_SimulateDisconnect point) b = SimulateDisconnect env point b"
| "run_callback env now resolved Do_UnreadyThenReady b =
     schedule_random env 100 600 Do_Ready (BotClient_Unready env b)"
| "run_callback env now resolved Do_Ready b = BotClient_Ready env b"
| "run_callback env now resolved Do_ReadyFlow b =
     (if bc_connected b \<and> bc_room_id b \<noteq> 0 then ScheduleReadyFlow env b else b)"
| "run_callback env now resolved Do_SendInput b = SendInput env b"

text \<open>The expiry of a timer.\<close>

definition bot_on_timer :: "'f bot_env \<Rightarrow> i64 \<Rightarrow> bool \<Rightarrow> callback \<Rightarrow> BotClient \<Rightarrow> BotClient" where
  "bot_on_timer env now resolved cb b = (if bc_running b then run_callback env now resolved cb b else b)"

subsection \<open>Start and stop\<close>

definition BotClient_Start :: "bool \<Rightarrow> BotClient \<Rightarrow> BotClient" where
  "BotClient_Start resolved b =
     (if bc_running b then b else BotClient_Connect resolved False (b\<lparr>bc_running := True\<rparr>))"

text \<open>
  \<open>Stop\<close> runs on the caller's thread: until \<open>io_context_.stop()\<close> takes effect the worker may still run
  handlers, so the two halves are separate steps.
\<close>

definition BotClient_Stop_request :: "BotClient \<Rightarrow> BotClient" where
  "BotClient_Stop_request b =
     (if \<not> bc_running b then b else b\<lparr>bc_running := False, bc_posts := bc_posts b @ [Post_Close]\<rparr>)"

definition BotClient_Stop_join :: "BotClient \<Rightarrow> BotClient" where
  "BotClient_Stop_join b = b\<lparr>bc_stopped := True\<rparr>"

end
