(* ===== verification/Bot_Steps.thy ===== *)
theory Bot_Steps
  imports Bot_Client
begin

text \<open>
  The client of the load generator as a transition system.
  A step runs one handler of the \<open>io_context\<close>: the front of the posted functions, any timer, or the
  completion of any operation in flight, with any result; the two halves of \<open>Stop\<close> may come at any
  time.  That a timer may expire at any time makes the relation larger than the program, so the
  invariants hold for every delay.

  The handlers of the server's answers are built from a few elementary operations.  The locale
  \<open>bot_stable\<close> states what a predicate has to be stable under, and proves once that every handler
  keeps it; each invariant of the client is an interpretation of it.
\<close>

subsection \<open>Steps\<close>

text \<open>The label of a step says what passes between the client and its connection.\<close>

datatype bot_event =
    Bot_quiet
  | Bot_accepts sock Packet          \<comment> \<open>a packet is put into the queue of the socket\<close>
  | Bot_reads sock "byte list"       \<comment> \<open>\<open>async_read_some\<close> on the socket completes with these bytes\<close>

definition send_event :: "Packet \<Rightarrow> BotClient \<Rightarrow> bot_event" where
  "send_event p b =
     (case bc_socket b of
        None \<Rightarrow> Bot_quiet
      | Some s \<Rightarrow> if bc_running b \<and> bc_connected b \<and> s \<in> set (bc_open b) then Bot_accepts s p else Bot_quiet)"

definition read_event :: "sock \<Rightarrow> byte list option \<Rightarrow> bot_event" where
  "read_event s result = (case result of None \<Rightarrow> Bot_quiet | Some bytes \<Rightarrow> Bot_reads s bytes)"

inductive bot_step :: "'f bot_env \<Rightarrow> bot_event \<Rightarrow> BotClient \<Rightarrow> BotClient \<Rightarrow> bool" for env where
  Run_send: "\<not> bc_stopped b \<Longrightarrow> bc_posts b = Post_Send p # ps \<Longrightarrow>
     run_send p (b\<lparr>bc_posts := ps\<rparr>) = Inr b' \<Longrightarrow> bot_step env (send_event p b) b b'"
| Run_close: "\<not> bc_stopped b \<Longrightarrow> bc_posts b = Post_Close # ps \<Longrightarrow>
     bot_step env Bot_quiet b (BotClient_CloseSocket (b\<lparr>bc_posts := ps\<rparr>))"
| Timer: "\<not> bc_stopped b \<Longrightarrow> (d, cb) \<in> set (bc_timers b) \<Longrightarrow>
     bot_step env Bot_quiet b (bot_on_timer env now resolved cb (b\<lparr>bc_timers := remove1 (d, cb) (bc_timers b)\<rparr>))"
| Connected: "\<not> bc_stopped b \<Longrightarrow> (s, reconnect) \<in> set (bc_connects b) \<Longrightarrow>
     bot_step env Bot_quiet b (bot_on_connected env ok s reconnect (b\<lparr>bc_connects := remove1 (s, reconnect) (bc_connects b)\<rparr>))"
| Read: "\<not> bc_stopped b \<Longrightarrow> s \<in> set (bc_reads b) \<Longrightarrow>
     bot_step env (read_event s result) b (bot_on_read env result s (b\<lparr>bc_reads := remove1 s (bc_reads b)\<rparr>))"
| Written: "\<not> bc_stopped b \<Longrightarrow> s \<in> set (bc_writes b) \<Longrightarrow>
     bot_step env Bot_quiet b (bot_on_written ok s (b\<lparr>bc_writes := remove1 s (bc_writes b)\<rparr>))"
| Stop_request: "bot_step env Bot_quiet b (BotClient_Stop_request b)"
| Stop_join: "\<not> bc_running b \<Longrightarrow> bot_step env Bot_quiet b (BotClient_Stop_join b)"

inductive bot_run :: "'f bot_env \<Rightarrow> BotClient \<Rightarrow> BotClient \<Rightarrow> bool" for env b0 where
  Start: "bot_run env b0 b0"
| Step: "bot_run env b0 b \<Longrightarrow> bot_step env e b b' \<Longrightarrow> bot_run env b0 b'"

text \<open>The states of a client that was started once.\<close>

definition bot_reach :: "'f bot_env \<Rightarrow> i32 \<Rightarrow> BotOptions \<Rightarrow> BotStats option \<Rightarrow> BotClient \<Rightarrow> bool" where
  "bot_reach env index options stats b \<longleftrightarrow>
     (\<exists>resolved. bot_run env (BotClient_Start resolved (BotClient_new index options stats)) b)"

lemma bot_run_invariant:
  assumes "bot_run env b0 b" and "I b0" and "\<And>e x y. bot_step env e x y \<Longrightarrow> I x \<Longrightarrow> I y"
  shows "I b"
  using assms by (induction rule: bot_run.induct) blast+

lemma bot_reach_invariant:
  assumes "bot_reach env index options stats b"
    and "\<And>resolved. I (BotClient_Start resolved (BotClient_new index options stats))"
    and "\<And>e x y. bot_step env e x y \<Longrightarrow> I x \<Longrightarrow> I y"
  shows "I b"
  using assms bot_run_invariant [where I = I] unfolding bot_reach_def by blast

subsection \<open>Predicates that the handlers keep\<close>

text \<open>The part of the state that the invariants look at.\<close>

definition core where
  "core b = (bc_options b, bc_running b, bc_stopped b, (bc_socket b, bc_next_sock b, bc_open b, bc_connects b,
     bc_reads b, bc_writes b, bc_write_queue b, bc_connected b, bc_wire b, bc_read_buffer b),
     bc_posts b, bc_timers b, heartbeat_started b, reconnect_count b, bc_seq b, bc_draws b, bc_built b)"

text \<open>
  The range of the options for which no sum of a delay and a jitter leaves \<open>int\<close>, and the contract of
  \<open>uniform_int_distribution\<close>.
\<close>

definition options_ok :: "BotOptions \<Rightarrow> bool" where
  "options_ok opts \<longleftrightarrow>
     in_i32 (reconnect_delay_ms opts) \<and> in_i32 (rematch_delay_ms opts) \<and> in_i32 (heartbeat_interval_ms opts) \<and>
     in_i32 (input_interval_ms opts) \<and> action_jitter_ms opts < 2 ^ 31 - 600 \<and>
     reconnect_delay_ms opts + max 0 (action_jitter_ms opts) < 2 ^ 31 \<and>
     rematch_delay_ms opts + max 0 (action_jitter_ms opts) < 2 ^ 31"

definition rng_ok :: "'f bot_env \<Rightarrow> bool" where
  "rng_ok env \<longleftrightarrow> (\<forall>k lo hi. lo \<le> hi \<longrightarrow> lo \<le> rng_int env k lo hi \<and> rng_int env k lo hi \<le> hi)"

definition sound :: "'f bot_env \<Rightarrow> BotClient \<Rightarrow> bool" where
  "sound env b \<longleftrightarrow> rng_ok env \<and> options_ok (bc_options b)"

definition draw_ok :: "int \<times> int \<Rightarrow> bool" where
  "draw_ok = (\<lambda>(lo, hi). 0 \<le> lo \<and> lo \<le> hi \<and> hi < 2 ^ 31)"

text \<open>What the elementary operations leave alone.\<close>

lemma core_count_stat [simp]: "core (count_stat f b) = core b"
  by (simp add: core_def count_stat_def)

lemma count_stat_frame [simp]:
  "bc_options (count_stat f b) = bc_options b" "bc_running (count_stat f b) = bc_running b"
  "bc_connected (count_stat f b) = bc_connected b" "bc_room_id (count_stat f b) = bc_room_id b"
  by (simp_all add: count_stat_def)

lemma sound_cong: "bc_options b' = bc_options b \<Longrightarrow> sound env b' = sound env b"
  by (simp add: sound_def)

lemma options_kept [simp]:
  "bc_options (snd (RandomUtil_Int env lo hi b)) = bc_options b"
  "bc_options (snd (RandomUtil_Float env b)) = bc_options b"
  "bc_options (snd (JitterMs env base b)) = bc_options b"
  "bc_options (snd (PercentHit env percent b)) = bc_options b"
  "bc_options (ScheduleTimer d cb b) = bc_options b"
  "bc_options (send_request env mid r b) = bc_options b"
  "bc_options (ScheduleHeartbeat b) = bc_options b"
  by (simp_all add: RandomUtil_Int_def RandomUtil_Float_def JitterMs_def PercentHit_def ScheduleTimer_def
      send_request_def SendPacket_def ScheduleHeartbeat_def Let_def split_beta)

lemma Jitter_bounds:
  assumes "sound env b"
  shows "base \<le> fst (JitterMs env base b)" "0 \<le> fst (JitterMs env base b)"
    "fst (JitterMs env base b) \<le> max 0 (base + max 0 (action_jitter_ms (bc_options b)))"
proof -
  let ?m = "max 0 (action_jitter_ms (bc_options b))" and ?j = "rng_int env (length (bc_draws b)) 0"
  have "0 \<le> ?j ?m \<and> ?j ?m \<le> ?m" using assms by (auto simp: sound_def rng_ok_def)
  moreover have "fst (JitterMs env base b) = max 0 (base + ?j ?m)"
    by (simp add: JitterMs_def RandomUtil_Int_def Let_def)
  ultimately show "base \<le> fst (JitterMs env base b)" "0 \<le> fst (JitterMs env base b)"
    "fst (JitterMs env base b) \<le> max 0 (base + ?m)"
    by linarith+
qed

text \<open>The callbacks of the game flow: neither a heartbeat nor a new connection.\<close>

primrec game_callback :: "callback \<Rightarrow> bool" where
  "game_callback (Do_Connect r) = False"
| "game_callback Do_Heartbeat = False"
| "game_callback Do_Match = True"
| "game_callback Do_Rematch = True"
| "game_callback Do_CancelMatch = True"
| "game_callback (Do_SimulateDisconnect point) = True"
| "game_callback Do_UnreadyThenReady = True"
| "game_callback Do_Ready = True"
| "game_callback Do_ReadyFlow = True"
| "game_callback Do_SendInput = True"

lemma game_callback_not [simp]: "game_callback cb \<Longrightarrow> cb \<noteq> Do_Heartbeat" "game_callback cb \<Longrightarrow> cb \<noteq> Do_Connect r"
  by auto

locale bot_stable =
  fixes env :: "'f bot_env" and P :: "BotClient \<Rightarrow> bool"
  assumes flow: "P b \<Longrightarrow> core b' = core b \<Longrightarrow> P b'"
    and draw: "P b \<Longrightarrow> (sound env b \<Longrightarrow> draw_ok (lo, hi)) \<Longrightarrow> P (b\<lparr>bc_draws := bc_draws b @ [(lo, hi)]\<rparr>)"
    and timer: "P b \<Longrightarrow> (sound env b \<Longrightarrow> d < 2 ^ 31) \<Longrightarrow> game_callback cb \<Longrightarrow> P (ScheduleTimer d cb b)"
    and send: "P b \<Longrightarrow> P (send_request env mid r b)"
    and heartbeat: "P b \<Longrightarrow> P (ScheduleHeartbeat b)"
    and reset: "P b \<Longrightarrow> P (b\<lparr>reconnect_count := 0\<rparr>)"
begin

lemma RandomUtil_Int:
  assumes "P b" and "sound env b \<Longrightarrow> draw_ok (lo, hi)"
  shows "P (snd (RandomUtil_Int env lo hi b))"
  using draw [OF assms] by (simp add: RandomUtil_Int_def)

lemma RandomUtil_Float: "P b \<Longrightarrow> P (snd (RandomUtil_Float env b))"
  by (erule flow) (simp add: RandomUtil_Float_def core_def)

lemma count_stat: "P b \<Longrightarrow> P (count_stat f b)"
  by (erule flow) simp

lemma JitterMs: "P b \<Longrightarrow> P (snd (JitterMs env base b))"
  by (auto simp: JitterMs_def Let_def split_beta draw_ok_def sound_def options_ok_def intro!: RandomUtil_Int)

lemma PercentHit: "P b \<Longrightarrow> P (snd (PercentHit env percent b))"
  by (auto simp: PercentHit_def Let_def split_beta draw_ok_def intro!: RandomUtil_Int)

lemma schedule_jitter:
  assumes "P b" and "game_callback cb"
    and "options_ok (bc_options b) \<Longrightarrow> base + max 0 (action_jitter_ms (bc_options b)) < 2 ^ 31"
  shows "P (schedule_jitter env base cb b)"
proof -
  have "sound env b \<Longrightarrow> fst (JitterMs env base b) < 2 ^ 31"
    using Jitter_bounds(3) [of env b base] assms(3) by (auto simp: sound_def)
  then show ?thesis
    using assms(1,2) by (auto simp: schedule_jitter_def split_beta sound_def intro!: timer JitterMs)
qed

lemma schedule_random:
  assumes "P b" and "game_callback cb" and "0 \<le> lo" "lo \<le> base" "base \<le> 600"
  shows "P (schedule_random env lo base cb b)"
proof -
  let ?b = "snd (JitterMs env base b)"
  have ok: "draw_ok (lo, fst (JitterMs env base b))" if "sound env b"
    using Jitter_bounds [OF that, of base] assms(3-5) that by (auto simp: draw_ok_def sound_def options_ok_def)
  have "fst (RandomUtil_Int env lo (fst (JitterMs env base b)) ?b) < 2 ^ 31" if "sound env b"
  proof -
    have "fst (RandomUtil_Int env lo (fst (JitterMs env base b)) ?b) \<le> fst (JitterMs env base b)"
      using that ok [OF that] by (simp add: RandomUtil_Int_def sound_def rng_ok_def draw_ok_def)
    then show ?thesis using ok [OF that] by (simp add: draw_ok_def)
  qed
  moreover have "P (snd (RandomUtil_Int env lo (fst (JitterMs env base b)) ?b))"
    using assms(1) ok by (intro RandomUtil_Int JitterMs) (auto simp: sound_def)
  ultimately show ?thesis
    using assms(2) by (auto simp: schedule_random_def split_beta sound_def intro!: timer)
qed

lemma MaybeScheduleDisconnect: "P b \<Longrightarrow> P (snd (MaybeScheduleDisconnect env point b))"
proof -
  assume "P b"
  then have hit: "P (snd (PercentHit env (disconnect_percent point b) b))" by (rule PercentHit)
  have "P (set_round_flag point (snd (PercentHit env (disconnect_percent point b) b)))"
    by (rule flow [OF hit]) (simp add: set_round_flag_def core_def split: DisconnectPoint.split)
  then show ?thesis
    using \<open>P b\<close> hit by (auto simp: MaybeScheduleDisconnect_def Let_def split_beta intro!: schedule_random)
qed

lemma Ready: "P b \<Longrightarrow> P (BotClient_Ready env b)"
  by (simp add: BotClient_Ready_def count_stat send)

lemma Unready: "P b \<Longrightarrow> P (BotClient_Unready env b)"
  by (simp add: BotClient_Unready_def count_stat send)

lemma ScheduleReadyFlow: "P b \<Longrightarrow> P (ScheduleReadyFlow env b)"
  by (auto simp: ScheduleReadyFlow_def Let_def split_beta intro!: schedule_random Ready PercentHit)

lemma Match: "P b \<Longrightarrow> P (BotClient_Match env b)"
  by (auto simp: BotClient_Match_def core_def intro!: send elim: flow)

lemma SendInput:
  assumes "P b"
  shows "P (SendInput env b)"
proof -
  let ?b0 = "b\<lparr>bc_input_seq := bc_input_seq b + 1\<rparr>"
  let ?b1 = "snd (RandomUtil_Float env (snd (RandomUtil_Float env ?b0)))"
  let ?b2 = "snd (RandomUtil_Int env 0 3 ?b1)"
  have "P ?b0" by (rule flow [OF assms]) (simp add: core_def)
  then have "P ?b2" by (intro RandomUtil_Int RandomUtil_Float) (simp_all add: draw_ok_def)
  then have "P (count_stat (input_sent_update inc64) (send_request env mid r ?b2))" for mid r
    by (intro count_stat send)
  then show ?thesis
    using assms by (auto simp: SendInput_def Let_def split_beta sound_def options_ok_def in_i32_def intro!: timer)
qed

lemma StartInputLoop:
  assumes "P b"
  shows "P (StartInputLoop env b)"
proof -
  have "P (b\<lparr>input_loop_active := True\<rparr>)" by (rule flow [OF assms]) (simp add: core_def)
  then show ?thesis using assms by (simp add: StartInputLoop_def SendInput)
qed

lemma CancelMatch:
  assumes "P b"
  shows "P (BotClient_CancelMatch env b)"
proof -
  let ?b = "send_request env MSG_MATCH_CANCEL_REQ (MatchCancelRequest (bc_player_id b)) b"
  have "P (?b\<lparr>cancelled_this_round := True, bc_state := LoggedIn\<rparr>)"
    by (rule flow [OF send [OF assms]]) (simp add: core_def)
  then have "P (count_stat f (?b\<lparr>cancelled_this_round := True, bc_state := LoggedIn\<rparr>))" for f by (rule count_stat)
  then show ?thesis using assms
    by (auto simp: BotClient_CancelMatch_def Let_def options_ok_def intro!: schedule_jitter)
qed

lemma HandleLoginResponse:
  assumes "P b"
  shows "P (HandleLoginResponse env resp b)"
proof -
  have "P (ScheduleHeartbeat (count_stat f (b\<lparr>bc_player_id := pid, session_token := tk, bc_state := LoggedIn\<rparr>)))" for f pid tk
    by (intro heartbeat count_stat flow [OF assms]) (simp add: core_def)
  then show ?thesis using assms
    by (auto simp: HandleLoginResponse_def Let_def options_ok_def count_stat split: option.split intro!: schedule_jitter)
qed

lemma HandleReconnectResponse:
  assumes "P b"
  shows "P (HandleReconnectResponse env resp b)"
proof -
  have "P (count_stat f (b\<lparr>bc_room_id := rid, bc_state := st\<rparr>))" for f rid st
    by (intro count_stat flow [OF assms]) (simp add: core_def)
  then show ?thesis using assms
    by (auto simp: HandleReconnectResponse_def Let_def options_ok_def count_stat split: option.split
        intro!: schedule_jitter StartInputLoop ScheduleReadyFlow)
qed

lemma HandleMatchResponse:
  assumes "P b"
  shows "P (BotClient_HandleMatchResponse env resp b)"
proof -
  have ok: "P (count_stat f (b\<lparr>bc_state := st\<rparr>))" for f st
    by (intro count_stat flow [OF assms]) (simp add: core_def)
  have st: "P (b\<lparr>bc_state := st\<rparr>)" for st by (rule flow [OF assms]) (simp add: core_def)
  have failed: "P ((count_stat f b)\<lparr>bc_state := st\<rparr>)" for f st by (rule flow [OF assms]) (simp add: core_def count_stat_def)
  show ?thesis using assms ok st failed
    by (auto simp: BotClient_HandleMatchResponse_def Let_def split_beta options_ok_def ScheduleCancelMatch_def split: option.split
        intro!: schedule_jitter schedule_random MaybeScheduleDisconnect PercentHit)
qed

lemma HandleMatchSuccess:
  assumes "P b"
  shows "P (BotClient_HandleMatchSuccess env resp b)"
proof -
  have "P (count_stat f (b\<lparr>bc_room_id := rid, bc_state := InRoom, input_loop_active := False\<rparr>))" for f rid
    by (intro count_stat flow [OF assms]) (simp add: core_def)
  then show ?thesis using assms
    by (auto simp: BotClient_HandleMatchSuccess_def Let_def split_beta options_ok_def split: option.split
        intro!: schedule_jitter MaybeScheduleDisconnect)
qed

lemma HandleRoomState:
  assumes "P b"
  shows "P (BotClient_HandleRoomState env resp b)"
proof -
  have "P (count_stat f (b\<lparr>bc_room_id := rid, bc_state := BotPlaying\<rparr>))" "P (b\<lparr>bc_room_id := rid\<rparr>)" for f rid
    by (intro count_stat flow [OF assms], simp add: core_def)+
  then show ?thesis using assms
    by (auto simp: BotClient_HandleRoomState_def Let_def split_beta split: option.split
        intro!: StartInputLoop MaybeScheduleDisconnect)
qed

lemma HandleGameState:
  assumes "P b"
  shows "P (BotClient_HandleGameState env b)"
proof -
  have "P ((count_stat f b)\<lparr>bc_state := BotPlaying\<rparr>)" for f by (rule flow [OF assms]) (simp add: core_def count_stat_def)
  then show ?thesis using assms
    by (auto simp: BotClient_HandleGameState_def Let_def count_stat intro!: StartInputLoop MaybeScheduleDisconnect)
qed

lemma HandleGameOver:
  assumes "P b"
  shows "P (BotClient_HandleGameOver env b)"
proof -
  let ?b = "b\<lparr>bc_room_id := 0, input_loop_active := False, bc_state := LoggedIn, cancelled_this_round := False,
            queue_disconnect_this_round := False, room_disconnect_this_round := False,
            playing_disconnect_this_round := False, reconnect_count := 0, bc_input_seq := 0\<rparr>"
  have "P ?b" by (rule flow [OF reset [OF assms]]) (simp add: core_def)
  then have "P (count_stat f ?b)" for f by (rule count_stat)
  then show ?thesis by (auto simp: BotClient_HandleGameOver_def options_ok_def intro!: schedule_jitter)
qed

lemma OnMessage: "P b \<Longrightarrow> P (BotClient_OnMessage env packet b)"
  by (simp add: BotClient_OnMessage_def HandleLoginResponse HandleReconnectResponse HandleMatchResponse
      HandleMatchSuccess HandleRoomState HandleGameState HandleGameOver)

lemma OnMessages: "P b \<Longrightarrow> P (fold (BotClient_OnMessage env) packets b)"
  by (induction packets arbitrary: b) (simp_all add: OnMessage)

text \<open>The callbacks of the game flow; the other three also change the connection.\<close>

lemma flow_callback:
  assumes "P b" and "cb \<notin> {Do_Heartbeat} \<union> range Do_Connect \<union> range Do_SimulateDisconnect"
  shows "P (run_callback env now resolved cb b)"
  using assms by (cases cb) (auto simp: Match CancelMatch Ready ScheduleReadyFlow SendInput intro!: schedule_random Unready)

end

end
