(* ===== verification/Bot_Invariants.thy ===== *)
theory Bot_Invariants
  imports Bot_Steps
begin

text \<open>
  What holds in every reachable state of a client of the load generator: the discipline of its
  connection (\<open>io_inv\<close>), what it sends (\<open>trail_inv\<close>) and the bounds of its counters, timers and random
  numbers (\<open>limits_inv\<close>).  The game-flow handlers keep each of them by an interpretation of
  \<open>bot_stable\<close>; the handlers of the connection are treated one by one.
\<close>

subsection \<open>The connection\<close>

definition io_of where
  "io_of b = (bc_running b, bc_stopped b, bc_socket b, bc_next_sock b, bc_open b, bc_connects b, bc_reads b,
     bc_writes b, bc_write_queue b, bc_connected b, bc_wire b)"

text \<open>No handler of an answer and no callback of the game flow touches the connection.\<close>

interpretation io_frame: bot_stable env "\<lambda>b. io_of b = x" for env x
  by unfold_locales
    (auto simp: core_def io_of_def ScheduleTimer_def send_request_def SendPacket_def ScheduleHeartbeat_def Let_def)

lemma io_frame_simps [simp]:
  "io_of (fold (BotClient_OnMessage env) packets b) = io_of b"
  "io_of (ScheduleTimer d cb b) = io_of b"
  "io_of (count_stat f b) = io_of b"
  "io_of (send_request env mid r b) = io_of b"
  "io_of (schedule_jitter env base cb b) = io_of b"
  by (rule io_frame.OnMessages, rule refl)
     (simp_all add: io_of_def ScheduleTimer_def count_stat_def send_request_def SendPacket_def schedule_jitter_def
       JitterMs_def RandomUtil_Int_def Let_def)

lemma io_of_fields:
  assumes "io_of b' = io_of b"
  shows "bc_running b' = bc_running b" "bc_stopped b' = bc_stopped b" "bc_socket b' = bc_socket b"
    "bc_next_sock b' = bc_next_sock b" "bc_open b' = bc_open b" "bc_connects b' = bc_connects b"
    "bc_reads b' = bc_reads b" "bc_writes b' = bc_writes b" "bc_write_queue b' = bc_write_queue b"
    "bc_connected b' = bc_connected b" "bc_wire b' = bc_wire b"
  using assms by (simp_all add: io_of_def)

text \<open>
  Every operation in flight names a socket that was created; on the current socket there is at most one
  connect or read and at most one write, a write exactly while the queue is not empty, and a read
  exactly while the client is connected.  Frames reach the sockets in the order of their creation.
\<close>

definition used_socks :: "BotClient \<Rightarrow> sock set" where
  "used_socks b = fst ` set (bc_connects b) \<union> set (bc_reads b) \<union> set (bc_writes b) \<union> set (bc_open b) \<union> fst ` set (bc_wire b)"

definition current_inv :: "sock \<Rightarrow> BotClient \<Rightarrow> bool" where
  "current_inv s b \<longleftrightarrow> Suc s = bc_next_sock b \<and> (bc_connected b \<longrightarrow> s \<in> set (bc_open b)) \<and>
     count_list (bc_writes b) s \<le> 1 \<and>
     count_list (bc_reads b) s + count_list (map fst (bc_connects b)) s \<le> 1 \<and>
     (bc_running b \<longrightarrow> count_list (bc_writes b) s = of_bool (bc_write_queue b \<noteq> []) \<and>
        count_list (bc_reads b) s = of_bool (bc_connected b))"

definition io_inv :: "BotClient \<Rightarrow> bool" where
  "io_inv b \<longleftrightarrow> (\<forall>s \<in> used_socks b. s < bc_next_sock b) \<and> sorted (map fst (bc_wire b)) \<and>
     (case bc_socket b of None \<Rightarrow> \<not> bc_connected b \<and> bc_write_queue b = [] | Some s \<Rightarrow> current_inv s b)"

lemma io_inv_cong:
  assumes "io_of b' = io_of b"
  shows "io_inv b' = io_inv b"
  unfolding io_inv_def used_socks_def current_inv_def io_of_fields [OF assms] ..

lemma count_list_remove1: "count_list (remove1 x xs) y = count_list xs y - (if x = y then 1 else 0)"
  by (induction xs) (auto simp: count_list_0_iff Suc_diff_Suc)

lemma count_list_pos: "x \<in> set xs \<Longrightarrow> 1 \<le> count_list xs x"
  by (induction xs) auto

lemma count_list_remove1_pair:
  "(x, v) \<in> set xs \<Longrightarrow>
     count_list (map fst (remove1 (x, v) xs)) y = count_list (map fst xs) y - (if x = y then 1 else 0)"
proof (induction xs)
  case (Cons a xs)
  have "1 \<le> count_list (map fst xs) x" if "(x, v) \<in> set xs"
    using that count_list_pos [of x "map fst xs"] by force
  then show ?case using Cons by (cases a) auto
qed simp

lemma fresh_counts: "\<forall>x \<in> set xs. x < (n :: nat) \<Longrightarrow> count_list xs n = 0"
  by (auto simp: count_list_0_iff)

definition push_frame :: "sock \<Rightarrow> byte list \<Rightarrow> BotClient \<Rightarrow> BotClient" where
  "push_frame s bytes b =
     (let b1 = b\<lparr>bc_write_queue := bc_write_queue b @ [bytes]\<rparr>
      in if bc_write_queue b = [] then b1\<lparr>bc_writes := bc_writes b1 @ [s]\<rparr> else b1)"

lemma run_send_cases:
  assumes "run_send p b = Inr b'"
  shows "b' = b \<or> (\<exists>s bytes. bc_running b \<and> bc_connected b \<and> bc_socket b = Some s \<and> Encode p = Inr bytes \<and>
    b' = push_frame s bytes b)"
proof (cases "bc_running b \<and> bc_connected b \<and> (\<exists>s. bc_socket b = Some s \<and> s \<in> set (bc_open b))")
  case True
  then obtain s where s: "bc_running b" "bc_connected b" "bc_socket b = Some s" "s \<in> set (bc_open b)" by blast
  obtain bytes where e: "Encode p = Inr bytes" using assms s by (cases "Encode p") (simp_all add: run_send_def)
  have "b' = push_frame s bytes b" using assms s e
    by (cases "bc_write_queue b = []") (simp_all add: run_send_def BotClient_DoWrite_def push_frame_def Let_def)
  then show ?thesis using s e by blast
next
  case False
  then have "b' = b" using assms by (cases "bc_socket b") (auto simp: run_send_def)
  then show ?thesis ..
qed

lemma io_inv_run_send:
  assumes "io_inv b" and "run_send p b = Inr b'"
  shows "io_inv b'"
proof -
  have "io_inv (push_frame s bytes b)" if "bc_running b" "bc_socket b = Some s" for s bytes
    using assms(1) that
    by (cases "bc_write_queue b = []") (simp_all add: io_inv_def used_socks_def current_inv_def push_frame_def)
  then show ?thesis using run_send_cases [OF assms(2)] assms(1) by blast
qed

lemma io_inv_close [intro]: "io_inv b \<Longrightarrow> io_inv (BotClient_CloseSocket b)"
  by (cases "bc_socket b") (auto simp: io_inv_def used_socks_def BotClient_CloseSocket_def Let_def)

lemma io_inv_connect:
  assumes "io_inv b"
  shows "io_inv (BotClient_Connect resolved reconnect b)"
proof (cases "bc_running b")
  case True
  let ?s = "bc_next_sock b"
  let ?b = "b\<lparr>bc_state := Connecting, bc_connected := False, bc_read_buffer := [], bc_write_queue := [],
     bc_socket := Some ?s, bc_next_sock := Suc ?s\<rparr>"
  have old: "\<forall>x \<in> used_socks b. x < ?s" and wire: "sorted (map fst (bc_wire b))"
    using assms by (auto simp: io_inv_def)
  have fresh: "count_list (bc_writes b) ?s = 0" "count_list (bc_reads b) ?s = 0" "count_list (map fst (bc_connects b)) ?s = 0"
    using old by (auto simp: used_socks_def intro!: fresh_counts)
  have "\<forall>x \<in> used_socks b. x < Suc ?s" using old less_SucI by blast
  then have "io_inv ?b" and "io_inv (?b\<lparr>bc_connects := bc_connects b @ [(?s, reconnect)]\<rparr>)"
    using fresh wire by (simp_all add: io_inv_def current_inv_def used_socks_def)
  moreover have "io_inv (ScheduleTimer d cb (count_stat f ?b)) = io_inv ?b" for d cb f
    by (rule io_inv_cong) simp
  ultimately show ?thesis using True by (simp add: BotClient_Connect_def Let_def)
qed (simp add: BotClient_Connect_def assms)

lemma io_inv_remove_connect:
  assumes "io_inv b" and "(s, reconnect) \<in> set (bc_connects b)"
  shows "io_inv (b\<lparr>bc_connects := remove1 (s, reconnect) (bc_connects b)\<rparr>)"
proof -
  have "set (remove1 (s, reconnect) (bc_connects b)) \<subseteq> set (bc_connects b)" by (rule set_remove1_subset)
  then show ?thesis using assms
    by (cases "bc_socket b") (auto simp: io_inv_def used_socks_def current_inv_def count_list_remove1_pair)
qed

text \<open>A completion takes its operation out; what is left has room for the next operation on that socket.\<close>

lemma io_inv_on_connected:
  assumes inv: "io_inv b" and mem: "(s, reconnect) \<in> set (bc_connects b)"
  shows "io_inv (bot_on_connected env ok s reconnect (b\<lparr>bc_connects := remove1 (s, reconnect) (bc_connects b)\<rparr>))"
proof -
  let ?r = "b\<lparr>bc_connects := remove1 (s, reconnect) (bc_connects b)\<rparr>"
  let ?b = "if ok then ?r\<lparr>bc_open := s # bc_open ?r\<rparr> else ?r"
  have "s < bc_next_sock b" using inv mem by (force simp: io_inv_def used_socks_def)
  then have i: "io_inv ?b" using io_inv_remove_connect [OF inv mem]
    by (cases "bc_socket b") (auto simp: io_inv_def used_socks_def current_inv_def)
  have timer: "io_inv (ScheduleTimer d cb (count_stat f ?b))" for d cb f
    using i by (simp add: io_inv_cong [of "ScheduleTimer d cb (count_stat f ?b)" ?b])
  have "io_inv (BotClient_DoRead s x)" if x: "io_of x = io_of (?b\<lparr>bc_connected := True\<rparr>)" and ok and
      cur: "bc_socket b = Some s" for x
  proof -
    have "1 \<le> count_list (map fst (bc_connects b)) s" using mem count_list_pos [of s "map fst (bc_connects b)"] by force
    then have "count_list (bc_reads b) s = 0" using inv cur by (simp add: io_inv_def current_inv_def)
    then have "io_inv (BotClient_DoRead s (?b\<lparr>bc_connected := True\<rparr>))" using i cur \<open>ok\<close> \<open>s < bc_next_sock b\<close> inv
        count_list_remove1_pair [OF mem, of s]
      by (auto simp: io_inv_def current_inv_def used_socks_def BotClient_DoRead_def)
    moreover have "io_of (BotClient_DoRead s x) = io_of (BotClient_DoRead s (?b\<lparr>bc_connected := True\<rparr>))"
      using io_of_fields [OF x] by (simp add: io_of_def BotClient_DoRead_def)
    ultimately show ?thesis using io_inv_cong by blast
  qed
  then show ?thesis using i timer
    by (auto simp: bot_on_connected_def Let_def BotClient_Reconnect_def BotClient_Login_def simp del: fun_upd_apply)
qed

lemma io_inv_on_read:
  assumes inv: "io_inv b" and mem: "s \<in> set (bc_reads b)"
  shows "io_inv (bot_on_read env result s (b\<lparr>bc_reads := remove1 s (bc_reads b)\<rparr>))"
proof -
  let ?b = "b\<lparr>bc_reads := remove1 s (bc_reads b)\<rparr>"
  have sub: "set (remove1 s (bc_reads b)) \<subseteq> set (bc_reads b)" by (rule set_remove1_subset)
  have pos: "1 \<le> count_list (bc_reads b) s" using mem by (rule count_list_pos)
  have other: "io_inv ?b" if "\<not> bc_running b \<or> Some s \<noteq> bc_socket b"
    using inv sub that
    by (cases "bc_socket b") (auto simp: io_inv_def used_socks_def current_inv_def count_list_remove1)
  have lost: "io_inv (?b\<lparr>bc_connected := False\<rparr>)" if "bc_socket b = Some s"
    using inv sub that by (auto simp: io_inv_def used_socks_def current_inv_def count_list_remove1)
  have close: "io_inv (BotClient_CloseSocket (?b\<lparr>bc_read_buffer := rest\<rparr>))" if "bc_socket b = Some s" for rest
    using inv sub that by (auto simp: io_inv_def used_socks_def BotClient_CloseSocket_def)
  have again: "io_inv (BotClient_DoRead s x)" if x: "io_of x = io_of ?b" and cur: "bc_socket b = Some s" for x
  proof -
    have "io_inv (BotClient_DoRead s ?b)" using inv sub cur pos
      by (auto simp: io_inv_def used_socks_def current_inv_def BotClient_DoRead_def count_list_remove1)
    moreover have "io_of (BotClient_DoRead s x) = io_of (BotClient_DoRead s ?b)"
      using io_of_fields [OF x] by (simp add: io_of_def BotClient_DoRead_def)
    ultimately show ?thesis using io_inv_cong by blast
  qed
  have io: "io_of (fold (BotClient_OnMessage env) ps (?b\<lparr>bc_read_buffer := rest\<rparr>)) = io_of ?b" for ps rest
    by (subst io_frame_simps(1)) (simp add: io_of_def)
  show ?thesis
  proof (cases "bc_running b \<and> bc_socket b = Some s")
    case True
    then show ?thesis using lost close again [OF io]
      by (simp add: bot_on_read_def split: option.split decode_result.split)
  next
    case False
    then have "bot_on_read env result s ?b = ?b" by (auto simp: bot_on_read_def)
    then show ?thesis using other False by auto
  qed
qed

lemma io_inv_on_written:
  assumes inv: "io_inv b" and mem: "s \<in> set (bc_writes b)"
  shows "io_inv (bot_on_written ok s (b\<lparr>bc_writes := remove1 s (bc_writes b)\<rparr>))"
proof -
  let ?b = "b\<lparr>bc_writes := remove1 s (bc_writes b)\<rparr>"
  have sub: "set (remove1 s (bc_writes b)) \<subseteq> set (bc_writes b)" by (rule set_remove1_subset)
  have pos: "1 \<le> count_list (bc_writes b) s" using mem by (rule count_list_pos)
  show ?thesis
  proof (cases "bc_running b \<and> bc_socket b = Some s")
    case True
    then have cur: "bc_running b" "bc_socket b = Some s" by auto
    then have one: "count_list (bc_writes b) s = 1" and queue: "bc_write_queue b \<noteq> []"
      using inv pos by (auto simp: io_inv_def current_inv_def)
    have last: "x \<le> s" if "x \<in> fst ` set (bc_wire b)" for x
    proof -
      have "x < bc_next_sock b" "Suc s = bc_next_sock b" using inv cur that by (auto simp: io_inv_def used_socks_def current_inv_def)
      then show ?thesis by simp
    qed
    obtain bytes rest where q: "bc_write_queue b = bytes # rest" using queue by (cases "bc_write_queue b") auto
    have "io_inv (BotClient_CloseSocket ?b)"
      using inv sub cur by (auto simp: io_inv_def used_socks_def BotClient_CloseSocket_def)
    moreover have "io_inv (let b1 = ?b\<lparr>bc_write_queue := rest, bc_wire := bc_wire b @ [(s, bytes)]\<rparr>
        in if rest \<noteq> [] then BotClient_DoWrite (Some s) b1 else b1)"
      using inv sub cur one q last
      by (cases "rest = []")
         (auto simp: io_inv_def used_socks_def current_inv_def BotClient_DoWrite_def Let_def count_list_remove1 sorted_append)
    ultimately show ?thesis using cur q by (simp add: bot_on_written_def)
  next
    case False
    then have "bot_on_written ok s ?b = ?b" by (auto simp: bot_on_written_def)
    moreover have "io_inv ?b" using inv sub False
      by (cases "bc_socket b") (auto simp: io_inv_def used_socks_def current_inv_def count_list_remove1)
    ultimately show ?thesis by simp
  qed
qed

lemma io_inv_on_timer:
  assumes "io_inv b"
  shows "io_inv (bot_on_timer env now resolved cb b)"
proof -
  have reconnect: "io_inv (ScheduleReconnect env x) = io_inv x" for x
    by (rule io_inv_cong) (simp add: ScheduleReconnect_def)
  have flow: "io_inv (run_callback env now resolved cb b)"
    if "cb \<notin> {Do_Heartbeat} \<union> range Do_Connect \<union> range Do_SimulateDisconnect"
    using assms by (simp add: io_inv_cong [OF io_frame.flow_callback [OF refl that]])
  have "io_inv (run_callback env now resolved cb b)"
  proof (cases cb)
    case (Do_Connect reconnect)
    then show ?thesis using assms by (simp add: io_inv_connect)
  next
    case Do_Heartbeat
    have "io_of (BotClient_Heartbeat env now b) = io_of b" by (simp add: BotClient_Heartbeat_def)
    then show ?thesis using Do_Heartbeat assms io_inv_cong [of "BotClient_Heartbeat env now b" b] by simp
  next
    case (Do_SimulateDisconnect point)
    have "io_of (count_stat f (b\<lparr>reconnect_count := n\<rparr>)) = io_of b" for f n by (simp add: io_of_def count_stat_def)
    then have "io_inv (count_stat f (b\<lparr>reconnect_count := n\<rparr>))" for f n using assms io_inv_cong by blast
    then show ?thesis using Do_SimulateDisconnect assms
      by (auto simp: SimulateDisconnect_def reconnect)
  qed (rule flow, force)+
  then show ?thesis using assms by (simp add: bot_on_timer_def)
qed

lemma io_inv_step: "bot_step env e b b' \<Longrightarrow> io_inv b \<Longrightarrow> io_inv b'"
proof (induction rule: bot_step.induct)
  case (Run_send b p ps b')
  have "io_inv (b\<lparr>bc_posts := ps\<rparr>) = io_inv b" by (rule io_inv_cong) (simp add: io_of_def)
  then show ?case using io_inv_run_send [OF _ Run_send(3)] Run_send(4) by simp
next
  case (Run_close b ps)
  have "io_inv (b\<lparr>bc_posts := ps\<rparr>) = io_inv b" by (rule io_inv_cong) (simp add: io_of_def)
  then show ?case using Run_close(3) by blast
next
  case (Timer b d cb now resolved)
  have "io_inv (b\<lparr>bc_timers := remove1 (d, cb) (bc_timers b)\<rparr>) = io_inv b" by (rule io_inv_cong) (simp add: io_of_def)
  then show ?case using Timer(3) by (simp add: io_inv_on_timer)
next
  case (Stop_request b)
  then show ?case
    by (cases "bc_socket b") (auto simp: BotClient_Stop_request_def io_inv_def used_socks_def current_inv_def)
next
  case (Stop_join b)
  then show ?case
    by (cases "bc_socket b") (auto simp: BotClient_Stop_join_def io_inv_def used_socks_def current_inv_def)
qed (simp_all add: io_inv_on_connected io_inv_on_read io_inv_on_written)

lemma io_inv_start: "io_inv (BotClient_Start resolved (BotClient_new index options stats))"
proof -
  have "io_inv ((BotClient_new index options stats)\<lparr>bc_running := True\<rparr>)"
    by (simp add: io_inv_def used_socks_def BotClient_new_def)
  then show ?thesis by (simp add: BotClient_Start_def io_inv_connect BotClient_new_def)
qed

lemma io_inv_reach: "bot_reach env index options stats b \<Longrightarrow> io_inv b"
  by (erule bot_reach_invariant [where I = io_inv]) (auto intro: io_inv_start io_inv_step)

subsection \<open>What is sent\<close>

definition sends :: "posted list \<Rightarrow> Packet list" where
  "sends ps = concat (map (\<lambda>x. case x of Post_Send p \<Rightarrow> [p] | Post_Close \<Rightarrow> []) ps)"

lemma sends_simps [simp]:
  "sends [] = []" "sends (Post_Send p # ps) = p # sends ps" "sends (Post_Close # ps) = sends ps"
  "sends (ps @ qs) = sends ps @ sends qs"
  by (simp_all add: sends_def)

text \<open>
  The frames written and queued encode, in order, packets that the client built; the posted packets
  come after them.  The packets carry the sequence numbers 1, 2, 3 and so on.
\<close>

definition trail_inv :: "BotClient \<Rightarrow> bool" where
  "trail_inv b \<longleftrightarrow>
     (\<exists>sent. subseq (sent @ sends (bc_posts b)) (bc_built b) \<and>
        map Encode sent = map Inr (map snd (bc_wire b) @ bc_write_queue b)) \<and>
     map seq (bc_built b) = map of_nat [1..<Suc (length (bc_built b))] \<and>
     bc_seq b = of_nat (length (bc_built b))"

lemma trail_invI:
  assumes "subseq (sent @ sends (bc_posts b)) (bc_built b)"
    and "map Encode sent = map Inr (map snd (bc_wire b) @ bc_write_queue b)"
    and "map seq (bc_built b) = map of_nat [1..<Suc (length (bc_built b))]"
    and "bc_seq b = of_nat (length (bc_built b))"
  shows "trail_inv b"
  using assms unfolding trail_inv_def by blast

lemma trail_inv_send:
  assumes "trail_inv b"
  shows "trail_inv (send_request env mid r b)"
proof -
  let ?p = "Build (msg_value mid) (serialize env r) (bc_seq b + 1)"
  obtain sent where s: "subseq (sent @ sends (bc_posts b)) (bc_built b)"
      "map Encode sent = map Inr (map snd (bc_wire b) @ bc_write_queue b)"
    and n: "map seq (bc_built b) = map of_nat [1..<Suc (length (bc_built b))]" "bc_seq b = of_nat (length (bc_built b))"
    using assms unfolding trail_inv_def by blast
  have "subseq (sent @ sends (bc_posts b)) (bc_built b @ [?p])"
    and "subseq (sent @ sends (bc_posts b @ [Post_Send ?p])) (bc_built b @ [?p])"
    using s(1) subseq_append [of "sent @ sends (bc_posts b)" "[?p]" "bc_built b"]
    by (simp_all add: subseq_rev_drop_many)
  then show ?thesis
    using s(2) n by (intro trail_invI [of sent]) (auto simp: send_request_def SendPacket_def Build_def Let_def)
qed

interpretation trail: bot_stable env trail_inv for env
proof
  show "trail_inv (send_request env mid r b)" if "trail_inv b" for b mid r using that by (rule trail_inv_send)
qed (simp_all add: trail_inv_def core_def ScheduleTimer_def ScheduleHeartbeat_def)

text \<open>An operation that only shortens the queue or the posted functions keeps the trail.\<close>

lemma trail_inv_shorten:
  assumes "trail_inv b" and "bc_write_queue b' = bc_write_queue b \<or> bc_write_queue b' = []"
    and "subseq (sends (bc_posts b')) (sends (bc_posts b))"
    and "bc_wire b' = bc_wire b" "bc_built b' = bc_built b" "bc_seq b' = bc_seq b"
  shows "trail_inv b'"
proof -
  obtain sent where s: "subseq (sent @ sends (bc_posts b)) (bc_built b)"
      "map Encode sent = map Inr (map snd (bc_wire b) @ bc_write_queue b)"
    using assms(1) unfolding trail_inv_def by blast
  let ?sent = "if bc_write_queue b' = [] then take (length (bc_wire b)) sent else sent"
  have "subseq ?sent sent" by (auto intro: prefix_imp_subseq take_is_prefix)
  then have "subseq (?sent @ sends (bc_posts b')) (bc_built b')"
    using list_emb_append_mono [OF _ assms(3)] s(1) assms(5) subseq_order.order_trans by metis
  moreover have "map Encode ?sent = map Inr (map snd (bc_wire b') @ bc_write_queue b')"
  proof (cases "bc_write_queue b' = []")
    case True
    have "map Encode (take (length (bc_wire b)) sent) = take (length (bc_wire b)) (map Encode sent)"
      by (simp add: take_map)
    also have "\<dots> = map Inr (map snd (bc_wire b))" by (simp add: s(2))
    finally show ?thesis using True assms(4) by simp
  next
    case False
    then show ?thesis using s(2) assms(2,4) by auto
  qed
  ultimately show ?thesis using assms(1,5,6) by (intro trail_invI [of ?sent]) (simp_all add: trail_inv_def)
qed

lemma trail_inv_cong:
  assumes "trail_inv b" and "bc_wire b' = bc_wire b" "bc_built b' = bc_built b" "bc_seq b' = bc_seq b"
    and "bc_posts b' = bc_posts b" "bc_write_queue b' = bc_write_queue b"
  shows "trail_inv b'"
  by (rule trail_inv_shorten [OF assms(1)]) (simp_all add: assms)

lemma trail_inv_run_send:
  assumes "trail_inv b" and posts: "bc_posts b = Post_Send p # ps" and run: "run_send p (b\<lparr>bc_posts := ps\<rparr>) = Inr b'"
  shows "trail_inv b'"
proof -
  let ?b = "b\<lparr>bc_posts := ps\<rparr>"
  have b: "trail_inv ?b" by (rule trail_inv_shorten [OF assms(1)]) (simp_all add: posts list_emb_Cons)
  have "trail_inv (push_frame s bytes ?b)" if "Encode p = Inr bytes" for s bytes
  proof -
    obtain sent where "subseq (sent @ sends (bc_posts b)) (bc_built b)"
        "map Encode sent = map Inr (map snd (bc_wire b) @ bc_write_queue b)"
      using assms(1) unfolding trail_inv_def by blast
    then show ?thesis using b that posts
      by (intro trail_invI [of "sent @ [p]"]) (simp_all add: push_frame_def Let_def trail_inv_def del: upt_Suc)
  qed
  then show ?thesis using run_send_cases [OF run] b by blast
qed

lemma trail_inv_on_written:
  assumes "trail_inv b"
  shows "trail_inv (bot_on_written ok s b)"
proof -
  have close: "trail_inv (BotClient_CloseSocket b)"
    by (rule trail_inv_shorten [OF assms]) (simp_all add: BotClient_CloseSocket_def Let_def split: option.split)
  have front: "trail_inv (b\<lparr>bc_write_queue := rest, bc_wire := bc_wire b @ [(s, bytes)]\<rparr>)"
    if "bc_write_queue b = bytes # rest" for bytes rest
    using assms that by (simp add: trail_inv_def)
  have more_writing: "trail_inv (BotClient_DoWrite x b1)" if "trail_inv b1" for b1 x
    by (rule trail_inv_cong [OF that]) (simp_all add: BotClient_DoWrite_def split: option.split)
  show ?thesis using assms close front more_writing
    by (simp add: bot_on_written_def Let_def split: list.split)
qed

lemma trail_inv_on_read:
  assumes "trail_inv b"
  shows "trail_inv (bot_on_read env result s b)"
proof -
  have "trail_inv (BotClient_CloseSocket (b\<lparr>bc_read_buffer := rest\<rparr>))" for rest
    by (rule trail_inv_shorten [OF assms]) (simp_all add: BotClient_CloseSocket_def Let_def split: option.split)
  moreover have "trail_inv (BotClient_DoRead s (fold (BotClient_OnMessage env) ps (b\<lparr>bc_read_buffer := rest\<rparr>)))" for ps rest
  proof -
    have "trail_inv (b\<lparr>bc_read_buffer := rest\<rparr>)" by (rule trail_inv_cong [OF assms]) simp_all
    then have "trail_inv (fold (BotClient_OnMessage env) ps (b\<lparr>bc_read_buffer := rest\<rparr>))" by (rule trail.OnMessages)
    then show ?thesis by (rule trail_inv_cong) (simp_all add: BotClient_DoRead_def)
  qed
  moreover have "trail_inv (b\<lparr>bc_connected := False\<rparr>)" by (rule trail_inv_cong [OF assms]) simp_all
  ultimately show ?thesis using assms
    by (simp add: bot_on_read_def split: option.split decode_result.split)
qed

lemma trail_inv_connect:
  assumes "trail_inv b"
  shows "trail_inv (BotClient_Connect resolved reconnect b)"
  by (rule trail_inv_shorten [OF assms])
     (simp_all add: BotClient_Connect_def ScheduleTimer_def count_stat_def Let_def)

lemma trail_inv_on_connected:
  assumes "trail_inv b"
  shows "trail_inv (bot_on_connected env ok s reconnect b)"
proof -
  have o: "trail_inv (b\<lparr>bc_open := s # bc_open b\<rparr>)" by (rule trail_inv_cong [OF assms]) simp_all
  have c: "trail_inv (count_stat f (b\<lparr>bc_open := s # bc_open b, bc_connected := True\<rparr>))" for f
    by (rule trail_inv_cong [OF assms]) (simp_all add: count_stat_def)
  have d: "trail_inv (BotClient_DoRead s x)" if "trail_inv x" for x
    by (rule trail_inv_cong [OF that]) (simp_all add: BotClient_DoRead_def)
  have t: "trail_inv (ScheduleTimer e cb (count_stat f b))" for e cb f
    by (rule trail_inv_cong [OF assms]) (simp_all add: count_stat_def ScheduleTimer_def)
  show ?thesis using assms o c d t
    by (simp add: bot_on_connected_def Let_def BotClient_Reconnect_def BotClient_Login_def trail_inv_send)
qed

lemma trail_inv_on_timer:
  assumes "trail_inv b"
  shows "trail_inv (bot_on_timer env now resolved cb b)"
proof -
  have flow: "trail_inv (run_callback env now resolved cb b)"
    if "cb \<notin> {Do_Heartbeat} \<union> range Do_Connect \<union> range Do_SimulateDisconnect"
    using assms that by (rule trail.flow_callback)
  have timer: "trail_inv (ScheduleTimer d c x)" if "trail_inv x" for d c x
    by (rule trail_inv_cong [OF that]) (simp_all add: ScheduleTimer_def)
  have "trail_inv (run_callback env now resolved cb b)"
  proof (cases cb)
    case (Do_Connect reconnect)
    then show ?thesis using assms by (simp add: trail_inv_connect)
  next
    case Do_Heartbeat
    then show ?thesis using assms by (simp add: BotClient_Heartbeat_def timer trail_inv_send)
  next
    case (Do_SimulateDisconnect point)
    have "trail_inv (BotClient_CloseSocket (count_stat f (b\<lparr>reconnect_count := n\<rparr>)))" for f n
      by (rule trail_inv_shorten [OF assms]) (simp_all add: BotClient_CloseSocket_def count_stat_def Let_def split: option.split)
    moreover have "trail_inv (ScheduleReconnect env x)" if "trail_inv x" for x
      by (rule trail_inv_cong [OF that]) (simp_all add: ScheduleReconnect_def schedule_jitter_def JitterMs_def RandomUtil_Int_def ScheduleTimer_def Let_def)
    ultimately show ?thesis using Do_SimulateDisconnect assms by (simp add: SimulateDisconnect_def)
  qed (rule flow, force)+
  then show ?thesis using assms by (simp add: bot_on_timer_def)
qed

lemma trail_inv_step: "bot_step env e b b' \<Longrightarrow> trail_inv b \<Longrightarrow> trail_inv b'"
proof (induction rule: bot_step.induct)
  case (Run_send b p ps b')
  then show ?case by (blast intro: trail_inv_run_send)
next
  case (Run_close b ps)
  show ?case
    by (rule trail_inv_shorten [OF Run_close(3)]) (simp_all add: Run_close BotClient_CloseSocket_def Let_def split: option.split)
next
  case (Timer b d cb now resolved)
  then show ?case by (intro trail_inv_on_timer) (rule trail_inv_cong, assumption, simp_all)
next
  case (Connected b s reconnect ok)
  then show ?case by (intro trail_inv_on_connected) (rule trail_inv_cong, assumption, simp_all)
next
  case (Read b s result)
  then show ?case by (intro trail_inv_on_read) (rule trail_inv_cong, assumption, simp_all)
next
  case (Written b s ok)
  then show ?case by (intro trail_inv_on_written) (rule trail_inv_cong, assumption, simp_all)
next
  case (Stop_request b)
  show ?case by (rule trail_inv_shorten [OF Stop_request]) (simp_all add: BotClient_Stop_request_def)
next
  case (Stop_join b)
  show ?case by (rule trail_inv_cong [OF Stop_join(2)]) (simp_all add: BotClient_Stop_join_def)
qed

lemma trail_inv_start: "trail_inv (BotClient_Start resolved (BotClient_new index options stats))"
proof -
  have "trail_inv ((BotClient_new index options stats)\<lparr>bc_running := True\<rparr>)"
    by (simp add: trail_inv_def BotClient_new_def)
  then show ?thesis by (simp add: BotClient_Start_def trail_inv_connect BotClient_new_def)
qed

lemma trail_inv_reach: "bot_reach env index options stats b \<Longrightarrow> trail_inv b"
  by (erule bot_reach_invariant [where I = trail_inv]) (auto intro: trail_inv_start trail_inv_step)

subsection \<open>Bounds\<close>

abbreviation heartbeat_timers :: "BotClient \<Rightarrow> nat" where
  "heartbeat_timers b \<equiv> count_list (map snd (bc_timers b)) Do_Heartbeat"

text \<open>
  No call of \<open>RandomUtil::Int\<close> has an empty range and no delay overflows; the disconnects of a round
  stay below their limit; a running client that started its heartbeat has exactly one heartbeat timer.
\<close>

definition limits_inv :: "'f bot_env \<Rightarrow> BotClient \<Rightarrow> bool" where
  "limits_inv env b \<longleftrightarrow>
     (sound env b \<longrightarrow> (\<forall>d \<in> set (bc_draws b). draw_ok d) \<and> (\<forall>t \<in> set (bc_timers b). 0 \<le> fst t \<and> fst t < 2 ^ 31)) \<and>
     0 \<le> reconnect_count b \<and> reconnect_count b \<le> max 0 (max_reconnects (bc_options b)) \<and>
     (bc_running b \<longrightarrow> heartbeat_timers b = of_bool (heartbeat_started b))"

lemma limits_inv_timer:
  assumes "limits_inv env b" and "sound env b \<Longrightarrow> d < 2 ^ 31" and "cb \<noteq> Do_Heartbeat"
  shows "limits_inv env (ScheduleTimer d cb b)"
  using assms by (auto simp: limits_inv_def sound_def ScheduleTimer_def)

interpretation limits: bot_stable env "limits_inv env" for env
  by unfold_locales
    (auto simp: limits_inv_def core_def sound_def draw_ok_def ScheduleTimer_def send_request_def SendPacket_def
       ScheduleHeartbeat_def options_ok_def in_i32_def Let_def)

lemma limits_inv_cong:
  assumes "limits_inv env b" and "bc_draws b' = bc_draws b" "bc_timers b' = bc_timers b"
    and "reconnect_count b' = reconnect_count b" "bc_options b' = bc_options b" "bc_running b' = bc_running b"
    and "heartbeat_started b' = heartbeat_started b"
  shows "limits_inv env b'"
  using assms by (simp add: limits_inv_def sound_def)

lemma limits_inv_close: "limits_inv env b \<Longrightarrow> limits_inv env (BotClient_CloseSocket b)"
  by (erule limits_inv_cong) (simp_all add: BotClient_CloseSocket_def Let_def split: option.split)

lemma limits_inv_connect:
  assumes "limits_inv env b"
  shows "limits_inv env (BotClient_Connect resolved reconnect b)"
proof -
  let ?b = "b\<lparr>bc_state := Connecting, bc_connected := False, bc_read_buffer := [], bc_write_queue := [],
     bc_socket := Some (bc_next_sock b), bc_next_sock := Suc (bc_next_sock b)\<rparr>"
  have "limits_inv env (?b\<lparr>bc_connects := cs\<rparr>)" for cs by (rule limits_inv_cong [OF assms]) simp_all
  moreover have "limits_inv env (count_stat f ?b)" for f by (rule limits_inv_cong [OF assms]) (simp_all add: count_stat_def)
  then have "limits_inv env (ScheduleTimer (reconnect_delay_ms (bc_options b)) (Do_Connect reconnect) (count_stat f ?b))" for f
    by (rule limits_inv_timer) (simp_all add: sound_def options_ok_def in_i32_def)
  ultimately show ?thesis using assms by (simp add: BotClient_Connect_def Let_def)
qed

lemma limits_inv_on_connected:
  assumes "limits_inv env b"
  shows "limits_inv env (bot_on_connected env ok s reconnect b)"
proof -
  have o: "limits_inv env (b\<lparr>bc_open := s # bc_open b\<rparr>)" by (rule limits_inv_cong [OF assms]) simp_all
  have c: "limits_inv env (count_stat f (b\<lparr>bc_open := s # bc_open b, bc_connected := True\<rparr>))" for f
    by (rule limits_inv_cong [OF assms]) (simp_all add: count_stat_def)
  have d: "limits_inv env (BotClient_DoRead s x)" if "limits_inv env x" for x
    by (rule limits_inv_cong [OF that]) (simp_all add: BotClient_DoRead_def)
  have t: "limits_inv env (ScheduleTimer (reconnect_delay_ms (bc_options b)) (Do_Connect reconnect) (count_stat f b))" for f
    using assms by (intro limits_inv_timer limits.count_stat) (simp_all add: sound_def options_ok_def in_i32_def)
  show ?thesis using assms o c d t
    by (simp add: bot_on_connected_def Let_def BotClient_Reconnect_def BotClient_Login_def limits.send)
qed

lemma limits_inv_on_read:
  assumes "limits_inv env b"
  shows "limits_inv env (bot_on_read env result s b)"
proof -
  have b: "limits_inv env (b\<lparr>bc_read_buffer := rest\<rparr>)" for rest by (rule limits_inv_cong [OF assms]) simp_all
  have "limits_inv env (BotClient_DoRead s (fold (BotClient_OnMessage env) ps (b\<lparr>bc_read_buffer := rest\<rparr>)))" for ps rest
    by (rule limits_inv_cong [OF limits.OnMessages [OF b]]) (simp_all add: BotClient_DoRead_def)
  moreover have "limits_inv env (b\<lparr>bc_connected := False\<rparr>)" by (rule limits_inv_cong [OF assms]) simp_all
  ultimately show ?thesis using assms limits_inv_close [OF b]
    by (simp add: bot_on_read_def split: option.split decode_result.split)
qed

lemma limits_inv_on_written:
  assumes "limits_inv env b"
  shows "limits_inv env (bot_on_written ok s b)"
  by (rule limits_inv_cong [OF assms])
     (simp_all add: bot_on_written_def BotClient_CloseSocket_def BotClient_DoWrite_def Let_def split: list.split option.split)

lemma limits_inv_run_send:
  assumes "limits_inv env b" and "run_send p b = Inr b'"
  shows "limits_inv env b'"
proof -
  have "limits_inv env (push_frame s bytes b)" for s bytes
    by (rule limits_inv_cong [OF assms(1)]) (simp_all add: push_frame_def Let_def)
  then show ?thesis using run_send_cases [OF assms(2)] assms(1) by blast
qed

lemma count_list_remove1_snd:
  "(d, v) \<in> set xs \<Longrightarrow>
     count_list (map snd (remove1 (d, v) xs)) w = count_list (map snd xs) w - (if v = w then 1 else 0)"
proof (induction xs)
  case (Cons a xs)
  have "1 \<le> count_list (map snd xs) v" if "(d, v) \<in> set xs"
    using that count_list_pos [of v "map snd xs"] by force
  then show ?case using Cons by (cases a) auto
qed simp

text \<open>The heartbeat timer that expires is replaced by the next one; every other timer just goes.\<close>

lemma limits_inv_on_timer:
  assumes inv: "limits_inv env b" and mem: "(d, cb) \<in> set (bc_timers b)"
  shows "limits_inv env (bot_on_timer env now resolved cb (b\<lparr>bc_timers := remove1 (d, cb) (bc_timers b)\<rparr>))"
proof -
  let ?b = "b\<lparr>bc_timers := remove1 (d, cb) (bc_timers b)\<rparr>"
  have count: "heartbeat_timers ?b = heartbeat_timers b - (if cb = Do_Heartbeat then 1 else 0)"
    using count_list_remove1_snd [OF mem] by simp
  have sub: "set (bc_timers ?b) \<subseteq> set (bc_timers b)" by (simp add: set_remove1_subset)
  have idle: "limits_inv env ?b" if "\<not> bc_running b \<or> cb \<noteq> Do_Heartbeat"
    using inv sub that count by (auto simp: limits_inv_def sound_def)
  have flow: "limits_inv env (run_callback env now resolved cb ?b)"
    if "cb \<notin> {Do_Heartbeat} \<union> range Do_Connect \<union> range Do_SimulateDisconnect"
    using idle that by (intro limits.flow_callback) auto
  have "limits_inv env (run_callback env now resolved cb ?b)" if run: "bc_running b"
  proof (cases cb)
    case (Do_Connect reconnect)
    then show ?thesis using idle by (simp add: limits_inv_connect)
  next
    case Do_Heartbeat
    let ?x = "if bc_connected b then send_request env MSG_HEARTBEAT_REQ (HeartbeatRequest now) ?b else ?b"
    have x: "bc_timers ?x = bc_timers ?b" "bc_draws ?x = bc_draws b" "bc_options ?x = bc_options b"
        "reconnect_count ?x = reconnect_count b" "bc_running ?x" "heartbeat_started ?x = heartbeat_started b"
      using run by (auto simp: send_request_def SendPacket_def Let_def)
    have "1 \<le> heartbeat_timers b" using mem Do_Heartbeat count_list_pos [of Do_Heartbeat "map snd (bc_timers b)"] by force
    then have "heartbeat_started b" "heartbeat_timers ?b = 0"
      using inv run count Do_Heartbeat by (cases "heartbeat_started b"; auto simp: limits_inv_def)+
    then show ?thesis using inv sub x run Do_Heartbeat
      by (auto simp: limits_inv_def BotClient_Heartbeat_def ScheduleTimer_def sound_def options_ok_def in_i32_def)
  next
    case (Do_SimulateDisconnect point)
    have s: "limits_inv env (ScheduleReconnect env x)" if "limits_inv env x" for x
    proof -
      have "limits_inv env (snd (JitterMs env d x))" for d using that by (rule limits.JitterMs)
      then show ?thesis using that Jitter_bounds(3) [of env x "reconnect_delay_ms (bc_options x)"]
        by (auto simp: ScheduleReconnect_def schedule_jitter_def split_beta sound_def options_ok_def intro!: limits_inv_timer)
    qed
    have "limits_inv env (count_stat f (?b\<lparr>reconnect_count := reconnect_count b + 1\<rparr>))"
      if "reconnect_count b < max_reconnects (bc_options b)" for f
      using idle Do_SimulateDisconnect that by (intro limits.count_stat) (auto simp: limits_inv_def sound_def)
    then show ?thesis using Do_SimulateDisconnect idle by (auto simp: SimulateDisconnect_def intro!: s limits_inv_close)
  qed (rule flow, force)+
  then show ?thesis using idle by (simp add: bot_on_timer_def)
qed

lemma limits_inv_step: "bot_step env e b b' \<Longrightarrow> limits_inv env b \<Longrightarrow> limits_inv env b'"
proof (induction rule: bot_step.induct)
  case (Run_send b p ps b')
  have "limits_inv env (b\<lparr>bc_posts := ps\<rparr>)" by (rule limits_inv_cong [OF Run_send(4)]) simp_all
  then show ?case using Run_send(3) by (rule limits_inv_run_send)
next
  case (Run_close b ps)
  show ?case by (rule limits_inv_close) (rule limits_inv_cong [OF Run_close(3)], simp_all)
next
  case (Timer b d cb now resolved)
  then show ?case by (blast intro: limits_inv_on_timer)
next
  case (Connected b s reconnect ok)
  show ?case by (rule limits_inv_on_connected) (rule limits_inv_cong [OF Connected(3)], simp_all)
next
  case (Read b s result)
  show ?case by (rule limits_inv_on_read) (rule limits_inv_cong [OF Read(3)], simp_all)
next
  case (Written b s ok)
  show ?case by (rule limits_inv_on_written) (rule limits_inv_cong [OF Written(3)], simp_all)
next
  case (Stop_request b)
  then show ?case by (auto simp: BotClient_Stop_request_def limits_inv_def sound_def)
next
  case (Stop_join b)
  then show ?case by (auto simp: BotClient_Stop_join_def limits_inv_def sound_def)
qed

lemma limits_inv_start: "limits_inv env (BotClient_Start resolved (BotClient_new index options stats))"
proof -
  have "limits_inv env ((BotClient_new index options stats)\<lparr>bc_running := True\<rparr>)"
    by (simp add: limits_inv_def BotClient_new_def)
  then show ?thesis by (simp add: BotClient_Start_def limits_inv_connect BotClient_new_def)
qed

lemma limits_inv_reach: "bot_reach env index options stats b \<Longrightarrow> limits_inv env b"
  by (erule bot_reach_invariant [where I = "limits_inv env"]) (auto intro: limits_inv_start limits_inv_step)

end
