(* ===== verification/Bot_Reconnect.thy ===== *)
theory Bot_Reconnect
  imports Bot_Invariants
begin

text \<open>
  When a client of the load generator connects again: there is never more than one attempt in progress
  and none while the client is connected, and a client that loses its connection without having asked
  for it never connects again.
\<close>

subsection \<open>Attempts in progress\<close>

primrec is_connect :: "callback \<Rightarrow> bool" where
  "is_connect (Do_Connect r) = True"
| "is_connect Do_Heartbeat = False"
| "is_connect Do_Match = False"
| "is_connect Do_Rematch = False"
| "is_connect Do_CancelMatch = False"
| "is_connect (Do_SimulateDisconnect point) = False"
| "is_connect Do_UnreadyThenReady = False"
| "is_connect Do_Ready = False"
| "is_connect Do_ReadyFlow = False"
| "is_connect Do_SendInput = False"

definition connect_timers :: "BotClient \<Rightarrow> nat" where
  "connect_timers b = length (filter (is_connect \<circ> snd) (bc_timers b))"

definition connects_pending :: "BotClient \<Rightarrow> nat" where
  "connects_pending b = (case bc_socket b of None \<Rightarrow> 0 | Some s \<Rightarrow> count_list (map fst (bc_connects b)) s)"

definition attempts :: "BotClient \<Rightarrow> nat" where
  "attempts b = connect_timers b + connects_pending b"

definition attempts_inv :: "BotClient \<Rightarrow> bool" where
  "attempts_inv b \<longleftrightarrow> attempts b \<le> (if bc_connected b then 0 else 1)"

lemmas attempts_defs = attempts_inv_def attempts_def connect_timers_def connects_pending_def

lemma game_not_connect [simp]: "game_callback cb \<Longrightarrow> \<not> is_connect cb"
  by (cases cb) auto

lemma connect_callback: "is_connect cb \<longleftrightarrow> cb \<in> range Do_Connect"
  by (cases cb) auto

lemma attempts_schedule [simp]:
  "\<not> is_connect cb \<Longrightarrow> attempts (ScheduleTimer d cb b) = attempts b"
  by (simp add: attempts_def connect_timers_def connects_pending_def ScheduleTimer_def split: option.split)

lemma connected_schedule [simp]: "bc_connected (ScheduleTimer d cb b) = bc_connected b"
  by (simp add: ScheduleTimer_def)

lemma attempts_schedule_le: "attempts (ScheduleTimer d cb b) \<le> Suc (attempts b)"
  by (simp add: attempts_def connect_timers_def connects_pending_def ScheduleTimer_def split: option.split)

lemma attempts_cong:
  assumes "bc_timers b' = bc_timers b" "bc_socket b' = bc_socket b" "bc_connects b' = bc_connects b"
  shows "attempts b' = attempts b"
  using assms by (simp add: attempts_def connect_timers_def connects_pending_def split: option.split)

lemma attempts_inv_cong:
  assumes "attempts_inv b" "bc_timers b' = bc_timers b" "bc_socket b' = bc_socket b" "bc_connects b' = bc_connects b"
    and "bc_connected b' = bc_connected b"
  shows "attempts_inv b'"
  using assms(1) attempts_cong [OF assms(2-4)] assms(5) by (simp add: attempts_inv_def)

lemma attempts_close:
  "attempts (BotClient_CloseSocket b) = connect_timers b" "\<not> bc_connected (BotClient_CloseSocket b)"
  by (simp_all add: attempts_def connect_timers_def connects_pending_def BotClient_CloseSocket_def Let_def split: option.split)

lemma attempts_inv_close: "attempts_inv b \<Longrightarrow> attempts_inv (BotClient_CloseSocket b)"
  using attempts_close [of b] by (auto simp: attempts_inv_def attempts_def split: if_splits)

interpretation attempting: bot_stable env attempts_inv for env
proof
  fix b :: BotClient and d cb mid and r :: "'a bot_request"
  assume b: "attempts_inv b"
  show "attempts_inv (ScheduleTimer d cb b)" if "game_callback cb" using b that
    by (simp add: attempts_inv_def)
  show "attempts_inv (send_request env mid r b)"
    by (rule attempts_inv_cong [OF b]) (simp_all add: send_request_def SendPacket_def Let_def)
  show "attempts_inv (ScheduleHeartbeat b)" using b
    by (auto simp: attempts_defs ScheduleHeartbeat_def ScheduleTimer_def split: option.splits if_splits)
  show "attempts_inv b'" if "core b' = core b" for b'
    by (rule attempts_inv_cong [OF b]) (use that in \<open>simp_all add: core_def\<close>)
  show "attempts_inv (b\<lparr>bc_draws := bc_draws b @ [(lo, hi)]\<rparr>)" "attempts_inv (b\<lparr>reconnect_count := 0\<rparr>)" for lo hi
    by (rule attempts_inv_cong [OF b], simp_all)+
qed

lemma attempts_inv_connect:
  assumes "attempts b = 0" and "io_inv b"
  shows "attempts_inv (BotClient_Connect resolved reconnect b)"
proof -
  let ?s = "bc_next_sock b"
  let ?b = "b\<lparr>bc_state := Connecting, bc_connected := False, bc_read_buffer := [], bc_write_queue := [],
     bc_socket := Some ?s, bc_next_sock := Suc ?s\<rparr>"
  have "\<forall>x \<in> set (map fst (bc_connects b)). x < ?s" using assms(2) by (auto simp: io_inv_def used_socks_def)
  then have "count_list (map fst (bc_connects b)) ?s = 0" by (rule fresh_counts)
  then have zero: "attempts ?b = 0" "attempts (?b\<lparr>bc_connects := bc_connects b @ [(?s, reconnect)]\<rparr>) = 1"
    using assms(1) by (simp_all add: attempts_defs)
  have "attempts (ScheduleTimer d cb (count_stat f ?b)) \<le> 1" for d cb f
    using attempts_schedule_le [of d cb "count_stat f ?b"] attempts_cong [of "count_stat f ?b" ?b] zero(1)
    by (simp add: count_stat_def)
  moreover have "\<not> bc_connected (ScheduleTimer d cb (count_stat f ?b))" for d cb f
    by (simp add: ScheduleTimer_def count_stat_def)
  ultimately show ?thesis using zero assms(1)
    by (auto simp: BotClient_Connect_def Let_def attempts_inv_def)
qed

lemma attempts_remove_timer:
  assumes "(d, cb) \<in> set (bc_timers b)"
  shows "attempts b = attempts (b\<lparr>bc_timers := remove1 (d, cb) (bc_timers b)\<rparr>) + of_bool (is_connect cb)"
proof -
  have "length (filter (is_connect \<circ> snd) xs) = length (filter (is_connect \<circ> snd) (remove1 (d, cb) xs)) + of_bool (is_connect cb)"
    if "(d, cb) \<in> set xs" for xs
    using that by (induction xs) auto
  then show ?thesis using assms by (simp add: attempts_defs split: option.split)
qed

lemma attempts_inv_on_timer:
  assumes inv: "attempts_inv b" and io: "io_inv b" and mem: "(d, cb) \<in> set (bc_timers b)"
  shows "attempts_inv (bot_on_timer env now resolved cb (b\<lparr>bc_timers := remove1 (d, cb) (bc_timers b)\<rparr>))"
proof -
  let ?b = "b\<lparr>bc_timers := remove1 (d, cb) (bc_timers b)\<rparr>"
  note removed = attempts_remove_timer [OF mem]
  have b: "attempts_inv ?b" using inv removed by (auto simp: attempts_inv_def)
  have io': "io_inv ?b" using io io_inv_cong [of ?b b] by (simp add: io_of_def)
  have flow: "attempts_inv (run_callback env now resolved cb ?b)"
    if "cb \<notin> {Do_Heartbeat} \<union> range Do_Connect \<union> range Do_SimulateDisconnect"
    using b that by (rule attempting.flow_callback)
  have "attempts_inv (run_callback env now resolved cb ?b)"
  proof (cases cb)
    case (Do_Connect reconnect)
    then have "attempts ?b = 0" using inv removed by (auto simp: attempts_inv_def split: if_splits)
    then show ?thesis using Do_Connect io' by (simp add: attempts_inv_connect)
  next
    case Do_Heartbeat
    have "attempts_inv (ScheduleTimer e Do_Heartbeat x)" if "attempts_inv x" for e x
      using that by (simp add: attempts_inv_def)
    then show ?thesis using Do_Heartbeat b by (simp add: BotClient_Heartbeat_def attempting.send)
  next
    case (Do_SimulateDisconnect point)
    have "attempts_inv (SimulateDisconnect env point ?b)"
    proof (cases "bc_connected b")
      case True
      then have "connect_timers ?b = 0" using b by (simp add: attempts_inv_def attempts_def)
      then have zero: "attempts (BotClient_CloseSocket (count_stat f (?b\<lparr>reconnect_count := n\<rparr>))) = 0" for f n
        by (simp add: attempts_close) (simp add: connect_timers_def count_stat_def)
      have "attempts_inv (ScheduleReconnect env x)" if "attempts x = 0" "\<not> bc_connected x" for x
      proof -
        have "attempts (snd (JitterMs env e x)) = 0" for e
          using attempts_cong [of "snd (JitterMs env e x)" x] that(1) by (simp add: JitterMs_def RandomUtil_Int_def Let_def)
        then have "attempts (schedule_jitter env e cb x) \<le> 1" for e cb
          using attempts_schedule_le [of "fst (JitterMs env e x)" cb "snd (JitterMs env e x)"] by (simp add: schedule_jitter_def split_beta)
        moreover have "\<not> bc_connected (schedule_jitter env e cb x)" for e cb
          using that(2) io_of_fields(10) [OF io_frame_simps(5)] by metis
        ultimately show ?thesis using that by (auto simp: ScheduleReconnect_def attempts_inv_def)
      qed
      then show ?thesis using b zero attempts_close(2) by (simp add: SimulateDisconnect_def)
    qed (use b in \<open>simp add: SimulateDisconnect_def\<close>)
    then show ?thesis using Do_SimulateDisconnect by simp
  qed (rule flow, force)+
  then show ?thesis using b by (simp add: bot_on_timer_def)
qed

lemma attempts_inv_on_connected:
  assumes inv: "attempts_inv b" and io: "io_inv b" and mem: "(s, reconnect) \<in> set (bc_connects b)"
  shows "attempts_inv (bot_on_connected env ok s reconnect (b\<lparr>bc_connects := remove1 (s, reconnect) (bc_connects b)\<rparr>))"
proof -
  let ?r = "b\<lparr>bc_connects := remove1 (s, reconnect) (bc_connects b)\<rparr>"
  let ?b = "if ok then ?r\<lparr>bc_open := s # bc_open ?r\<rparr> else ?r"
  have le: "attempts ?b \<le> attempts b"
    by (simp add: attempts_defs count_list_remove1_pair [OF mem] split: option.split)
  then have b: "attempts_inv ?b" using inv by (auto simp: attempts_inv_def split: if_splits)
  have zero: "attempts ?b = 0" if cur: "bc_socket b = Some s"
  proof -
    have "1 \<le> count_list (map fst (bc_connects b)) s" using mem count_list_pos [of s "map fst (bc_connects b)"] by force
    moreover have "connect_timers b + count_list (map fst (bc_connects b)) s \<le> 1"
      using inv cur by (auto simp: attempts_inv_def attempts_def connects_pending_def split: if_splits)
    moreover have "connect_timers ?b = connect_timers b" by (simp add: connect_timers_def)
    ultimately show ?thesis using cur count_list_remove1_pair [OF mem, of s]
      by (simp add: attempts_def connects_pending_def)
  qed
  have "attempts_inv (ScheduleTimer d cb (count_stat f ?b))" if "bc_socket b = Some s" "\<not> ok" for d cb f
  proof -
    have "1 \<le> count_list (map fst (bc_connects b)) s" using mem count_list_pos [of s "map fst (bc_connects b)"] by force
    then have "\<not> bc_connected b" using inv that(1) by (auto simp: attempts_defs split: if_splits)
    then show ?thesis
      using zero [OF that(1)] that(2) attempts_schedule_le [of d cb "count_stat f ?b"] attempts_cong [of "count_stat f ?b" ?b]
      by (simp add: attempts_inv_def count_stat_def)
  qed
  moreover have "attempts_inv (BotClient_DoRead s (send_request env mid r (count_stat f (?b\<lparr>bc_connected := True\<rparr>))))"
    if "bc_socket b = Some s" for mid r f
    using zero [OF that] attempts_cong [of "BotClient_DoRead s (send_request env mid r (count_stat f (?b\<lparr>bc_connected := True\<rparr>)))" ?b]
    by (simp add: attempts_inv_def BotClient_DoRead_def count_stat_def send_request_def SendPacket_def Let_def)
  ultimately show ?thesis using b
    by (auto simp: bot_on_connected_def Let_def BotClient_Reconnect_def BotClient_Login_def)
qed

lemma attempts_inv_on_read:
  assumes "attempts_inv b"
  shows "attempts_inv (bot_on_read env result s b)"
proof -
  have b: "attempts_inv (b\<lparr>bc_read_buffer := rest\<rparr>)" for rest by (rule attempts_inv_cong [OF assms]) simp_all
  have "attempts_inv (BotClient_DoRead s (fold (BotClient_OnMessage env) ps (b\<lparr>bc_read_buffer := rest\<rparr>)))" for ps rest
    by (rule attempts_inv_cong [OF attempting.OnMessages [OF b]]) (simp_all add: BotClient_DoRead_def)
  moreover have "attempts_inv (b\<lparr>bc_connected := False\<rparr>)"
    using assms attempts_cong [of "b\<lparr>bc_connected := False\<rparr>" b] by (auto simp: attempts_inv_def split: if_splits)
  ultimately show ?thesis using assms attempts_inv_close [OF b]
    by (simp add: bot_on_read_def split: option.split decode_result.split)
qed

lemma attempts_inv_on_written:
  assumes "attempts_inv b"
  shows "attempts_inv (bot_on_written ok s b)"
proof -
  have "attempts_inv (BotClient_DoWrite x (b\<lparr>bc_write_queue := rest, bc_wire := w\<rparr>))"
      "attempts_inv (b\<lparr>bc_write_queue := rest, bc_wire := w\<rparr>)" for x rest w
    by (rule attempts_inv_cong [OF assms], simp_all add: BotClient_DoWrite_def split: option.split)+
  then show ?thesis using assms attempts_inv_close [OF assms]
    by (simp add: bot_on_written_def Let_def split: list.split)
qed

lemma attempts_inv_run_send:
  assumes "attempts_inv b" and "run_send p b = Inr b'"
  shows "attempts_inv b'"
proof -
  have "attempts_inv (push_frame s bytes b)" for s bytes
    by (rule attempts_inv_cong [OF assms(1)]) (simp_all add: push_frame_def Let_def)
  then show ?thesis using run_send_cases [OF assms(2)] assms(1) by blast
qed

lemma attempts_inv_step: "bot_step env e b b' \<Longrightarrow> io_inv b \<Longrightarrow> attempts_inv b \<Longrightarrow> attempts_inv b'"
proof (induction rule: bot_step.induct)
  case (Run_send b p ps b')
  have "attempts_inv (b\<lparr>bc_posts := ps\<rparr>)" by (rule attempts_inv_cong [OF Run_send(5)]) simp_all
  then show ?case using Run_send(3) by (rule attempts_inv_run_send)
next
  case (Run_close b ps)
  show ?case by (rule attempts_inv_close) (rule attempts_inv_cong [OF Run_close(4)], simp_all)
next
  case (Timer b d cb now resolved)
  then show ?case by (intro attempts_inv_on_timer)
next
  case (Connected b s reconnect ok)
  then show ?case by (intro attempts_inv_on_connected)
next
  case (Read b s result)
  show ?case by (rule attempts_inv_on_read) (rule attempts_inv_cong [OF Read(4)], simp_all)
next
  case (Written b s ok)
  show ?case by (rule attempts_inv_on_written) (rule attempts_inv_cong [OF Written(4)], simp_all)
next
  case (Stop_request b)
  show ?case by (rule attempts_inv_cong [OF Stop_request(2)]) (simp_all add: BotClient_Stop_request_def)
next
  case (Stop_join b)
  show ?case by (rule attempts_inv_cong [OF Stop_join(3)]) (simp_all add: BotClient_Stop_join_def)
qed

lemma attempts_inv_reach: "bot_reach env index options stats b \<Longrightarrow> io_inv b \<and> attempts_inv b"
proof (erule bot_reach_invariant [where I = "\<lambda>b. io_inv b \<and> attempts_inv b"])
  fix resolved
  let ?b = "(BotClient_new index options stats)\<lparr>bc_running := True\<rparr>"
  have "attempts ?b = 0" "io_inv ?b"
    by (simp_all add: attempts_defs io_inv_def used_socks_def BotClient_new_def)
  then have "attempts_inv (BotClient_Start resolved (BotClient_new index options stats))"
    by (simp add: BotClient_Start_def attempts_inv_connect) (simp add: BotClient_new_def)
  then show "io_inv (BotClient_Start resolved (BotClient_new index options stats)) \<and>
    attempts_inv (BotClient_Start resolved (BotClient_new index options stats))" using io_inv_start by blast
qed (use io_inv_step attempts_inv_step in blast)

subsection \<open>A lost connection\<close>

text \<open>The three ways in which a client loses its connection without having asked for it.\<close>

inductive bot_loses_connection :: "'f bot_env \<Rightarrow> BotClient \<Rightarrow> BotClient \<Rightarrow> bool" for env where
  Read_error: "s \<in> set (bc_reads b) \<Longrightarrow> bc_socket b = Some s \<Longrightarrow>
     bot_loses_connection env b (bot_on_read env None s (b\<lparr>bc_reads := remove1 s (bc_reads b)\<rparr>))"
| Bad_frame: "s \<in> set (bc_reads b) \<Longrightarrow> bc_socket b = Some s \<Longrightarrow>
     Decode (bc_read_buffer b @ bytes) = DecodeThrow e rest \<Longrightarrow>
     bot_loses_connection env b (bot_on_read env (Some bytes) s (b\<lparr>bc_reads := remove1 s (bc_reads b)\<rparr>))"
| Write_error: "s \<in> set (bc_writes b) \<Longrightarrow> bc_socket b = Some s \<Longrightarrow>
     bot_loses_connection env b (bot_on_written False s (b\<lparr>bc_writes := remove1 s (bc_writes b)\<rparr>))"

text \<open>
  A client that is not connected and is not connecting, with the frames that may still reach the wire:
  those of the list \<open>frames\<close>.
\<close>

definition stranded :: "byte list list \<Rightarrow> BotClient \<Rightarrow> bool" where
  "stranded frames b \<longleftrightarrow> \<not> bc_connected b \<and> attempts b = 0 \<and>
     prefix (map snd (bc_wire b) @ bc_write_queue b) frames"

lemma stranded_cong:
  assumes "stranded frames b" "bc_timers b' = bc_timers b" "bc_socket b' = bc_socket b" "bc_connects b' = bc_connects b"
    and "bc_connected b' = bc_connected b" "bc_wire b' = bc_wire b" "bc_write_queue b' = bc_write_queue b"
  shows "stranded frames b'"
  using assms(1) attempts_cong [OF assms(2-4)] assms(5-7) by (simp add: stranded_def)

lemma stranded_schedule: "stranded frames b \<Longrightarrow> \<not> is_connect cb \<Longrightarrow> stranded frames (ScheduleTimer d cb b)"
  by (simp add: stranded_def) (simp add: ScheduleTimer_def)

interpretation stranding: bot_stable env "stranded frames" for env frames
proof
  fix b :: BotClient and d cb mid and r :: "'a bot_request"
  assume b: "stranded frames b"
  show "stranded frames (ScheduleTimer d cb b)" if "game_callback cb" using b that by (simp add: stranded_schedule)
  show "stranded frames (send_request env mid r b)"
    by (rule stranded_cong [OF b]) (simp_all add: send_request_def SendPacket_def Let_def)
  have "stranded frames (b\<lparr>heartbeat_started := True\<rparr>)" by (rule stranded_cong [OF b]) simp_all
  then show "stranded frames (ScheduleHeartbeat b)" using b by (simp add: ScheduleHeartbeat_def stranded_schedule)
  show "stranded frames b'" if "core b' = core b" for b'
    by (rule stranded_cong [OF b]) (use that in \<open>simp_all add: core_def\<close>)
  show "stranded frames (b\<lparr>bc_draws := bc_draws b @ [(lo, hi)]\<rparr>)" "stranded frames (b\<lparr>reconnect_count := 0\<rparr>)" for lo hi
    by (rule stranded_cong [OF b], simp_all)+
qed

lemma stranded_close:
  assumes "stranded frames b"
  shows "stranded frames (BotClient_CloseSocket b)"
proof -
  have "prefix (map snd (bc_wire b)) frames" using assms by (auto simp: stranded_def dest: append_prefixD)
  moreover have "connect_timers b = 0" using assms by (simp add: stranded_def attempts_def)
  ultimately show ?thesis
    by (simp add: stranded_def attempts_close) (simp add: BotClient_CloseSocket_def Let_def split: option.split)
qed

lemma stranded_step: "bot_step env e b b' \<Longrightarrow> stranded frames b \<Longrightarrow> stranded frames b'"
proof (induction rule: bot_step.induct)
  case (Run_send b p ps b')
  have "\<not> bc_connected b" using Run_send(4) by (simp add: stranded_def)
  then have "b' = b\<lparr>bc_posts := ps\<rparr>" using run_send_cases [OF Run_send(3)] by simp
  then show ?case by (simp add: stranded_cong [OF Run_send(4)])
next
  case (Run_close b ps)
  show ?case by (rule stranded_close) (rule stranded_cong [OF Run_close(3)], simp_all)
next
  case (Timer b d cb now resolved)
  let ?b = "b\<lparr>bc_timers := remove1 (d, cb) (bc_timers b)\<rparr>"
  have "\<not> is_connect cb" and b: "stranded frames ?b"
    using Timer(3) attempts_remove_timer [OF Timer(2)] by (simp_all add: stranded_def)
  have "stranded frames (run_callback env now resolved cb ?b)"
  proof (cases cb)
    case Do_Heartbeat
    then show ?thesis using b by (simp add: BotClient_Heartbeat_def stranded_schedule stranding.send)
  next
    case (Do_SimulateDisconnect point)
    then show ?thesis using b by (simp add: SimulateDisconnect_def) (simp add: stranded_def)
  qed (use \<open>\<not> is_connect cb\<close> in simp, (rule stranding.flow_callback [OF b], force)+)
  then show ?case using b by (simp add: bot_on_timer_def)
next
  case (Connected b s reconnect ok)
  have "1 \<le> count_list (map fst (bc_connects b)) s" using Connected(2) count_list_pos [of s "map fst (bc_connects b)"] by force
  then have other: "bc_socket b \<noteq> Some s" using Connected(3) by (auto simp: stranded_def attempts_def connects_pending_def)
  then have "attempts (b\<lparr>bc_connects := remove1 (s, reconnect) (bc_connects b)\<rparr>) = attempts b"
    by (simp add: attempts_defs count_list_remove1_pair [OF Connected(2)] split: option.split)
  then have "stranded frames (b\<lparr>bc_connects := remove1 (s, reconnect) (bc_connects b)\<rparr>)"
    using Connected(3) by (simp add: stranded_def)
  then have "stranded frames (b\<lparr>bc_connects := remove1 (s, reconnect) (bc_connects b)\<rparr>)"
    "stranded frames (b\<lparr>bc_connects := remove1 (s, reconnect) (bc_connects b), bc_open := s # bc_open b\<rparr>)"
    by (simp_all add: stranded_cong)
  then show ?case using other by (auto simp: bot_on_connected_def Let_def)
next
  case (Read b s result)
  have b: "stranded frames (b\<lparr>bc_reads := remove1 s (bc_reads b), bc_read_buffer := rest\<rparr>)"
    "stranded frames (b\<lparr>bc_reads := remove1 s (bc_reads b)\<rparr>)" for rest
    by (rule stranded_cong [OF Read(3)], simp_all)+
  have "stranded frames (BotClient_DoRead s (fold (BotClient_OnMessage env) ps
      (b\<lparr>bc_reads := remove1 s (bc_reads b), bc_read_buffer := rest\<rparr>)))" for ps rest
    by (rule stranded_cong [OF stranding.OnMessages [OF b(1)]]) (simp_all add: BotClient_DoRead_def)
  moreover have "stranded frames (b\<lparr>bc_reads := remove1 s (bc_reads b), bc_connected := False\<rparr>)"
    by (rule stranded_cong [OF Read(3)]) (use Read(3) in \<open>simp_all add: stranded_def\<close>)
  ultimately show ?case using b stranded_close [OF b(1)]
    by (simp add: bot_on_read_def split: option.split decode_result.split)
next
  case (Written b s ok)
  have b: "stranded frames (b\<lparr>bc_writes := remove1 s (bc_writes b)\<rparr>)" by (rule stranded_cong [OF Written(3)]) simp_all
  have w: "stranded frames (BotClient_DoWrite x y)" if "stranded frames y" for x y
    by (rule stranded_cong [OF that]) (simp_all add: BotClient_DoWrite_def split: option.split)
  have "stranded frames (b\<lparr>bc_writes := remove1 s (bc_writes b), bc_write_queue := rest, bc_wire := bc_wire b @ [(s, bytes)]\<rparr>)"
    if "bc_write_queue b = bytes # rest" for bytes rest
    using Written(3) that attempts_cong [of "b\<lparr>bc_writes := remove1 s (bc_writes b), bc_write_queue := rest, bc_wire := bc_wire b @ [(s, bytes)]\<rparr>" b]
    by (simp add: stranded_def)
  then show ?case using b w stranded_close [OF b]
    by (simp add: bot_on_written_def Let_def split: list.split)
next
  case (Stop_request b)
  show ?case by (rule stranded_cong [OF Stop_request]) (simp_all add: BotClient_Stop_request_def)
next
  case (Stop_join b)
  show ?case by (rule stranded_cong [OF Stop_join(2)]) (simp_all add: BotClient_Stop_join_def)
qed

lemma stranded_run: "bot_run env b b' \<Longrightarrow> stranded frames b \<Longrightarrow> stranded frames b'"
  by (erule bot_run_invariant [where I = "stranded frames"]) (auto intro: stranded_step)

lemma loses_connection_stranded:
  assumes "bot_loses_connection env b b'" and "bc_running b" "bc_connected b" "attempts_inv b"
  shows "stranded (map snd (bc_wire b') @ bc_write_queue b') b'"
proof -
  have zero: "attempts b = 0" using assms(3,4) by (simp add: attempts_inv_def)
  then have close: "stranded (map snd (bc_wire x) @ bc_write_queue x) x" if "x = BotClient_CloseSocket y" "connect_timers y = connect_timers b" for x y
    using that attempts_close [of y] by (simp add: stranded_def attempts_def)
  show ?thesis using assms(1)
  proof cases
    case (Read_error s)
    have "attempts b' = 0" "\<not> bc_connected b'" using zero attempts_cong [of b' b] assms(2) Read_error
      by (simp_all add: bot_on_read_def)
    then show ?thesis by (simp add: stranded_def)
  next
    case (Bad_frame s bytes e rest)
    have "b' = BotClient_CloseSocket (b\<lparr>bc_reads := remove1 s (bc_reads b), bc_read_buffer := rest\<rparr>)"
      using assms(2) Bad_frame by (simp add: bot_on_read_def)
    then show ?thesis by (rule close) (simp add: connect_timers_def)
  next
    case (Write_error s)
    have "b' = BotClient_CloseSocket (b\<lparr>bc_writes := remove1 s (bc_writes b)\<rparr>)"
      using assms(2) Write_error by (simp add: bot_on_written_def)
    then show ?thesis by (rule close) (simp add: connect_timers_def)
  qed
qed

end
