(* ===== verification/Bot_Properties.thy ===== *)
theory Bot_Properties
  imports Bot_Reconnect
begin

text \<open>
  What the client of the load generator guarantees in every reachable state, and a concrete client with
  a short run.
\<close>

subsection \<open>A run\<close>

text \<open>A client whose messages have empty bodies and whose random numbers are the lower bounds.\<close>

definition quiet_env :: "unit bot_env" where
  "quiet_env = \<lparr>serialize = (\<lambda>r. []), login_resp = (\<lambda>bs. Some (0, 7, ''tok'')), reconnect_resp = (\<lambda>bs. Some (0, 0)),
     match_resp = (\<lambda>bs. Some 0), match_success_notify = (\<lambda>bs. Some 5), room_state_notify = (\<lambda>bs. Some (5, 2)),
     rng_int = (\<lambda>k lo hi. lo), rng_float = (\<lambda>k. ())\<rparr>"

definition started :: BotClient where
  "started = BotClient_Start True (BotClient_new 3 BotOptions_default (Some BotStats_new))"

text \<open>Connected, with the login request posted.\<close>

definition online :: BotClient where
  "online = bot_on_connected quiet_env True 0 False (started\<lparr>bc_connects := []\<rparr>)"

lemma online_simps [simp]:
  "bc_running online" "bc_connected online" "bc_socket online = Some 0" "bc_reads online = [0]"
  "bc_built online = [Build (msg_value MSG_LOGIN_REQ) [] 1]" "bc_write_queue online = []" "bc_wire online = []"
  "bc_draws online = []" "bc_timers online = []" "reconnect_count online = 0" "\<not> heartbeat_started online"
  "bc_read_buffer online = []" "bc_stopped online = False" "bc_connects online = []" "bc_options online = BotOptions_default"
  "bc_player_id online = 0" "bc_room_id online = 0"
  by (simp_all add: online_def started_def bot_on_connected_def BotClient_Start_def BotClient_Connect_def BotClient_new_def
      BotClient_Login_def BotClient_DoRead_def send_request_def SendPacket_def count_stat_def quiet_env_def Let_def)

lemma online_reach: "bot_reach quiet_env 3 BotOptions_default (Some BotStats_new) online"
proof -
  have "bot_step quiet_env Bot_quiet started (bot_on_connected quiet_env True 0 False
      (started\<lparr>bc_connects := remove1 (0, False) (bc_connects started)\<rparr>))"
    by (rule bot_step.Connected) (simp_all add: started_def BotClient_Start_def BotClient_Connect_def BotClient_new_def Let_def)
  moreover have "started\<lparr>bc_connects := remove1 (0, False) (bc_connects started)\<rparr> = started\<lparr>bc_connects := []\<rparr>"
    by (simp add: started_def BotClient_Start_def BotClient_Connect_def BotClient_new_def Let_def)
  ultimately have "bot_run quiet_env started online"
    by (metis bot_run.Start bot_run.Step online_def)
  then show ?thesis unfolding bot_reach_def started_def by blast
qed

text \<open>The login request is on the wire.\<close>

definition login_request :: Packet where
  "login_request = Build (msg_value MSG_LOGIN_REQ) [] 1"

definition login_sent :: BotClient where
  "login_sent = bot_on_written True 0 ((push_frame 0 (encoded login_request) (online\<lparr>bc_posts := []\<rparr>))\<lparr>bc_writes := []\<rparr>)"

lemma online_pending: "bc_posts online = [Post_Send login_request]" "bc_writes online = []" "bc_open online = [0]"
  by (simp_all add: login_request_def online_def started_def bot_on_connected_def BotClient_Start_def BotClient_Connect_def BotClient_new_def
      BotClient_Login_def BotClient_DoRead_def send_request_def SendPacket_def count_stat_def quiet_env_def Let_def)

lemma login_sent_reach: "bot_reach quiet_env 3 BotOptions_default (Some BotStats_new) login_sent"
proof -
  let ?b = "push_frame 0 (encoded login_request) (online\<lparr>bc_posts := []\<rparr>)"
  have "Encode login_request = Inr (encoded login_request)" by (simp add: Encode_eq fits_def login_request_def Build_def)
  then have "run_send login_request (online\<lparr>bc_posts := []\<rparr>) = Inr ?b"
    by (simp add: run_send_def online_pending push_frame_def BotClient_DoWrite_def Let_def)
  then have "bot_step quiet_env (send_event login_request online) online ?b" by (intro bot_step.Run_send) (simp_all add: online_pending)
  moreover have "bot_step quiet_env Bot_quiet ?b (bot_on_written True 0 (?b\<lparr>bc_writes := remove1 0 (bc_writes ?b)\<rparr>))"
    by (rule bot_step.Written) (simp_all add: push_frame_def online_pending Let_def)
  moreover have "remove1 0 (bc_writes ?b) = []" by (simp add: push_frame_def online_pending Let_def)
  ultimately show ?thesis using online_reach unfolding bot_reach_def login_sent_def by (metis bot_run.Step)
qed

lemma login_sent_simps [simp]:
  "bc_wire login_sent = [(0, encoded login_request)]" "bc_write_queue login_sent = []" "bc_built login_sent = [login_request]"
  by (simp_all add: login_sent_def bot_on_written_def push_frame_def Let_def login_request_def)

text \<open>The server has answered the login: the heartbeat and the first match request are scheduled.\<close>

definition logged_in :: BotClient where
  "logged_in = bot_on_read quiet_env (Some (encoded (Build (msg_value MSG_LOGIN_RESP) [] 0))) 0 (online\<lparr>bc_reads := []\<rparr>)"

lemma logged_in_reach: "bot_reach quiet_env 3 BotOptions_default (Some BotStats_new) logged_in"
proof -
  have "bot_step quiet_env (read_event 0 (Some bs)) online (bot_on_read quiet_env (Some bs) 0 (online\<lparr>bc_reads := remove1 0 (bc_reads online)\<rparr>))" for bs
    by (rule bot_step.Read) simp_all
  then show ?thesis using online_reach unfolding bot_reach_def logged_in_def by (metis bot_run.Step online_simps(4) remove1.simps)
qed

lemma logged_in_simps [simp]:
  "bc_draws logged_in = [(0, 800)]" "map snd (bc_timers logged_in) = [Do_Heartbeat, Do_Match]" "heartbeat_started logged_in"
  "bc_options logged_in = BotOptions_default" "bc_running logged_in"
proof -
  let ?p = "Build (msg_value MSG_LOGIN_RESP) [] 0"
  have "fits ?p" by (simp add: fits_def Build_def)
  then have "Decode (encoded ?p) = Decoded [wire ?p] []"
    using Decode_encoded_append [of ?p "[]"] by (simp add: Decode_head head_frame_def)
  then have l: "logged_in = BotClient_DoRead 0 (BotClient_OnMessage quiet_env (wire ?p) (online\<lparr>bc_reads := [], bc_read_buffer := []\<rparr>))"
    by (simp add: logged_in_def bot_on_read_def)
  show "bc_draws logged_in = [(0, 800)]" "map snd (bc_timers logged_in) = [Do_Heartbeat, Do_Match]" "heartbeat_started logged_in"
    "bc_options logged_in = BotOptions_default" "bc_running logged_in"
    by (simp_all add: l BotClient_DoRead_def BotClient_OnMessage_def wire_def Build_def HandleLoginResponse_def quiet_env_def
        count_stat_def ScheduleHeartbeat_def ScheduleTimer_def schedule_jitter_def JitterMs_def RandomUtil_Int_def Let_def
        BotOptions_default_def)
qed

subsection \<open>Properties\<close>

text \<open>C18. The client uses Asio within its rules: in every reachable state at most one write and at most one read
  or connect is in flight on the current socket, a write exactly while frames are queued and a read exactly
  while it is connected; when connected, the socket exists and is open; and at most one attempt to
  connect, as a timer or in flight, is in progress, none while connected.\<close>

theorem bot_connection_discipline:
  assumes "bot_reach env index options stats b"
  shows "(bc_connected b \<longrightarrow> (\<exists>s. bc_socket b = Some s \<and> s \<in> set (bc_open b))) \<and>
    (\<forall>s. bc_socket b = Some s \<longrightarrow>
       count_list (bc_writes b) s \<le> 1 \<and>
       count_list (bc_reads b) s + count_list (map fst (bc_connects b)) s \<le> 1 \<and>
       (bc_running b \<longrightarrow> (s \<in> set (bc_writes b) \<longleftrightarrow> bc_write_queue b \<noteq> []) \<and>
          (s \<in> set (bc_reads b) \<longleftrightarrow> bc_connected b))) \<and>
    attempts b \<le> (if bc_connected b then 0 else 1)"
proof -
  have inv: "io_inv b" "attempts_inv b" using attempts_inv_reach [OF assms] by auto
  have mem: "s \<in> set xs \<longleftrightarrow> p" if "count_list xs s = of_bool p" for s :: nat and xs p
    using that count_list_0_iff [of xs s] by (cases p) auto
  show ?thesis
  proof (cases "bc_socket b")
    case None
    then show ?thesis using inv by (simp add: io_inv_def attempts_inv_def)
  next
    case (Some s)
    then have c: "current_inv s b" using inv(1) by (simp add: io_inv_def)
    then have "(s \<in> set (bc_writes b) \<longleftrightarrow> bc_write_queue b \<noteq> []) \<and> (s \<in> set (bc_reads b) \<longleftrightarrow> bc_connected b)" if "bc_running b"
      using that mem unfolding current_inv_def by blast
    then show ?thesis using Some c inv(2) by (simp add: current_inv_def attempts_inv_def)
  qed
qed

theorem bot_connection_discipline_witness: "bc_connected online \<and> attempts online = 0 \<and> 0 \<in> set (bc_reads online)"
  using bot_connection_discipline [OF online_reach] by simp

text \<open>C19. Requests reach the wire in order: whatever connections were lost and opened, the frames written so far
  and those queued are the encodings of a subsequence of the packets the client built, whose sequence
  numbers are 1, 2, 3 and so on, and the frames of an earlier socket come before those of a later one.\<close>

theorem bot_requests_in_order:
  assumes "bot_reach env index options stats b"
  shows "(\<exists>sent. subseq sent (bc_built b) \<and> map Encode sent = map Inr (map snd (bc_wire b) @ bc_write_queue b)) \<and>
    map seq (bc_built b) = map of_nat [1..<Suc (length (bc_built b))] \<and>
    sorted (map fst (bc_wire b))"
proof -
  have t: "trail_inv b" using assms by (rule trail_inv_reach)
  then obtain sent where s: "subseq (sent @ sends (bc_posts b)) (bc_built b)"
      "map Encode sent = map Inr (map snd (bc_wire b) @ bc_write_queue b)"
    unfolding trail_inv_def by blast
  have "subseq sent (sent @ sends (bc_posts b))" by (rule prefix_imp_subseq) simp
  then have "subseq sent (bc_built b)" using s(1) by (rule subseq_order.order_trans)
  then show ?thesis using s(2) t io_inv_reach [OF assms] unfolding trail_inv_def io_inv_def by blast
qed

theorem bot_requests_in_order_witness:
  "\<exists>b. bot_reach quiet_env 3 BotOptions_default (Some BotStats_new) b \<and> map fst (bc_wire b) = [0] \<and>
     (\<exists>sent. subseq sent [login_request] \<and> map Encode sent = map Inr (map snd (bc_wire b)))"
proof -
  have r: "bot_reach quiet_env 3 BotOptions_default (Some BotStats_new) login_sent" by (rule login_sent_reach)
  show ?thesis using bot_requests_in_order [OF r] r by (intro exI [of _ login_sent]) simp
qed

text \<open>C35. Nothing the client computes leaves its range: with options whose delays and jitter add up within
  \<open>int\<close>, every call of the random generator has a non-empty range of non-negative numbers, every
  delay is an \<open>int\<close> that is not negative; the simulated disconnects of a round never exceed
  \<open>max_reconnects\<close>; and a running client that started its heartbeat has exactly one heartbeat timer.\<close>

theorem bot_limits:
  assumes "bot_reach env index options stats b" and "rng_ok env" and "options_ok (bc_options b)"
  shows "(\<forall>(lo, hi) \<in> set (bc_draws b). 0 \<le> lo \<and> lo \<le> hi \<and> hi < 2 ^ 31) \<and>
    (\<forall>(d, cb) \<in> set (bc_timers b). 0 \<le> d \<and> d < 2 ^ 31) \<and>
    0 \<le> reconnect_count b \<and> reconnect_count b \<le> max 0 (max_reconnects (bc_options b)) \<and>
    (bc_running b \<longrightarrow> heartbeat_timers b = (if heartbeat_started b then 1 else 0))"
  using limits_inv_reach [OF assms(1)] assms(2,3)
  by (auto simp: limits_inv_def sound_def draw_ok_def of_bool_def)

text \<open>C36. A connection that the client did not close itself is never replaced: after a read error, a bad frame
  or a write error it is not connected in any later state, and nothing reaches a socket beyond the
  frames that were already queued.\<close>

theorem bot_lost_connection_is_final:
  assumes "bot_reach env index options stats b" and "bc_running b" "bc_connected b"
    and "bot_loses_connection env b b1" and "bot_run env b1 b2"
  shows "\<not> bc_connected b2 \<and> attempts b2 = 0 \<and>
    prefix (map snd (bc_wire b2) @ bc_write_queue b2) (map snd (bc_wire b1) @ bc_write_queue b1)"
proof -
  have "stranded (map snd (bc_wire b1) @ bc_write_queue b1) b1"
    using loses_connection_stranded [OF assms(4)] assms(2,3) attempts_inv_reach [OF assms(1)] by blast
  with assms(5) have "stranded (map snd (bc_wire b1) @ bc_write_queue b1) b2" by (rule stranded_run)
  then show ?thesis by (simp add: stranded_def)
qed

theorem bot_limits_witness:
  "\<exists>b. bot_reach quiet_env 3 BotOptions_default (Some BotStats_new) b \<and> bc_draws b = [(0, 800)] \<and> heartbeat_timers b = 1 \<and>
     (\<forall>(d, cb) \<in> set (bc_timers b). 0 \<le> d \<and> d < 2 ^ 31)"
proof -
  have h: "rng_ok quiet_env" "options_ok (bc_options logged_in)"
    by (simp_all add: rng_ok_def quiet_env_def options_ok_def BotOptions_default_def in_i32_def)
  show ?thesis using bot_limits [OF logged_in_reach h] logged_in_reach by (intro exI [of _ logged_in]) simp
qed

theorem bot_lost_connection_is_final_witness:
  "\<exists>b1. bot_loses_connection quiet_env online b1 \<and> bot_run quiet_env b1 b1 \<and> \<not> bc_connected b1 \<and> attempts b1 = 0"
proof -
  let ?b1 = "bot_on_read quiet_env None 0 (online\<lparr>bc_reads := remove1 0 (bc_reads online)\<rparr>)"
  have l: "bot_loses_connection quiet_env online ?b1" by (rule Read_error) simp_all
  have r: "bot_run quiet_env ?b1 ?b1" by (rule bot_run.Start)
  show ?thesis using bot_lost_connection_is_final [OF online_reach _ _ l r] l r by auto
qed

end
