(* ===== verification/Bot_Main.thy ===== *)
theory Bot_Main
  imports Bot_Client
begin

text \<open>
  The program of the load generator: \<open>src/bot/bot_manager.h\<close>, \<open>bot_manager.cpp\<close> and \<open>bot_main.cpp\<close>.
  The command line is a list of strings without the program's name.  \<open>BotStats\<close> is one shared object:
  the manager holds its contents, and a client works on them while it runs a handler.
\<close>

subsection \<open>The command line\<close>

record bot_args =
  ba_host :: string
  ba_port :: "16 word"
  ba_count :: i32
  ba_duration :: i32
  ba_options :: BotOptions

definition bot_args_default :: bot_args where
  "bot_args_default = \<lparr>ba_host = ''127.0.0.1'', ba_port = 9000, ba_count = 100, ba_duration = 0,
     ba_options = BotOptions_default\<rparr>"

text \<open>How the loop over the arguments ends: the load starts, \<open>--help\<close> returns 0, an unknown or incomplete
  option returns 1, or an exception of \<open>stoi\<close> leaves \<open>main\<close>.\<close>

datatype args_result = Run_with bot_args | Help | Bad_option string | Uncaught cpp_exception

definition int_option :: "string \<Rightarrow> (i32 \<Rightarrow> bot_args) \<Rightarrow> (cpp_exception + bot_args) option" where
  "int_option v f = Some (case stoi v of Inl e \<Rightarrow> Inl e | Inr n \<Rightarrow> Inr (f n))"

abbreviation on_options :: "(BotOptions \<Rightarrow> BotOptions) \<Rightarrow> bot_args \<Rightarrow> bot_args" where
  "on_options f a \<equiv> a\<lparr>ba_options := f (ba_options a)\<rparr>"

text \<open>The options with a value; \<open>None\<close> for any other argument.\<close>

definition apply_option :: "string \<Rightarrow> string \<Rightarrow> bot_args \<Rightarrow> (cpp_exception + bot_args) option" where
  "apply_option arg v a =
     (if arg = ''--host'' then Some (Inr (a\<lparr>ba_host := v\<rparr>))
      else if arg = ''--port'' then int_option v (\<lambda>n. a\<lparr>ba_port := word_of_int n\<rparr>)
      else if arg = ''--count'' then int_option v (\<lambda>n. a\<lparr>ba_count := n\<rparr>)
      else if arg = ''--duration'' then int_option v (\<lambda>n. a\<lparr>ba_duration := n\<rparr>)
      else if arg = ''--cancel-match-percent'' then int_option v (\<lambda>n. on_options (cancel_match_percent_update (\<lambda>_. n)) a)
      else if arg = ''--queue-disconnect-percent'' then int_option v (\<lambda>n. on_options (queue_disconnect_percent_update (\<lambda>_. n)) a)
      else if arg = ''--room-disconnect-percent'' then int_option v (\<lambda>n. on_options (room_disconnect_percent_update (\<lambda>_. n)) a)
      else if arg = ''--playing-disconnect-percent''
        then int_option v (\<lambda>n. on_options (playing_disconnect_percent_update (\<lambda>_. n)) a)
      else if arg = ''--ready-toggle-percent'' then int_option v (\<lambda>n. on_options (ready_toggle_percent_update (\<lambda>_. n)) a)
      else if arg = ''--max-reconnects'' then int_option v (\<lambda>n. on_options (max_reconnects_update (\<lambda>_. n)) a)
      else if arg = ''--reconnect-delay-ms'' then int_option v (\<lambda>n. on_options (reconnect_delay_ms_update (\<lambda>_. n)) a)
      else if arg = ''--rematch-delay-ms'' then int_option v (\<lambda>n. on_options (rematch_delay_ms_update (\<lambda>_. n)) a)
      else if arg = ''--action-jitter-ms'' then int_option v (\<lambda>n. on_options (action_jitter_ms_update (\<lambda>_. n)) a)
      else if arg = ''--heartbeat-interval-ms'' then int_option v (\<lambda>n. on_options (heartbeat_interval_ms_update (\<lambda>_. n)) a)
      else if arg = ''--input-interval-ms'' then int_option v (\<lambda>n. on_options (input_interval_ms_update (\<lambda>_. n)) a)
      else None)"

fun parse_args :: "bot_args \<Rightarrow> string list \<Rightarrow> args_result" where
  "parse_args a [] = Run_with a"
| "parse_args a [arg] =
     (if arg = ''--help'' then Help
      else if arg = ''--verbose'' then Run_with (on_options (verbose_update (\<lambda>_. True)) a)
      else Bad_option arg)"
| "parse_args a (arg # v # rest) =
     (if arg = ''--help'' then Help
      else case apply_option arg v a of
        Some (Inr a') \<Rightarrow> parse_args a' rest
      | Some (Inl e) \<Rightarrow> Uncaught e
      | None \<Rightarrow>
          if arg = ''--verbose'' then parse_args (on_options (verbose_update (\<lambda>_. True)) a) (v # rest)
          else Bad_option arg)"

subsection \<open>The manager\<close>

record BotManager =
  bm_host :: string
  bm_port :: "16 word"
  bm_options :: BotOptions
  bm_stats :: BotStats
  bm_bots :: "BotClient list"

definition BotManager_new :: "string \<Rightarrow> 16 word \<Rightarrow> BotOptions \<Rightarrow> BotManager" where
  "BotManager_new host port options = \<lparr>bm_host = host, bm_port = port, bm_options = options, bm_stats = BotStats_new, bm_bots = []\<rparr>"

text \<open>A client runs a handler on the shared counters.\<close>

definition with_stats :: "(BotClient \<Rightarrow> BotClient) \<Rightarrow> BotStats \<times> BotClient \<Rightarrow> BotStats \<times> BotClient" where
  "with_stats f = (\<lambda>(st, b).
     let b' = f (b\<lparr>bc_stats := Some st\<rparr>) in (case bc_stats b' of None \<Rightarrow> st | Some st' \<Rightarrow> st', b'))"

text \<open>One iteration of \<open>Start\<close>; \<open>resolved i\<close> tells whether the client \<open>i\<close> resolves the host.\<close>

definition start_bot :: "(nat \<Rightarrow> bool) \<Rightarrow> nat \<Rightarrow> BotManager \<Rightarrow> BotManager" where
  "start_bot resolved i m =
     (let bot = BotClient_new (int i) (bm_options m) (Some (bm_stats m));
          (st, bot) = with_stats (BotClient_Start (resolved i)) (bm_stats m, bot)
      in m\<lparr>bm_stats := st, bm_bots := bm_bots m @ [bot]\<rparr>)"

text \<open>\<open>None\<close> is the \<open>std::length_error\<close> of \<open>reserve\<close>, which nothing catches: a negative count becomes a huge
  \<open>size_t\<close>.\<close>

definition BotManager_Start :: "(nat \<Rightarrow> bool) \<Rightarrow> i32 \<Rightarrow> BotManager \<Rightarrow> BotManager option" where
  "BotManager_Start resolved bot_count m =
     (if bot_count < 0 then None else Some (fold (start_bot resolved) [0..<nat bot_count] m))"

text \<open>The result also has the stopped clients, which \<open>clear()\<close> destroys.\<close>

definition BotManager_Stop :: "BotManager \<Rightarrow> BotClient list \<times> BotManager" where
  "BotManager_Stop m =
     (map (\<lambda>bot. if bc_running bot then BotClient_Stop_join (BotClient_Stop_request bot) else bot) (bm_bots m),
      m\<lparr>bm_bots := []\<rparr>)"

definition PrintStats :: "i64 \<Rightarrow> BotManager \<Rightarrow> string" where
  "PrintStats elapsed_seconds m =
     (let st = bm_stats m in
      ''[t='' @ to_string elapsed_seconds @ ''s]''
      @ '' conn='' @ to_string (connect_ok st)
      @ '' conn_fail='' @ to_string (connect_failed st)
      @ '' login='' @ to_string (login_ok st)
      @ '' login_fail='' @ to_string (login_failed st)
      @ '' reconnect='' @ to_string (reconnect_ok st)
      @ '' reconnect_fail='' @ to_string (reconnect_failed st)
      @ '' disconnect='' @ to_string (disconnects st)
      @ '' match='' @ to_string (match_ok st)
      @ '' match_fail='' @ to_string (match_failed st)
      @ '' cancel='' @ to_string (match_cancel st)
      @ '' rooms='' @ to_string (match_success st)
      @ '' ready='' @ to_string (stat_ready st)
      @ '' unready='' @ to_string (stat_unready st)
      @ '' playing='' @ to_string (room_playing st)
      @ '' input='' @ to_string (input_sent st)
      @ '' state='' @ to_string (stat_game_state st)
      @ '' over='' @ to_string (stat_game_over st)
      @ [CHR 0x0A])"

subsection \<open>The main loop\<close>

text \<open>\<open>running k\<close> is the value of \<open>g_running\<close> that the check after \<open>k\<close> seconds reads; a signal makes it false.
  The result is the number of seconds; \<open>None\<close> when the loop never ends.\<close>

partial_function (option) main_loop :: "(nat \<Rightarrow> bool) \<Rightarrow> i32 \<Rightarrow> nat \<Rightarrow> nat option" where
  "main_loop running duration elapsed =
     (if running elapsed \<and> (duration \<le> 0 \<or> int elapsed < duration)
      then main_loop running duration (Suc elapsed)
      else Some elapsed)"

subsection \<open>Lemmas\<close>

lemma int_option_to_string [simp]: "in_i32 n \<Longrightarrow> int_option (to_string n) f = Some (Inr (f n))"
  by (simp add: int_option_def)

lemma start_bots:
  "bm_options (fold (start_bot resolved) ks m) = bm_options m \<and>
   length (bm_bots (fold (start_bot resolved) ks m)) = length (bm_bots m) + length ks"
  by (induction ks arbitrary: m) (simp_all add: start_bot_def Let_def split_beta)

text \<open>The condition under which the loop ends at a check.\<close>

definition stops_at :: "(nat \<Rightarrow> bool) \<Rightarrow> i32 \<Rightarrow> nat \<Rightarrow> bool" where
  "stops_at running duration k \<longleftrightarrow> \<not> running k \<or> (0 < duration \<and> duration \<le> int k)"

lemma main_loop_sound:
  "main_loop running duration elapsed = Some e \<Longrightarrow>
     elapsed \<le> e \<and> stops_at running duration e \<and> (\<forall>k. elapsed \<le> k \<and> k < e \<longrightarrow> \<not> stops_at running duration k)"
proof (induction running duration elapsed e rule: main_loop.raw_induct [rotated, consumes 1, case_names loop])
  case (loop f running duration elapsed e)
  show ?case
  proof (cases "running elapsed \<and> (duration \<le> 0 \<or> int elapsed < duration)")
    case True
    then have "Suc elapsed \<le> e \<and> stops_at running duration e \<and>
        (\<forall>k. Suc elapsed \<le> k \<and> k < e \<longrightarrow> \<not> stops_at running duration k)" using loop by simp
    moreover have "\<not> stops_at running duration elapsed" using True by (auto simp: stops_at_def)
    ultimately show ?thesis by (metis Suc_leD not_less_eq_eq le_antisym)
  next
    case False
    then show ?thesis using loop(2) by (auto simp: stops_at_def)
  qed
qed

lemma main_loop_complete:
  "stops_at running duration (elapsed + n) \<Longrightarrow> main_loop running duration elapsed \<noteq> None"
proof (induction n arbitrary: elapsed)
  case 0
  then show ?case by (subst main_loop.simps) (auto simp: stops_at_def)
next
  case (Suc n)
  then show ?case by (subst main_loop.simps) auto
qed

subsection \<open>A reference reading of the command line\<close>

text \<open>The options with a number and the setting each of them stands for, as the usage text names them.\<close>

definition int_options :: "(string \<times> (bot_args \<Rightarrow> i32)) list" where
  "int_options =
     [(''--count'', ba_count), (''--duration'', ba_duration),
      (''--cancel-match-percent'', \<lambda>a. cancel_match_percent (ba_options a)),
      (''--queue-disconnect-percent'', \<lambda>a. queue_disconnect_percent (ba_options a)),
      (''--room-disconnect-percent'', \<lambda>a. room_disconnect_percent (ba_options a)),
      (''--playing-disconnect-percent'', \<lambda>a. playing_disconnect_percent (ba_options a)),
      (''--ready-toggle-percent'', \<lambda>a. ready_toggle_percent (ba_options a)),
      (''--max-reconnects'', \<lambda>a. max_reconnects (ba_options a)),
      (''--reconnect-delay-ms'', \<lambda>a. reconnect_delay_ms (ba_options a)),
      (''--rematch-delay-ms'', \<lambda>a. rematch_delay_ms (ba_options a)),
      (''--action-jitter-ms'', \<lambda>a. action_jitter_ms (ba_options a)),
      (''--heartbeat-interval-ms'', \<lambda>a. heartbeat_interval_ms (ba_options a)),
      (''--input-interval-ms'', \<lambda>a. input_interval_ms (ba_options a))]"

definition number_names :: "string list" where
  "number_names = ''--port'' # map fst int_options"

text \<open>A command line that is read completely: the flag, and options with a value.\<close>

datatype arg_item = Verbose_flag | Value string string

fun item_words :: "arg_item \<Rightarrow> string list" where
  "item_words Verbose_flag = [''--verbose'']"
| "item_words (Value name v) = [name, v]"

fun item_ok :: "arg_item \<Rightarrow> bool" where
  "item_ok Verbose_flag = True"
| "item_ok (Value name v) \<longleftrightarrow> name = ''--host'' \<or> name \<in> set number_names \<and> (\<exists>n. stoi v = Inr n)"

text \<open>The value that counts is the last one given.\<close>

fun latest :: "string \<Rightarrow> arg_item list \<Rightarrow> string option" where
  "latest name [] = None"
| "latest name (item # items) =
     (case latest name items of
        Some v \<Rightarrow> Some v
      | None \<Rightarrow> (case item of Value n v \<Rightarrow> if n = name then Some v else None | Verbose_flag \<Rightarrow> None))"

definition given_int :: "string \<Rightarrow> arg_item list \<Rightarrow> i32 \<Rightarrow> i32" where
  "given_int name items old = (case latest name items of None \<Rightarrow> old | Some v \<Rightarrow> projr (stoi v))"

definition settings_of :: "bot_args \<Rightarrow> arg_item list \<Rightarrow> bot_args \<Rightarrow> bool" where
  "settings_of a0 items a \<longleftrightarrow>
     (\<forall>(name, get) \<in> set int_options. get a = given_int name items (get a0)) \<and>
     ba_port a = (case latest ''--port'' items of None \<Rightarrow> ba_port a0 | Some v \<Rightarrow> word_of_int (projr (stoi v))) \<and>
     ba_host a = (case latest ''--host'' items of None \<Rightarrow> ba_host a0 | Some v \<Rightarrow> v) \<and>
     (verbose (ba_options a) \<longleftrightarrow> verbose (ba_options a0) \<or> Verbose_flag \<in> set items)"

definition reads_as :: "bot_args \<Rightarrow> string list \<Rightarrow> arg_item list \<Rightarrow> string list \<Rightarrow> args_result \<Rightarrow> bool" where
  "reads_as a0 args items rest result \<longleftrightarrow>
     args = concat (map item_words items) @ rest \<and> list_all item_ok items \<and>
     (case result of
        Run_with a \<Rightarrow> rest = [] \<and> settings_of a0 items a
      | Help \<Rightarrow> rest \<noteq> [] \<and> hd rest = ''--help''
      | Bad_option arg \<Rightarrow> rest \<noteq> [] \<and> hd rest = arg \<and> arg \<notin> {''--help'', ''--verbose''} \<and>
          (arg \<notin> {''--host''} \<union> set number_names \<or> tl rest = [])
      | Uncaught e \<Rightarrow> (\<exists>name v more. rest = name # v # more \<and> name \<in> set number_names \<and> stoi v = Inl e))"

lemma apply_option_accepts:
  assumes "apply_option name v a = Some (Inr a')"
  shows "name = ''--host'' \<and> a' = a\<lparr>ba_host := v\<rparr> \<or>
    (\<exists>n. stoi v = Inr n \<and>
      (name = ''--port'' \<and> a' = a\<lparr>ba_port := word_of_int n\<rparr> \<or>
       name = ''--count'' \<and> a' = a\<lparr>ba_count := n\<rparr> \<or>
       name = ''--duration'' \<and> a' = a\<lparr>ba_duration := n\<rparr> \<or>
       name = ''--cancel-match-percent'' \<and> a' = on_options (cancel_match_percent_update (\<lambda>_. n)) a \<or>
       name = ''--queue-disconnect-percent'' \<and> a' = on_options (queue_disconnect_percent_update (\<lambda>_. n)) a \<or>
       name = ''--room-disconnect-percent'' \<and> a' = on_options (room_disconnect_percent_update (\<lambda>_. n)) a \<or>
       name = ''--playing-disconnect-percent'' \<and> a' = on_options (playing_disconnect_percent_update (\<lambda>_. n)) a \<or>
       name = ''--ready-toggle-percent'' \<and> a' = on_options (ready_toggle_percent_update (\<lambda>_. n)) a \<or>
       name = ''--max-reconnects'' \<and> a' = on_options (max_reconnects_update (\<lambda>_. n)) a \<or>
       name = ''--reconnect-delay-ms'' \<and> a' = on_options (reconnect_delay_ms_update (\<lambda>_. n)) a \<or>
       name = ''--rematch-delay-ms'' \<and> a' = on_options (rematch_delay_ms_update (\<lambda>_. n)) a \<or>
       name = ''--action-jitter-ms'' \<and> a' = on_options (action_jitter_ms_update (\<lambda>_. n)) a \<or>
       name = ''--heartbeat-interval-ms'' \<and> a' = on_options (heartbeat_interval_ms_update (\<lambda>_. n)) a \<or>
       name = ''--input-interval-ms'' \<and> a' = on_options (input_interval_ms_update (\<lambda>_. n)) a))"
  using assms unfolding apply_option_def int_option_def by (simp split: if_split_asm sum.split_asm)

lemma apply_option_effect:
  assumes "apply_option name v a = Some (Inr a')"
  shows "item_ok (Value name v)"
    and "\<forall>(m, get) \<in> set int_options. get a' = (if m = name then projr (stoi v) else get a)"
    and "ba_port a' = (if name = ''--port'' then word_of_int (projr (stoi v)) else ba_port a)"
    and "ba_host a' = (if name = ''--host'' then v else ba_host a)"
    and "verbose (ba_options a') = verbose (ba_options a)"
proof -
  note c = apply_option_accepts [OF assms]
  show "item_ok (Value name v)" using c by (elim exE conjE disjE; simp add: number_names_def int_options_def)
  show "\<forall>(m, get) \<in> set int_options. get a' = (if m = name then projr (stoi v) else get a)"
    using c by (elim exE conjE disjE; simp add: int_options_def)
  show "ba_port a' = (if name = ''--port'' then word_of_int (projr (stoi v)) else ba_port a)"
    "ba_host a' = (if name = ''--host'' then v else ba_host a)" "verbose (ba_options a') = verbose (ba_options a)"
    using c by (elim exE conjE disjE; simp)+
qed

lemma apply_option_other:
  "apply_option name v a = None \<Longrightarrow> name \<notin> {''--host''} \<union> set number_names"
  "apply_option name v a = Some (Inl e) \<Longrightarrow> name \<in> set number_names \<and> stoi v = Inl e"
  unfolding apply_option_def int_option_def number_names_def int_options_def
  by (simp_all split: if_split_asm sum.split_asm)

lemma settings_of_value:
  assumes "apply_option name v a0 = Some (Inr a')" and "settings_of a' items a"
  shows "settings_of a0 (Value name v # items) a"
proof -
  note e = apply_option_effect [OF assms(1)]
  have "given_int m items (get a') = given_int m (Value name v # items) (get a0)" if "(m, get) \<in> set int_options" for m get
    using e(2) that by (auto simp: given_int_def split: option.split)
  then show ?thesis using assms(2) e(3-5) by (auto simp: settings_of_def split: option.splits)
qed

lemma settings_of_flag:
  assumes "settings_of (on_options (verbose_update (\<lambda>_. True)) a0) items a"
  shows "settings_of a0 (Verbose_flag # items) a"
proof -
  have l: "latest m (Verbose_flag # items) = latest m items" for m by (simp split: option.split)
  have "\<forall>(m, get) \<in> set int_options. get a = given_int m (Verbose_flag # items) (get a0)"
    using assms unfolding settings_of_def given_int_def l by (simp add: int_options_def del: latest.simps cong: option.case_cong)
  then show ?thesis using assms unfolding settings_of_def l by (simp cong: option.case_cong)
qed

lemma reads_as_item:
  assumes "reads_as a1 args items rest result" and "item_ok item"
    and "\<And>a. settings_of a1 items a \<Longrightarrow> settings_of a0 (item # items) a"
  shows "reads_as a0 (item_words item @ args) (item # items) rest result"
  using assms by (auto simp: reads_as_def split: args_result.splits)

lemma parse_args_reads: "\<exists>items rest. reads_as a args items rest (parse_args a args)"
proof (induction a args rule: parse_args.induct)
  case (1 a)
  have "reads_as a [] [] [] (parse_args a [])" by (auto simp: reads_as_def settings_of_def given_int_def)
  then show ?case by blast
next
  case (2 a arg)
  have "reads_as a [] [] [] (Run_with a)" for a by (auto simp: reads_as_def settings_of_def given_int_def)
  then have "reads_as a (item_words Verbose_flag @ []) [Verbose_flag] [] (Run_with (on_options (verbose_update (\<lambda>_. True)) a))"
    by (rule reads_as_item) (simp_all add: settings_of_flag)
  moreover have "reads_as a [arg] [] [arg] (parse_args a [arg])" if "arg \<noteq> ''--verbose''" using that by (simp add: reads_as_def)
  ultimately show ?case by (cases "arg = ''--verbose''") (simp, blast, blast)
next
  case (3 a arg v rest)
  consider "arg = ''--help''" | a' where "arg \<noteq> ''--help''" "apply_option arg v a = Some (Inr a')"
    | e where "arg \<noteq> ''--help''" "apply_option arg v a = Some (Inl e)" | "arg \<noteq> ''--help''" "apply_option arg v a = None" "arg = ''--verbose''"
    | "arg \<noteq> ''--help''" "apply_option arg v a = None" "arg \<noteq> ''--verbose''"
    by (metis option.exhaust sum.exhaust)
  then show ?case
  proof cases
    case 1
    then have "reads_as a (arg # v # rest) [] (arg # v # rest) (parse_args a (arg # v # rest))" by (simp add: reads_as_def)
    then show ?thesis by blast
  next
    case (2 a')
    obtain items more where r: "reads_as a' rest items more (parse_args a' rest)" using 3(2) [OF 2] by blast
    have "reads_as a (item_words (Value arg v) @ rest) (Value arg v # items) more (parse_args a' rest)"
      by (rule reads_as_item [OF r]) (use apply_option_effect(1) [OF 2(2)] settings_of_value [OF 2(2)] in blast)+
    then show ?thesis using 2 by (intro exI) simp
  next
    case (3 e)
    then have "reads_as a (arg # v # rest) [] (arg # v # rest) (parse_args a (arg # v # rest))"
      using apply_option_other(2) [OF 3(2)] by (simp add: reads_as_def)
    then show ?thesis by blast
  next
    case 4
    let ?a = "on_options (verbose_update (\<lambda>_. True)) a"
    obtain items more where r: "reads_as ?a (v # rest) items more (parse_args ?a (v # rest))" using 3(1) [OF 4] by blast
    have "reads_as a (item_words Verbose_flag @ v # rest) (Verbose_flag # items) more (parse_args ?a (v # rest))"
      by (rule reads_as_item [OF r]) (simp_all add: settings_of_flag)
    then show ?thesis using 4 by (intro exI) simp
  next
    case 5
    then have "reads_as a (arg # v # rest) [] (arg # v # rest) (parse_args a (arg # v # rest))"
      using apply_option_other(1) [OF 5(2)] by (simp add: reads_as_def)
    then show ?thesis by blast
  qed
qed

subsection \<open>Properties\<close>

text \<open>C38. The main loop of the load generator ends exactly when a signal arrives or a positive duration is given,
  and then at the first check that sees one of the two; without either it runs for ever.\<close>

theorem main_loop_returns:
  "main_loop running duration 0 =
     (if \<exists>k. stops_at running duration k then Some (LEAST k. stops_at running duration k) else None)"
proof (cases "\<exists>k. stops_at running duration k")
  case True
  then obtain k where "stops_at running duration (0 + k)" by auto
  then obtain e where e: "main_loop running duration 0 = Some e" using main_loop_complete by blast
  have "(LEAST k. stops_at running duration k) = e"
    using main_loop_sound [OF e] by (intro Least_equality) (auto simp: not_less [symmetric])
  then show ?thesis using True e by simp
next
  case False
  then show ?thesis using main_loop_sound [of running duration 0] by (cases "main_loop running duration 0") auto
qed

text \<open>The options as the usage text names them.\<close>

definition render_args :: "bot_args \<Rightarrow> string list" where
  "render_args a = (let opts = ba_options a in
     [''--host'', ba_host a, ''--port'', to_string (uint (ba_port a)), ''--count'', to_string (ba_count a),
      ''--duration'', to_string (ba_duration a),
      ''--cancel-match-percent'', to_string (cancel_match_percent opts),
      ''--queue-disconnect-percent'', to_string (queue_disconnect_percent opts),
      ''--room-disconnect-percent'', to_string (room_disconnect_percent opts),
      ''--playing-disconnect-percent'', to_string (playing_disconnect_percent opts),
      ''--ready-toggle-percent'', to_string (ready_toggle_percent opts),
      ''--max-reconnects'', to_string (max_reconnects opts),
      ''--reconnect-delay-ms'', to_string (reconnect_delay_ms opts),
      ''--rematch-delay-ms'', to_string (rematch_delay_ms opts),
      ''--action-jitter-ms'', to_string (action_jitter_ms opts),
      ''--heartbeat-interval-ms'', to_string (heartbeat_interval_ms opts),
      ''--input-interval-ms'', to_string (input_interval_ms opts)] @ (if verbose opts then [''--verbose''] else []))"

text \<open>Every number of the options is an \<open>int\<close>.\<close>

definition args_typed :: "bot_args \<Rightarrow> bool" where
  "args_typed a \<longleftrightarrow> in_i32 (ba_count a) \<and> in_i32 (ba_duration a) \<and> (let opts = ba_options a in
     in_i32 (cancel_match_percent opts) \<and> in_i32 (queue_disconnect_percent opts) \<and>
     in_i32 (room_disconnect_percent opts) \<and> in_i32 (playing_disconnect_percent opts) \<and>
     in_i32 (ready_toggle_percent opts) \<and> in_i32 (max_reconnects opts) \<and> in_i32 (reconnect_delay_ms opts) \<and>
     in_i32 (rematch_delay_ms opts) \<and> in_i32 (action_jitter_ms opts) \<and> in_i32 (heartbeat_interval_ms opts) \<and>
     in_i32 (input_interval_ms opts))"

lemma stoi_range: "stoi s = Inr n \<Longrightarrow> in_i32 n"
  by (auto simp: stoi_def split: option.splits if_splits)

lemma apply_option_typed: "args_typed a \<Longrightarrow> apply_option arg v a = Some (Inr a') \<Longrightarrow> args_typed a'"
  by (auto simp: apply_option_def int_option_def args_typed_def Let_def stoi_range split: if_splits sum.splits)

lemma parse_args_outcome:
  "args_typed a \<Longrightarrow>
     (case parse_args a args of
        Run_with a' \<Rightarrow> args_typed a'
      | Help \<Rightarrow> ''--help'' \<in> set args
      | Bad_option arg \<Rightarrow> arg \<in> set args
      | Uncaught e \<Rightarrow> \<exists>v \<in> set args. stoi v = Inl e)"
proof (induction a args rule: parse_args.induct)
  case (3 a arg v rest)
  have verbose: "args_typed (on_options (verbose_update (\<lambda>_. True)) a)" using 3(3) by (simp add: args_typed_def Let_def)
  have failed: "stoi v = Inl e" if "apply_option arg v a = Some (Inl e)" for e
    using that by (auto simp: apply_option_def int_option_def split: if_splits sum.splits)
  consider "arg = ''--help''" | a' where "arg \<noteq> ''--help''" "apply_option arg v a = Some (Inr a')"
    | e where "arg \<noteq> ''--help''" "apply_option arg v a = Some (Inl e)" | "arg \<noteq> ''--help''" "apply_option arg v a = None" "arg = ''--verbose''"
    | "arg \<noteq> ''--help''" "apply_option arg v a = None" "arg \<noteq> ''--verbose''"
    by (metis option.exhaust sum.exhaust)
  then show ?case
  proof cases
    case 1
    then show ?thesis by simp
  next
    case (2 a')
    then show ?thesis using 3(2) [OF 2] apply_option_typed [OF 3(3) 2(2)] by (auto split: args_result.splits)
  next
    case (3 e)
    then show ?thesis using failed by simp
  next
    case 4
    then show ?thesis using 3(1) [OF 4] verbose by (auto split: args_result.splits)
  next
    case 5
    then show ?thesis by simp
  qed
qed (auto simp: args_typed_def Let_def)

lemma default_typed: "args_typed bot_args_default"
  by (simp add: args_typed_def bot_args_default_def BotOptions_default_def in_i32_def)

lemma port_in_range: "in_i32 (uint (p :: 16 word))"
  using uint_bounded [of p] order_trans [OF _ uint_ge_0 [of p], of "- (2 ^ 31)"] by (simp add: in_i32_def)

text \<open>One option of the printed command line.\<close>

lemma parse_option:
  "apply_option arg v a = Some (Inr a') \<Longrightarrow> arg \<noteq> ''--help'' \<Longrightarrow> parse_args a (arg # v # rest) = parse_args a' rest"
  by simp

lemma apply_options:
  "apply_option ''--host'' v a = Some (Inr (a\<lparr>ba_host := v\<rparr>))"
  "apply_option ''--port'' (to_string (uint p)) a = Some (Inr (a\<lparr>ba_port := p\<rparr>))"
  "in_i32 n \<Longrightarrow> apply_option ''--count'' (to_string n) a = Some (Inr (a\<lparr>ba_count := n\<rparr>))"
  "in_i32 n \<Longrightarrow> apply_option ''--duration'' (to_string n) a = Some (Inr (a\<lparr>ba_duration := n\<rparr>))"
  "in_i32 n \<Longrightarrow> apply_option ''--cancel-match-percent'' (to_string n) a = Some (Inr (on_options (cancel_match_percent_update (\<lambda>_. n)) a))"
  "in_i32 n \<Longrightarrow> apply_option ''--queue-disconnect-percent'' (to_string n) a = Some (Inr (on_options (queue_disconnect_percent_update (\<lambda>_. n)) a))"
  "in_i32 n \<Longrightarrow> apply_option ''--room-disconnect-percent'' (to_string n) a = Some (Inr (on_options (room_disconnect_percent_update (\<lambda>_. n)) a))"
  "in_i32 n \<Longrightarrow> apply_option ''--playing-disconnect-percent'' (to_string n) a = Some (Inr (on_options (playing_disconnect_percent_update (\<lambda>_. n)) a))"
  "in_i32 n \<Longrightarrow> apply_option ''--ready-toggle-percent'' (to_string n) a = Some (Inr (on_options (ready_toggle_percent_update (\<lambda>_. n)) a))"
  "in_i32 n \<Longrightarrow> apply_option ''--max-reconnects'' (to_string n) a = Some (Inr (on_options (max_reconnects_update (\<lambda>_. n)) a))"
  "in_i32 n \<Longrightarrow> apply_option ''--reconnect-delay-ms'' (to_string n) a = Some (Inr (on_options (reconnect_delay_ms_update (\<lambda>_. n)) a))"
  "in_i32 n \<Longrightarrow> apply_option ''--rematch-delay-ms'' (to_string n) a = Some (Inr (on_options (rematch_delay_ms_update (\<lambda>_. n)) a))"
  "in_i32 n \<Longrightarrow> apply_option ''--action-jitter-ms'' (to_string n) a = Some (Inr (on_options (action_jitter_ms_update (\<lambda>_. n)) a))"
  "in_i32 n \<Longrightarrow> apply_option ''--heartbeat-interval-ms'' (to_string n) a = Some (Inr (on_options (heartbeat_interval_ms_update (\<lambda>_. n)) a))"
  "in_i32 n \<Longrightarrow> apply_option ''--input-interval-ms'' (to_string n) a = Some (Inr (on_options (input_interval_ms_update (\<lambda>_. n)) a))"
  by (simp_all add: apply_option_def port_in_range)

lemma parse_render:
  assumes "args_typed a"
  shows "parse_args bot_args_default (render_args a) = Run_with a"
proof -
  let ?opts = "ba_options a"
  have t: "in_i32 (ba_count a)" "in_i32 (ba_duration a)" "in_i32 (cancel_match_percent ?opts)"
    "in_i32 (queue_disconnect_percent ?opts)" "in_i32 (room_disconnect_percent ?opts)" "in_i32 (playing_disconnect_percent ?opts)"
    "in_i32 (ready_toggle_percent ?opts)" "in_i32 (max_reconnects ?opts)" "in_i32 (reconnect_delay_ms ?opts)"
    "in_i32 (rematch_delay_ms ?opts)" "in_i32 (action_jitter_ms ?opts)" "in_i32 (heartbeat_interval_ms ?opts)"
    "in_i32 (input_interval_ms ?opts)"
    using assms by (simp_all add: args_typed_def Let_def)
  show ?thesis
    unfolding render_args_def Let_def append_Cons append_Nil
    by (simp add: parse_option apply_options t del: parse_args.simps(3))
       (simp add: bot_args_default_def BotOptions_default_def)
qed

text \<open>C39. A command line is read from left to right as far as it goes: as flags and options with a value, each of
  them known and each number one that \<open>stoi\<close> accepts.  If that is all of it, the load starts, every
  setting is the last value given for its option or else the default, and all numbers are \<open>int\<close>s.
  Otherwise the word where it stops says why: it is \<open>--help\<close>, or it is no option or one whose value is
  missing, and that word is reported, or its value is one for which \<open>stoi\<close> throws that exception.\<close>

theorem parse_args_classified:
  "(\<exists>items rest. reads_as bot_args_default args items rest (parse_args bot_args_default args)) \<and>
   (\<forall>a. parse_args bot_args_default args = Run_with a \<longrightarrow> args_typed a)"
  using parse_args_reads [of bot_args_default args] parse_args_outcome [OF default_typed, of args] by (auto split: args_result.splits)

theorem parse_args_classified_witness:
  "parse_args bot_args_default [''--count'', ''5'', ''--host'', ''--help'', ''--count'', ''7''] =
     Run_with (bot_args_default\<lparr>ba_count := 7, ba_host := ''--help''\<rparr>) \<and>
   args_typed (bot_args_default\<lparr>ba_count := 7, ba_host := ''--help''\<rparr>)"
proof -
  have "parse_args bot_args_default [''--count'', ''5'', ''--host'', ''--help'', ''--count'', ''7''] =
     Run_with (bot_args_default\<lparr>ba_count := 7, ba_host := ''--help''\<rparr>)" by code_simp
  then show ?thesis using parse_args_classified by blast
qed

text \<open>C40. Every setting can be given on the command line: the options as the usage text names them, with the
  values of any setting, are parsed to that setting, each option setting its own field.\<close>

theorem parse_args_render:
  assumes "args_typed a"
  shows "parse_args bot_args_default (render_args a) = Run_with a"
  using assms by (rule parse_render)

theorem parse_args_render_witness:
  "parse_args bot_args_default (render_args (bot_args_default\<lparr>ba_port := 7777, ba_count := 5\<rparr>)) =
     Run_with (bot_args_default\<lparr>ba_port := 7777, ba_count := 5\<rparr>)"
  by (rule parse_args_render) (simp add: args_typed_def bot_args_default_def BotOptions_default_def in_i32_def)

end
