(* ===== verification/Bot_Server.thy ===== *)
theory Bot_Server
  imports Message_Dispatcher Bot_Steps
begin

text \<open>
  A client of the load generator and the server together: a request of the client goes through the
  server's dispatcher and the answers on its connection come back to the client.  That the bytes arrive
  as they were sent is the subject of \<open>Packet_Codec\<close> and \<open>Tcp_Connection\<close>; that protobuf parses what
  it serialised is the hypothesis \<open>protobuf_ok\<close>.
\<close>

subsection \<open>An exchange\<close>

definition protobuf_ok :: "'f parsers \<Rightarrow> 'f bot_env \<Rightarrow> ('f message \<Rightarrow> byte list) \<Rightarrow> bool" where
  "protobuf_ok ps benv enc \<longleftrightarrow>
     (\<forall>account token. parse_login ps (serialize benv (LoginRequest account token)) = Some account) \<and>
     (\<forall>pid token. parse_reconnect ps (serialize benv (ReconnectRequest pid token)) = Some (pid, token)) \<and>
     (\<forall>code pid name token. login_resp benv (enc (LoginResponse code pid name token)) = Some (code, pid, token)) \<and>
     (\<forall>code rid. reconnect_resp benv (enc (ReconnectResponse code rid)) = Some (code, rid)) \<and>
     (\<forall>pid. parse_match ps (serialize benv (MatchRequest pid)) = Some pid) \<and>
     (\<forall>code msg. match_resp benv (enc (MatchResponse code msg)) = Some code) \<and>
     (\<forall>rid pids. match_success_notify benv (enc (MatchSuccessNotify rid pids)) = Some rid) \<and>
     (\<forall>rdy. parse_ready ps (serialize benv (ReadyRequest rdy)) = Some rdy) \<and>
     (\<forall>rid st pids. room_state_notify benv (enc (RoomStateNotify rid st pids)) = Some (rid, st))"

text \<open>The packets that the server sends on the connection \<open>ses\<close> between two states, as \<open>Session::Send\<close> builds them.\<close>

definition answers_to ::
    "('f message \<Rightarrow> byte list) \<Rightarrow> sptr \<Rightarrow> ('f, 'd, 'r) server \<Rightarrow> ('f, 'd, 'r) server \<Rightarrow> Packet list" where
  "answers_to enc ses s s' = map (\<lambda>(x, mid, m). Build (msg_value mid) (enc m) 0)
     (filter (\<lambda>x. fst x = ses) (drop (length (outbox (sv_net s))) (outbox (sv_net s'))))"

definition exchange ::
    "('f, 'd, 'r) env \<Rightarrow> 'f parsers \<Rightarrow> 'f bot_env \<Rightarrow> ('f message \<Rightarrow> byte list) \<Rightarrow> i64 \<times> i64 \<Rightarrow> sptr \<Rightarrow>
     (BotClient \<Rightarrow> BotClient) \<Rightarrow> BotClient \<times> ('f, 'd, 'r) server \<Rightarrow> (BotClient \<times> ('f, 'd, 'r) server) option" where
  "exchange env ps benv enc clock ses request = (\<lambda>(b, s).
     let b1 = request b in
     case Dispatch (server_dispatcher env ps) clock (Some ses) (last (bc_built b1)) s of
       Completed s' \<Rightarrow> Some (fold (BotClient_OnMessage benv) (answers_to enc ses s s') b1, s')
     | _ \<Rightarrow> None)"

subsection \<open>What the answers leave alone\<close>

definition flow_of where
  "flow_of b = (bc_player_id b, session_token b, bc_room_id b, bc_state b, bc_index b)"

lemma flow_of_simps [simp]:
  "flow_of (count_stat f b) = flow_of b"
  "flow_of (send_request env mid r b) = flow_of b"
  "flow_of (snd (RandomUtil_Int env lo hi b)) = flow_of b"
  "flow_of (snd (RandomUtil_Float env b)) = flow_of b"
  "flow_of (snd (PercentHit env percent b)) = flow_of b"
  "flow_of (ScheduleTimer d cb b) = flow_of b"
  "flow_of (schedule_jitter env base cb b) = flow_of b"
  "flow_of (schedule_random env lo base cb b) = flow_of b"
  "flow_of (ScheduleHeartbeat b) = flow_of b"
  by (simp_all add: flow_of_def count_stat_def send_request_def SendPacket_def RandomUtil_Int_def RandomUtil_Float_def
      PercentHit_def ScheduleTimer_def schedule_jitter_def schedule_random_def JitterMs_def ScheduleHeartbeat_def Let_def split_beta)

lemma flow_of_ready [simp]: "flow_of (ScheduleReadyFlow env b) = flow_of b"
  by (simp add: ScheduleReadyFlow_def BotClient_Ready_def Let_def split_beta)

lemma flow_of_input [simp]: "flow_of (StartInputLoop env b) = flow_of b"
  by (simp add: StartInputLoop_def SendInput_def Let_def split_beta) (simp add: flow_of_def)

lemma flow_of_fields:
  assumes "flow_of b' = flow_of b"
  shows "bc_player_id b' = bc_player_id b" "session_token b' = session_token b" "bc_room_id b' = bc_room_id b"
    "bc_state b' = bc_state b"
  using assms by (simp_all add: flow_of_def)

lemma last_built: "last (bc_built (send_request env mid r b)) = Build (msg_value mid) (serialize env r) (bc_seq b + 1)"
  by (simp add: send_request_def SendPacket_def Let_def)

lemma request_of_values [simp]:
  "request_of 1001 = Some MSG_LOGIN_REQ" "request_of 1005 = Some MSG_RECONNECT_REQ" "request_of 2001 = Some MSG_MATCH_REQ"
  "request_of 3001 = Some MSG_READY_REQ"
  by (simp_all add: request_of_def)

lemma Build_simps [simp]: "msg_id (Build mid x sq) = mid" "body (Build mid x sq) = x"
  by (simp_all add: Build_def)

lemma login_answer:
  assumes "protobuf_ok ps benv enc"
    and b'_def: "b' = BotClient_OnMessage benv (Build (msg_value MSG_LOGIN_RESP) (enc (LoginResponse 0 pid name token)) sq) b"
  shows "bc_player_id b' = pid \<and> session_token b' = token \<and> bc_state b' = Bot_Client.LoggedIn \<and> bc_room_id b' = bc_room_id b"
proof -
  have "flow_of b' = (pid, token, bc_room_id b, Bot_Client.LoggedIn, bc_index b)"
    using assms(1) by (simp add: b'_def BotClient_OnMessage_def HandleLoginResponse_def protobuf_ok_def Let_def)
      (simp add: flow_of_def)
  then show ?thesis by (simp add: flow_of_def)
qed

lemma reconnect_answer:
  assumes "protobuf_ok ps benv enc"
    and b'_def: "b' = BotClient_OnMessage benv (Build (msg_value MSG_RECONNECT_RESP) (enc (ReconnectResponse code rid)) sq) b"
  shows "flow_of b' = (if code = 0
     then (bc_player_id b, session_token b, rid, if rid = 0 then Bot_Client.LoggedIn else Bot_Client.InRoom, bc_index b)
     else flow_of b)"
  using assms(1) by (simp add: b'_def BotClient_OnMessage_def HandleReconnectResponse_def protobuf_ok_def Let_def)
    (simp add: flow_of_def)

text \<open>The one answer to a request.\<close>

lemma answers_one:
  assumes "outbox (sv_net s') = outbox (sv_net s) @ [(ses, mid, m)]"
  shows "answers_to enc ses s s' = [Build (msg_value mid) (enc m) 0]"
  by (simp add: answers_to_def assms)

subsection \<open>Properties\<close>

text \<open>C37. After a login of a simulated client, client and server agree: the player id and the token that the client
  holds are those the server has stored for the client's account, the client's connection is the one
  the server uses for that player, and the client is ready to ask for a match.\<close>

theorem bot_login_agrees:
  assumes full: "ctx env = full_context" and inv: "rooms_inv (ctx env) s" and pb: "protobuf_ok ps benv enc"
    and alive: "conn_alive (heap (sv_net s) ses)"
    and x: "exchange env ps benv enc clock ses (BotClient_Login benv) (b, s) = Some (b', s')"
  shows "account_find (''bot_'' @ to_string (bc_index b)) s' = Some (bc_player_id b') \<and>
    um_find (session_tokens s') (bc_player_id b') = Some (session_token b') \<and>
    GetByPlayerId (bc_player_id b') s' = Some ses \<and>
    bc_state b' = Bot_Client.LoggedIn \<and> bc_room_id b' = bc_room_id b"
proof -
  let ?account = "''bot_'' @ to_string (bc_index b)" and ?b1 = "BotClient_Login benv b"
  have "Dispatch (server_dispatcher env ps) clock (Some ses) (last (bc_built ?b1)) s =
      with_exception (LoginService_HandleLogin env (fst clock) (snd clock) (Some ses) (Some ?account) s)"
    using pb by (simp add: BotClient_Login_def last_built Dispatch_request serve_def protobuf_ok_def)
  then have l: "LoginService_HandleLogin env (fst clock) (snd clock) (Some ses) (Some ?account) s = (None, s')"
    and b': "b' = fold (BotClient_OnMessage benv) (answers_to enc ses s s') ?b1"
    using x by (auto simp: exchange_def with_exception_def Let_def split: option.splits prod.splits)
  have "?account \<noteq> []" by simp
  then obtain pid name where p: "account_find ?account s' = Some pid" "GetByPlayerId pid s' = Some ses"
      "um_find (session_tokens s') pid = Some (GenerateSessionToken (fst clock) pid)"
      "outbox (sv_net s') = outbox (sv_net s) @ (if conn_alive (heap (sv_net s) ses)
         then [(ses, MSG_LOGIN_RESP, LoginResponse 0 pid name (GenerateSessionToken (fst clock) pid))] else [])"
    using login_outcome [OF full inv _ l] by blast
  have out: "outbox (sv_net s') = outbox (sv_net s) @
      [(ses, MSG_LOGIN_RESP, LoginResponse 0 pid name (GenerateSessionToken (fst clock) pid))]"
    using p(4) alive by simp
  have "b' = BotClient_OnMessage benv (Build (msg_value MSG_LOGIN_RESP)
      (enc (LoginResponse 0 pid name (GenerateSessionToken (fst clock) pid))) 0) ?b1"
    by (simp add: b' answers_one [OF out])
  moreover have "bc_room_id ?b1 = bc_room_id b" by (rule flow_of_fields(3)) (simp add: BotClient_Login_def)
  ultimately show ?thesis using login_answer [OF pb] p(1-3) by metis
qed

text \<open>C17. After a reconnect of a simulated client whose token is still valid, client and server agree on its room: the
  client is in the room that the server's table has for its player, or in none; the new connection is
  the player's.  A client with an old token is answered too, changes nothing at the server and keeps
  its own state.\<close>

theorem bot_reconnect_agrees:
  assumes full: "ctx env = full_context" and inv: "rooms_inv (ctx env) s" and pb: "protobuf_ok ps benv enc"
    and alive: "conn_alive (heap (sv_net s) ses)"
  shows "\<exists>b' s'. exchange env ps benv enc clock ses (BotClient_Reconnect benv) (b, s) = Some (b', s') \<and>
    bc_player_id b' = bc_player_id b \<and> session_token b' = session_token b \<and> session_tokens s' = session_tokens s \<and>
    (if um_find (session_tokens s) (bc_player_id b) = Some (session_token b)
     then GetByPlayerId (bc_player_id b) s' = Some ses \<and>
       bc_room_id b' = (case RoomManager_GetPlayerRoom (bc_player_id b) s of None \<Rightarrow> 0 | Some (p, r) \<Rightarrow> p) \<and>
       bc_state b' = (if bc_room_id b' = 0 then Bot_Client.LoggedIn else Bot_Client.InRoom)
     else bc_room_id b' = bc_room_id b \<and> bc_state b' = bc_state b \<and>
       s' = send ses MSG_RECONNECT_RESP (ReconnectResponse 2 0) s)"
proof -
  let ?pid = "bc_player_id b" and ?token = "session_token b" and ?b1 = "BotClient_Reconnect benv b"
  define s' where "s' = LoginService_HandleReconnect env (Some ses) (Some (?pid, ?token)) s"
  define b' where "b' = fold (BotClient_OnMessage benv) (answers_to enc ses s s') ?b1"
  have "Dispatch (server_dispatcher env ps) clock (Some ses) (last (bc_built ?b1)) s = Completed s'"
    using pb by (simp add: BotClient_Reconnect_def last_built Dispatch_request serve_def protobuf_ok_def s'_def)
  then have x: "exchange env ps benv enc clock ses (BotClient_Reconnect benv) (b, s) = Some (b', s')"
    by (simp add: exchange_def b'_def Let_def)
  have b1: "flow_of ?b1 = flow_of b" by (simp add: BotClient_Reconnect_def)
  note r = reconnect_outcome [OF full inv s'_def]
  show ?thesis
  proof (cases "um_find (session_tokens s) ?pid = Some ?token")
    case True
    let ?rid = "case RoomManager_GetPlayerRoom ?pid s of None \<Rightarrow> 0 | Some (p, r) \<Rightarrow> p"
    have s': "GetByPlayerId ?pid s' = Some ses" "session_tokens s' = session_tokens s"
      "outbox (sv_net s') = outbox (sv_net s) @ [(ses, MSG_RECONNECT_RESP, ReconnectResponse 0 ?rid)]"
      using r True alive by simp_all
    have "flow_of b' = (?pid, ?token, ?rid, if ?rid = 0 then Bot_Client.LoggedIn else Bot_Client.InRoom, bc_index b)"
      using reconnect_answer [OF pb refl, of 0 ?rid 0 ?b1] b1 by (simp add: b'_def answers_one [OF s'(3)] flow_of_def)
    then show ?thesis using x s'(1,2) True by (auto simp: flow_of_def)
  next
    case False
    then have s': "s' = send ses MSG_RECONNECT_RESP (ReconnectResponse 2 0) s" using r by simp
    then have "outbox (sv_net s') = outbox (sv_net s) @ [(ses, MSG_RECONNECT_RESP, ReconnectResponse 2 0)]"
      "session_tokens s' = session_tokens s"
      using alive by (simp_all add: send_def Session_Send_def)
    moreover have "flow_of b' = flow_of b"
      using reconnect_answer [OF pb refl, of 2 0 0 ?b1] b1 by (simp add: b'_def answers_one [OF calculation(1)])
    ultimately show ?thesis using x s' False by (auto simp: flow_of_def)
  qed
qed

subsection \<open>A concrete exchange\<close>

text \<open>A codec for these messages: numbers in decimal, each followed by a space, then the string.\<close>

definition str_bytes :: "string \<Rightarrow> byte list" where
  "str_bytes = map (\<lambda>c. word_of_nat (of_char c))"

definition bytes_str :: "byte list \<Rightarrow> string" where
  "bytes_str = map (\<lambda>b. char_of (unat b))"

definition put_int :: "int \<Rightarrow> string \<Rightarrow> string" where
  "put_int i t = to_string i @ CHR '' '' # t"

definition get_int :: "string \<Rightarrow> (int \<times> string) option" where
  "get_int s = map_option (\<lambda>i. (i, tl (dropWhile (\<lambda>c. c \<noteq> CHR '' '') s))) (parse_int (takeWhile (\<lambda>c. c \<noteq> CHR '' '') s))"

definition text_parsers :: "'f parsers" where
  "text_parsers = \<lparr>parse_login = (\<lambda>b. Some (bytes_str b)), parse_reconnect = (\<lambda>b. get_int (bytes_str b)),
     parse_match = (\<lambda>b. map_option fst (get_int (bytes_str b))), parse_cancel = (\<lambda>b. None),
     parse_ready = (\<lambda>b. map_option (\<lambda>(i, _). i = 1) (get_int (bytes_str b))), parse_input = (\<lambda>b. None),
     parse_leave = (\<lambda>b. None), parse_rank = (\<lambda>b. None)\<rparr>"

definition text_env :: "rat option bot_env" where
  "text_env = \<lparr>serialize = (\<lambda>r. case r of LoginRequest account token \<Rightarrow> str_bytes account
       | ReconnectRequest pid token \<Rightarrow> str_bytes (put_int pid token)
       | MatchRequest pid \<Rightarrow> str_bytes (put_int pid [])
       | ReadyRequest rdy \<Rightarrow> str_bytes (put_int (if rdy then 1 else 0) []) | _ \<Rightarrow> []),
     login_resp = (\<lambda>b. case get_int (bytes_str b) of None \<Rightarrow> None | Some (code, t) \<Rightarrow>
       (case get_int t of None \<Rightarrow> None | Some (pid, token) \<Rightarrow> Some (code, pid, token))),
     reconnect_resp = (\<lambda>b. case get_int (bytes_str b) of None \<Rightarrow> None | Some (code, t) \<Rightarrow> map_option (\<lambda>(rid, _). (code, rid)) (get_int t)),
     match_resp = (\<lambda>b. map_option fst (get_int (bytes_str b))),
     match_success_notify = (\<lambda>b. map_option fst (get_int (bytes_str b))),
     room_state_notify = (\<lambda>b. case get_int (bytes_str b) of None \<Rightarrow> None | Some (rid, t) \<Rightarrow> map_option (\<lambda>(st, _). (rid, st)) (get_int t)),
     rng_int = (\<lambda>k lo hi. lo), rng_float = (\<lambda>k. None)\<rparr>"

definition text_message :: "'f message \<Rightarrow> byte list" where
  "text_message m = (case m of
      LoginResponse code pid name token \<Rightarrow> str_bytes (put_int code (put_int pid token))
    | ReconnectResponse code rid \<Rightarrow> str_bytes (put_int code (put_int rid []))
    | MatchResponse code msg \<Rightarrow> str_bytes (put_int code msg)
    | MatchSuccessNotify rid pids \<Rightarrow> str_bytes (put_int rid [])
    | RoomStateNotify rid st pids \<Rightarrow> str_bytes (put_int rid (put_int st []))
    | _ \<Rightarrow> [])"

lemma bytes_str_bytes [simp]: "bytes_str (str_bytes s) = s"
proof -
  have "unat (word_of_nat (of_char c) :: byte) = of_char c" for c
    by (simp add: unat_of_nat take_bit_nat_eq_self_iff of_char_of [symmetric] del: of_char_of)
  then show ?thesis by (simp add: bytes_str_def str_bytes_def comp_def)
qed

lemma to_string_no_space: "c \<in> set (to_string i) \<Longrightarrow> c \<noteq> CHR '' ''"
proof -
  assume "c \<in> set (to_string i)"
  then have "c = CHR ''-'' \<or> is_digit c"
    using dec_digits [of "nat i"] dec_digits [of "nat (- i)"] by (auto simp: to_string_def list_all_iff split: if_splits)
  then show ?thesis by (auto simp: is_digit_def)
qed

lemma get_put_int [simp]: "get_int (put_int i t) = Some (i, t)"
proof -
  have "takeWhile (\<lambda>c. c \<noteq> CHR '' '') (put_int i t) = to_string i" "dropWhile (\<lambda>c. c \<noteq> CHR '' '') (put_int i t) = CHR '' '' # t"
    using to_string_no_space [of _ i] by (auto simp: put_int_def takeWhile_append dropWhile_append)
  then show ?thesis by (simp add: get_int_def)
qed

lemma text_protobuf_ok: "protobuf_ok text_parsers text_env text_message"
  by (simp add: protobuf_ok_def text_parsers_def text_env_def text_message_def)

text \<open>Bot 3 owns player 7, who sits in room 1000.\<close>

definition bot_room :: "(rat option, sim, string \<Rightarrow> zset) server" where
  "bot_room = login_room\<lparr>account_players := [(''bot_3'', 7)]\<rparr>"

definition bot3 :: BotClient where
  "bot3 = (BotClient_new 3 BotOptions_default None)\<lparr>bc_player_id := 7, session_token := ''7_5''\<rparr>"

lemma bot_room_inv: "rooms_inv full_context bot_room"
  using login_room_inv rooms_inv_ids [of bot_room login_room full_context] by (simp add: bot_room_def)

lemma bot_room_alive: "conn_alive (heap (sv_net bot_room) 2)"
  by (simp add: bot_room_def login_room_def Session_new_def)

lemma bot3_account: "''bot_'' @ to_string (bc_index bot3) = ''bot_3''"
proof -
  have "char_of (51 :: nat) = CHR ''3''" by code_simp
  then have "dec 3 = ''3''" by (subst dec.simps) (simp add: digit_char_def)
  then show ?thesis by (simp add: bot3_def BotClient_new_def to_string_def)
qed

lemma bot3_login: "\<exists>b' s'. exchange down_env text_parsers text_env text_message (8, 8) 2 (BotClient_Login text_env) (bot3, bot_room)
    = Some (b', s')"
proof -
  let ?s = "bot_room"
  have "account_find ''bot_3'' ?s = Some 7" by (simp add: account_find_def bot_room_def)
  then have goc: "LoginService_GetOrCreatePlayerId down_env ''bot_3'' ?s = (7, ?s)"
    by (simp add: LoginService_GetOrCreatePlayerId_def account_key_def)
  have "\<not> my_conn (sv_mysql (login_bind down_env 8 8 7 2 ?s))"
    by (simp add: bot_room_def login_room_def room79_def empty_server_def mysql0_def)
  then obtain s' where l: "LoginService_HandleLogin down_env 8 8 (Some 2) (Some ''bot_3'') ?s = (None, s')"
    using down_load_player [of "login_bind down_env 8 8 7 2 ?s" 7] goc
    by (auto simp: LoginService_HandleLogin_def split_beta)
  have [simp]: "parse_login text_parsers (serialize text_env (LoginRequest (CHR ''b'' # CHR ''o'' # CHR ''t'' # CHR ''_'' # to_string (bc_index bot3)) t))
      = Some ''bot_3''" for t
    using bot3_account by (simp add: text_parsers_def text_env_def)
  have "Dispatch (server_dispatcher down_env text_parsers) (8, 8) (Some 2) (last (bc_built (BotClient_Login text_env bot3))) ?s
      = Completed s'"
    using l by (simp add: BotClient_Login_def last_built Dispatch_request serve_def with_exception_def)
  then show ?thesis by (simp add: exchange_def Let_def)
qed

theorem bot_login_agrees_witness:
  "\<exists>b' s'. exchange down_env text_parsers text_env text_message (8, 8) 2 (BotClient_Login text_env) (bot3, bot_room)
      = Some (b', s') \<and> account_find ''bot_3'' s' = Some (bc_player_id b') \<and> bc_state b' = Bot_Client.LoggedIn"
proof -
  obtain b' s' where x: "exchange down_env text_parsers text_env text_message (8, 8) 2 (BotClient_Login text_env) (bot3, bot_room)
      = Some (b', s')" using bot3_login by blast
  have full: "ctx down_env = full_context" by simp
  show ?thesis
    using bot_login_agrees [of down_env bot_room text_parsers text_env text_message 2 "(8, 8)" bot3 b' s']
      full text_protobuf_ok bot_room_alive x bot_room_inv unfolding bot3_account by auto
qed

theorem bot_reconnect_agrees_witness:
  "\<exists>b' s'. exchange down_env text_parsers text_env text_message (8, 8) 2 (BotClient_Reconnect text_env) (bot3, bot_room)
      = Some (b', s') \<and> bc_room_id b' = 1000 \<and> bc_state b' = Bot_Client.InRoom \<and> GetByPlayerId 7 s' = Some 2"
proof -
  have full: "ctx down_env = full_context" by simp
  have t: "um_find (session_tokens bot_room) (bc_player_id bot3) = Some (session_token bot3)" "bc_player_id bot3 = 7"
    by (simp_all add: bot_room_def login_room_def bot3_def)
  have "RoomManager_GetPlayerRoom 7 bot_room = Some (1000, add_players [7, 9] (Room_new 1000 True))"
    by (simp add: GetPlayerRoom_Some bot_room_def login_room_def room79_simps)
  then show ?thesis
    using bot_reconnect_agrees [OF full _ text_protobuf_ok bot_room_alive, of "(8, 8)" bot3] bot_room_inv t by auto
qed

end
