(* ===== verification/Bot_Match.thy ===== *)
theory Bot_Match
  imports Bot_Server
begin

text \<open>
  Simulated clients and the server's matchmaking: what \<open>MatchService::HandleMatch\<close> sends on each
  connection, what a client makes of it, and that the clients of a full group and the server end up in
  agreement on the room.
\<close>

subsection \<open>What the matchmaking sends\<close>

lemma enter_room_alive [simp]:
  "conn_alive (heap (sv_net (fold (enter_room c rid) ps s)) x) = conn_alive (heap (sv_net s) x)"
  by (induction ps arbitrary: s)
     (auto simp: enter_room_def Let_def Session_SetRoomId_def on_session_def split: option.splits)

lemma CreateRoom_reach [simp]:
  "reachable_sessions ps (sv_net (snd (RoomManager_CreateRoom c qs s))) = reachable_sessions ps (sv_net s)"
  by (simp add: reachable_sessions_def RoomManager_CreateRoom_def NextRoomId_def Let_def)

lemma reachable_cong:
  assumes "player_sessions n' = player_sessions n" and "\<And>x. conn_alive (heap n' x) = conn_alive (heap n x)"
  shows "reachable_sessions ps n' = reachable_sessions ps n"
  using assms by (simp add: reachable_sessions_def)

lemma notify_outbox:
  assumes "connection_manager_set c"
  shows "outbox (sv_net (fold (notify_match c rid msg) ps s)) =
    outbox (sv_net s) @ map (\<lambda>x. (x, MSG_MATCH_SUCCESS_NOTIFY, msg)) (reachable_sessions ps (sv_net s))"
proof (induction ps arbitrary: s)
  case Nil
  then show ?case by (simp add: reachable_sessions_def List.map_filter_simps)
next
  case (Cons p ps)
  have "reachable_sessions ps (sv_net (notify_match c rid msg p s)) = reachable_sessions ps (sv_net s)"
    by (rule reachable_cong) simp_all
  moreover have "outbox (sv_net (notify_match c rid msg p s)) @ map (\<lambda>x. (x, MSG_MATCH_SUCCESS_NOTIFY, msg)) (reachable_sessions ps (sv_net s)) =
      outbox (sv_net s) @ map (\<lambda>x. (x, MSG_MATCH_SUCCESS_NOTIFY, msg)) (reachable_sessions (p # ps) (sv_net s))"
    using assms by (auto simp: notify_match_def reachable_sessions_def List.map_filter_simps GetByPlayerId_def
        ConnectionManager_GetByPlayerId_def send_def Session_Send_def Let_def split: option.split)
  ultimately show ?case by (simp add: Cons.IH)
qed

lemma match_players_outbox:
  assumes "connection_manager_set c"
  shows "outbox (sv_net (match_players c ps s)) = outbox (sv_net s) @
    map (\<lambda>x. (x, MSG_MATCH_SUCCESS_NOTIFY, MatchSuccessNotify (next_room_id (sv_ids s)) ps)) (reachable_sessions ps (sv_net s))"
  by (simp add: match_players_def split_beta notify_outbox [OF assms])

text \<open>The requesting connection gets the answer; when the group is full, every player of it whose
  connection is alive gets the notice.\<close>

lemma HandleMatch_outbox:
  assumes "mq_inv (sv_queue s)" and "to_size_t (room_player_count (sv_config s)) = n"
    and "length (queue (sv_queue s)) < n" and "ctx env = full_context"
    and "pid \<noteq> 0" and "pid \<notin> set (queue (sv_queue s))" and alive: "conn_alive (heap (sv_net s) ses)"
  shows "outbox (sv_net (MatchService_HandleMatch env (Some ses) (Some pid) s)) =
    outbox (sv_net s) @ (ses, MSG_MATCH_RESP, MatchResponse 0 ''matching'') #
      (let ps = queue (sv_queue s) @ [pid] in
       if length ps < n then []
       else map (\<lambda>x. (x, MSG_MATCH_SUCCESS_NOTIFY, MatchSuccessNotify (next_room_id (sv_ids s)) ps)) (reachable_sessions ps (sv_net s)))"
proof -
  let ?q = "queue (sv_queue s)" and ?s' = "MatchService_HandleMatch env (Some ses) (Some pid) s"
  obtain mq where mq: "MatchQueue_Push pid (sv_queue s) = (True, mq)" "queue mq = ?q @ [pid]"
    using assms(1,5,6) by (simp add: MatchQueue_Push_def mq_inv_def)
  obtain t where t: "?s' = MatchService_TryCreateRoom env t" "sv_ids t = sv_ids s" "sv_queue t = mq" "sv_config t = sv_config s"
      "outbox (sv_net t) = outbox (sv_net s) @ [(ses, MSG_MATCH_RESP, MatchResponse 0 ''matching'')]"
      "player_sessions (sv_net t) = player_sessions (sv_net s)" "\<And>x. conn_alive (heap (sv_net t) x) = conn_alive (heap (sv_net s) x)"
    using assms(5) mq(1) alive
    by (auto simp: MatchService_HandleMatch_def MatchService_StartMatching_def Let_def send_def Session_Send_def
        Session_SetRoomId_def on_session_def)
  have r: "reachable_sessions ps (sv_net t) = reachable_sessions ps (sv_net s)" for ps
    by (rule reachable_cong) (simp_all add: t)
  show ?thesis
  proof (cases "length ?q + 1 < n")
    case True
    then have "?s' = t" using TryCreateRoom_short [of t env] t mq(2) assms(2) by simp
    then show ?thesis using t(5) True by simp
  next
    case False
    then have len: "length (queue (sv_queue t)) = n" "0 < n" using assms(3) t(3) mq(2) by simp_all
    have c: "connection_manager_set (ctx env)" "room_manager_set (ctx env)" by (simp_all add: assms(4) full_context_def)
    have "?s' = match_players (ctx env) (?q @ [pid]) (t\<lparr>sv_queue := snd (MatchQueue_TryPopN n (sv_queue t))\<rparr>)"
      using TryCreateRoom_exact [of t n env] len c(2) t mq(2) assms(2) by simp
    then show ?thesis using False by (simp add: match_players_outbox [OF c(1)] t(2,5) r Let_def)
  qed
qed

subsection \<open>What a client makes of it\<close>

lemma flow_of_round [simp]:
  "flow_of (snd (MaybeScheduleDisconnect env point b)) = flow_of b"
  "flow_of (ScheduleCancelMatch env b) = flow_of b"
proof -
  have "flow_of (set_round_flag point x) = flow_of x" for x
    by (simp add: flow_of_def set_round_flag_def split: DisconnectPoint.split)
  then show "flow_of (snd (MaybeScheduleDisconnect env point b)) = flow_of b" "flow_of (ScheduleCancelMatch env b) = flow_of b"
    by (simp_all add: MaybeScheduleDisconnect_def ScheduleCancelMatch_def Let_def split_beta)
qed

lemma match_answer:
  assumes "protobuf_ok ps benv enc"
  shows "flow_of (BotClient_OnMessage benv (Build (msg_value MSG_MATCH_RESP) (enc (MatchResponse 0 msg)) sq) b) =
    (bc_player_id b, session_token b, bc_room_id b, Bot_Client.Matching, bc_index b)"
  using assms by (simp add: BotClient_OnMessage_def BotClient_HandleMatchResponse_def protobuf_ok_def Let_def split_beta)
    (simp add: flow_of_def)

lemma success_answer:
  assumes "protobuf_ok ps benv enc"
  shows "flow_of (BotClient_OnMessage benv (Build (msg_value MSG_MATCH_SUCCESS_NOTIFY) (enc (MatchSuccessNotify rid pids)) sq) b) =
    (bc_player_id b, session_token b, rid, Bot_Client.InRoom, bc_index b)"
proof -
  let ?b = "count_stat (match_success_update inc64) (b\<lparr>bc_room_id := rid, bc_state := Bot_Client.InRoom, input_loop_active := False\<rparr>)"
  let ?c = "snd (MaybeScheduleDisconnect benv AtRoom ?b)"
  have "BotClient_OnMessage benv (Build (msg_value MSG_MATCH_SUCCESS_NOTIFY) (enc (MatchSuccessNotify rid pids)) sq) b \<in>
      {?c, schedule_jitter benv 50 Do_ReadyFlow ?c}"
    using assms by (simp add: BotClient_OnMessage_def BotClient_HandleMatchSuccess_def protobuf_ok_def Let_def split_beta)
  moreover have "flow_of ?b = (bc_player_id b, session_token b, rid, Bot_Client.InRoom, bc_index b)"
    by (simp add: flow_of_def count_stat_def)
  ultimately show ?thesis by auto
qed

lemma success_answers:
  assumes pb: "protobuf_ok ps benv enc"
  shows "flow_of (fold (BotClient_OnMessage benv) (replicate (Suc k) (Build (msg_value MSG_MATCH_SUCCESS_NOTIFY) (enc (MatchSuccessNotify rid pids)) sq)) b) =
    (bc_player_id b, session_token b, rid, Bot_Client.InRoom, bc_index b)"
proof (induction k arbitrary: b)
  case 0
  then show ?case by (simp add: success_answer [OF pb] del: msg_value.simps)
next
  case (Suc k)
  let ?p = "Build (msg_value MSG_MATCH_SUCCESS_NOTIFY) (enc (MatchSuccessNotify rid pids)) sq"
  let ?b = "BotClient_OnMessage benv ?p b"
  have "bc_player_id ?b = bc_player_id b" "session_token ?b = session_token b" "bc_index ?b = bc_index b"
    using success_answer [OF pb, of rid pids sq b] by (simp_all add: flow_of_def del: msg_value.simps)
  then show ?case using Suc.IH [of ?b] by (simp del: msg_value.simps)
qed

text \<open>What one message to a list of connections means for one of them.\<close>

lemma answers_map:
  "map (\<lambda>(y, mid, m). Build (msg_value mid) (enc m) 0) (filter (\<lambda>e. fst e = x) (map (\<lambda>y. (y, mid, m)) xs)) =
     replicate (count_list xs x) (Build (msg_value mid) (enc m) 0)"
  by (induction xs) auto

text \<open>The packets for one connection: the answer if it asked, then as many notices as players of the group use it.\<close>

lemma answers_match:
  assumes "outbox (sv_net s') = outbox (sv_net s) @ (ses, MSG_MATCH_RESP, MatchResponse 0 msg) #
    map (\<lambda>y. (y, MSG_MATCH_SUCCESS_NOTIFY, MatchSuccessNotify rid pids)) xs"
  shows "answers_to enc x s s' =
    (if ses = x then [Build (msg_value MSG_MATCH_RESP) (enc (MatchResponse 0 msg)) 0] else []) @
    replicate (count_list xs x) (Build (msg_value MSG_MATCH_SUCCESS_NOTIFY) (enc (MatchSuccessNotify rid pids)) 0)"
  by (simp add: answers_to_def assms answers_map del: msg_value.simps)

lemma reachable_count:
  assumes "p \<in> set ps" and "GetByPlayerId p s = Some x" and "conn_alive (heap (sv_net s) x)"
  obtains k where "count_list (reachable_sessions ps (sv_net s)) x = Suc k"
proof -
  have "x \<in> set (reachable_sessions ps (sv_net s))"
    using assms by (force simp: reachable_sessions_def GetByPlayerId_def ConnectionManager_GetByPlayerId_def List.map_filter_def)
  then have "count_list (reachable_sessions ps (sv_net s)) x \<noteq> 0" by (simp add: count_list_0_iff)
  then show ?thesis using that not0_implies_Suc by blast
qed

subsection \<open>Properties\<close>

text \<open>C13. A match request of a simulated client: as long as the group is not full, the client is matching and the
  server has it in its queue.  The request that fills the group takes it into the room that the server
  has opened, and so does every client whose player was waiting and whose connection is alive: clients
  and server agree on the room.\<close>

theorem bot_match_agrees:
  assumes "ctx env = full_context" and pb: "protobuf_ok ps benv enc"
    and "mq_inv (sv_queue s)" and "to_size_t (room_player_count (sv_config s)) = n" and "length (queue (sv_queue s)) < n"
    and "1000 \<le> next_room_id (sv_ids s)" and "next_room_id (sv_ids s) + int n < 2 ^ 63"
    and "bc_connected b" and "bc_room_id b = 0" and "bc_player_id b \<noteq> 0" and "bc_player_id b \<notin> set (queue (sv_queue s))"
    and own: "GetByPlayerId (bc_player_id b) s = Some ses" and alive: "conn_alive (heap (sv_net s) ses)"
  shows "\<exists>b' s'. exchange env ps benv enc clock ses (BotClient_Match benv) (b, s) = Some (b', s') \<and>
    bc_player_id b' = bc_player_id b \<and> session_token b' = session_token b \<and>
    (let q = queue (sv_queue s); rid = next_room_id (sv_ids s); group = insert (bc_player_id b) (set q) in
     if length q + 1 < n
     then bc_state b' = Bot_Client.Matching \<and> bc_room_id b' = 0 \<and> queue (sv_queue s') = q @ [bc_player_id b]
     else bc_state b' = Bot_Client.InRoom \<and> bc_room_id b' = rid \<and> queue (sv_queue s') = [] \<and>
       waiting_room s' rid group \<and> (\<forall>p\<in>group. placed full_context s' rid p) \<and>
       (\<forall>p x other. p \<in> set q \<and> GetByPlayerId p s = Some x \<and> conn_alive (heap (sv_net s) x) \<longrightarrow>
          bc_state (fold (BotClient_OnMessage benv) (answers_to enc x s s') other) = Bot_Client.InRoom \<and>
          bc_room_id (fold (BotClient_OnMessage benv) (answers_to enc x s s') other) = rid))"
proof -
  let ?pid = "bc_player_id b" and ?b1 = "BotClient_Match benv b" and ?q = "queue (sv_queue s)" and ?rid = "next_room_id (sv_ids s)"
  let ?ps = "?q @ [?pid]"
  define s' where "s' = MatchService_HandleMatch env (Some ses) (Some ?pid) s"
  define b' where "b' = fold (BotClient_OnMessage benv) (answers_to enc ses s s') ?b1"
  have "Dispatch (server_dispatcher env ps) clock (Some ses) (last (bc_built ?b1)) s = Completed s'"
    using pb assms(8-10) by (simp add: BotClient_Match_def last_built Dispatch_request serve_def protobuf_ok_def s'_def)
  then have x: "exchange env ps benv enc clock ses (BotClient_Match benv) (b, s) = Some (b', s')"
    by (simp add: exchange_def b'_def Let_def)
  have b1: "bc_player_id ?b1 = ?pid" "session_token ?b1 = session_token b" "bc_room_id ?b1 = 0"
    using assms(8-10) by (simp_all add: BotClient_Match_def send_request_def SendPacket_def Let_def)
  note out = HandleMatch_outbox [OF assms(3-5,1,10,11) alive, folded s'_def]
  have state: "if length ?q + 1 < n then queue (sv_queue s') = ?ps
      else queue (sv_queue s') = [] \<and> waiting_room s' ?rid (insert ?pid (set ?q)) \<and>
        (\<forall>p\<in>insert ?pid (set ?q). placed full_context s' ?rid p)"
    using match_outcome [OF assms(3-5,1,10,11) disjI1 [OF refl] assms(6,7), of ses] unfolding s'_def Let_def
    by (cases "length ?q + 1 < n") simp_all
  show ?thesis
  proof (cases "length ?q + 1 < n")
    case True
    then have "answers_to enc ses s s' = [Build (msg_value MSG_MATCH_RESP) (enc (MatchResponse 0 ''matching'')) 0]"
      by (intro answers_one) (simp add: out)
    then have "flow_of b' = (?pid, session_token b, 0, Bot_Client.Matching, bc_index ?b1)"
      unfolding b'_def by (simp only: fold.simps comp_def id_apply match_answer [OF pb] b1)
    then show ?thesis using x state True by (auto simp: flow_of_def)
  next
    case False
    then have o: "outbox (sv_net s') = outbox (sv_net s) @ (ses, MSG_MATCH_RESP, MatchResponse 0 ''matching'') #
        map (\<lambda>y. (y, MSG_MATCH_SUCCESS_NOTIFY, MatchSuccessNotify ?rid ?ps)) (reachable_sessions ?ps (sv_net s))"
      by (simp add: out Let_def)
    have room: "bc_state c' = Bot_Client.InRoom \<and> bc_room_id c' = ?rid \<and>
        (x = ses \<longrightarrow> bc_player_id c' = bc_player_id c \<and> session_token c' = session_token c)"
      if reach: "p \<in> set ?ps" "GetByPlayerId p s = Some x" "conn_alive (heap (sv_net s) x)"
        and c': "c' = fold (BotClient_OnMessage benv) (answers_to enc x s s') c" for p x c c'
    proof -
      obtain k where k: "count_list (reachable_sessions ?ps (sv_net s)) x = Suc k" using reachable_count [OF reach] .
      let ?first = "BotClient_OnMessage benv (Build (msg_value MSG_MATCH_RESP) (enc (MatchResponse 0 ''matching'')) 0) c"
      have "bc_player_id ?first = bc_player_id c" "session_token ?first = session_token c"
        using match_answer [OF pb, of "''matching''" 0 c] by (simp_all add: flow_of_def del: msg_value.simps)
      moreover have "c' = fold (BotClient_OnMessage benv)
          (replicate (Suc k) (Build (msg_value MSG_MATCH_SUCCESS_NOTIFY) (enc (MatchSuccessNotify ?rid ?ps)) 0)) (if ses = x then ?first else c)"
        by (simp add: c' answers_match [OF o] k del: msg_value.simps)
      ultimately show ?thesis
        using success_answers [OF pb, of k ?rid ?ps 0 "if ses = x then ?first else c"] by (auto simp: flow_of_def)
    qed
    have others: "bc_state (fold (BotClient_OnMessage benv) (answers_to enc x s s') other) = Bot_Client.InRoom \<and>
        bc_room_id (fold (BotClient_OnMessage benv) (answers_to enc x s s') other) = ?rid"
      if "p \<in> set ?q" "GetByPlayerId p s = Some x" "conn_alive (heap (sv_net s) x)" for p x other
      using room [OF _ that(2,3) refl, of other] that(1) by simp
    show ?thesis using x state False b1 room [OF _ own alive b'_def] others
      by (intro exI [of _ b'] exI [of _ s']) (simp add: Let_def, blast)
  qed
qed

text \<open>Player 7 waits on connection 1; the client of player 9 asks for a match on connection 0, in rooms of two.\<close>

definition bot9 :: BotClient where
  "bot9 = (BotClient_new 9 BotOptions_default None)\<lparr>bc_player_id := 9, bc_connected := True\<rparr>"

definition waiting_clients :: "(rat option, sim, string \<Rightarrow> zset) server" where
  "waiting_clients = waiting7\<lparr>sv_net := (sv_net waiting7)\<lparr>heap := (\<lambda>p. Session_new 1 0), player_sessions := [(9, 0), (7, 1)]\<rparr>\<rparr>"

theorem bot_match_agrees_witness:
  "\<exists>b' s'. exchange unit_env text_parsers text_env text_message (8, 8) 0 (BotClient_Match text_env) (bot9, waiting_clients)
      = Some (b', s') \<and> bc_room_id b' = 1000 \<and> waiting_room s' 1000 {9, 7} \<and>
    (\<forall>other. bc_room_id (fold (BotClient_OnMessage text_env) (answers_to text_message 1 waiting_clients s') other) = 1000)"
proof -
  have w: "sv_queue waiting_clients = \<lparr>queue = [7], in_queue = {7}\<rparr>" "next_room_id (sv_ids waiting_clients) = 1000"
    "to_size_t (room_player_count (sv_config waiting_clients)) = 2"
    "GetByPlayerId 9 waiting_clients = Some 0" "GetByPlayerId 7 waiting_clients = Some 1"
    "conn_alive (heap (sv_net waiting_clients) x)" for x
    by (simp_all add: waiting_clients_def waiting7_def empty_server_def id_counters_init_def config_default_def to_size_t_def
        GetByPlayerId_def ConnectionManager_GetByPlayerId_def Session_new_def)
  have b: "bc_connected bot9" "bc_room_id bot9 = 0" "bc_player_id bot9 = 9"
    by (simp_all add: bot9_def BotClient_new_def)
  have c: "ctx unit_env = full_context" "mq_inv (sv_queue waiting_clients)" by (simp_all add: unit_env_def w(1) mq_inv_def)
  obtain b' s' where x: "exchange unit_env text_parsers text_env text_message (8, 8) 0 (BotClient_Match text_env) (bot9, waiting_clients) = Some (b', s')"
    and r: "bc_room_id b' = 1000" "waiting_room s' 1000 {9, 7}"
    and o: "\<forall>p x other. p \<in> {7} \<and> GetByPlayerId p waiting_clients = Some x \<and> conn_alive (heap (sv_net waiting_clients) x) \<longrightarrow>
          bc_room_id (fold (BotClient_OnMessage text_env) (answers_to text_message x waiting_clients s') other) = 1000"
    using bot_match_agrees [OF c(1) text_protobuf_ok c(2) w(3), of bot9 0 "(8, 8)"] w b unfolding Let_def by auto
  have "bc_room_id (fold (BotClient_OnMessage text_env) (answers_to text_message 1 waiting_clients s') other) = 1000" for other
    using o [rule_format, of 7 1 other] w(5) w(6) [of 1] by simp
  then show ?thesis using x r by blast
qed

end
