(* ===== verification/Bot_Play.thy ===== *)
theory Bot_Play
  imports Bot_Match Settlement_Loop
begin

text \<open>
  Simulated clients and a battle: the ready request that starts it, and the tick that ends it.  In both the
  clients whose players are in the room and the server end up in agreement.
\<close>

subsection \<open>What the room sends\<close>

lemma answers_broadcasts:
  assumes "outbox (sv_net s') = outbox (sv_net s) @ map (\<lambda>y. (y, mid1, m1)) xs @ map (\<lambda>y. (y, mid2, m2)) ys"
  shows "answers_to enc x s s' =
    replicate (count_list xs x) (Build (msg_value mid1) (enc m1) 0) @ replicate (count_list ys x) (Build (msg_value mid2) (enc m2) 0)"
  by (simp add: answers_to_def assms answers_map)

lemma broadcast_outbox:
  assumes "um_find (sv_rooms s) rid = Some r" and "has_connections r"
  shows "outbox (sv_net (broadcast rid mid m s)) =
    outbox (sv_net s) @ map (\<lambda>y. (y, mid, m)) (reachable_sessions (um_keys (room_players r)) (sv_net s))"
  using assms by (simp add: broadcast_def Room_Broadcast_outbox)

definition others_ready :: "i64 \<Rightarrow> room \<Rightarrow> bool" where
  "others_ready pid r \<longleftrightarrow> (\<forall>(q, p) \<in> set (room_players r). q = pid \<or> ready p)"

lemma all_ready_modify_raw:
  "(\<forall>(_, p) \<in> set (um_modify pid (\<lambda>p. p\<lparr>ready := True\<rparr>) ps). ready p) \<longleftrightarrow> (\<forall>(q, p) \<in> set ps. q = pid \<or> ready p)"
  by (induction ps) (auto split: if_splits)

lemma all_ready_modify:
  assumes "pid \<in> fst ` set (room_players r)"
  shows "all_ready (um_modify pid (\<lambda>p. p\<lparr>ready := True\<rparr>) (room_players r)) = others_ready pid r"
proof -
  have "room_players r \<noteq> []" using assms by auto
  then show ?thesis using all_ready_modify_raw [of pid "room_players r"] by (simp add: all_ready_iff others_ready_def)
qed

text \<open>What the start of a battle writes into the player objects.\<close>

lemma start_players_frame:
  "\<exists>pm. fold (start_player c rid) ps s = s\<lparr>sv_pm := pm\<rparr> \<and> online_sessions pm = online_sessions (sv_pm s)"
proof (induction ps arbitrary: s)
  case (Cons p ps)
  obtain pm1 where p: "start_player c rid p s = s\<lparr>sv_pm := pm1\<rparr>" "online_sessions pm1 = online_sessions (sv_pm s)"
  proof (cases "player_manager_set c")
    case True
    then show ?thesis by (intro that [of "with_player p (SetPlayerRoomId rid \<circ> SetStatus InBattle) (sv_pm s)"]) (simp_all add: start_player_def)
  next
    case False
    then show ?thesis by (intro that [of "sv_pm s"]) (simp_all add: start_player_def)
  qed
  obtain pm where "fold (start_player c rid) ps (s\<lparr>sv_pm := pm1\<rparr>) = s\<lparr>sv_pm := pm1, sv_pm := pm\<rparr>"
    "online_sessions pm = online_sessions pm1" using Cons [of "s\<lparr>sv_pm := pm1\<rparr>"] by auto
  then show ?case using p by (intro exI [of _ pm]) simp
next
  case Nil
  show ?case by (rule exI [of _ "sv_pm s"]) simp
qed

lemma start_players_find:
  assumes "player_manager_set c"
  shows "um_find (players (sv_pm (fold (start_player c rid) ps s))) q =
    (if q \<in> set ps then Some ((case um_find (players (sv_pm s)) q of None \<Rightarrow> Player_new q (''player_'' @ to_string q) | Some x \<Rightarrow> x)
        \<lparr>pl_status := InBattle, pl_room_id := rid\<rparr>)
     else um_find (players (sv_pm s)) q)"
proof (induction ps arbitrary: s)
  case (Cons p ps)
  have "um_find (players (sv_pm (start_player c rid p s))) q = (if q = p
      then Some ((case um_find (players (sv_pm s)) q of None \<Rightarrow> Player_new q (''player_'' @ to_string q) | Some x \<Rightarrow> x)
        \<lparr>pl_status := InBattle, pl_room_id := rid\<rparr>) else um_find (players (sv_pm s)) q)"
    using assms by (auto simp: start_player_def player_setters split: option.split)
  then show ?case using Cons.IH [of "start_player c rid p s"]
    by (cases "q = p"; cases "q \<in> set ps") (simp_all cong: option.case_cong)
qed simp

lemma StartGameRoom_frame:
  assumes r: "um_find (sv_rooms s) p = Some r" and full: "ctx env = full_context"
  defines "s' \<equiv> RoomManager_StartGameRoom env (Some p) s"
  obtains n pm lp where "s' = s\<lparr>sv_net := n, sv_pm := pm, sv_loop := lp\<rparr>" and "heap n = heap (sv_net s)"
    and "sessions n = sessions (sv_net s)" and "player_sessions n = player_sessions (sv_net s)" and "closing n = closing (sv_net s)"
    and "online_sessions pm = online_sessions (sv_pm s)"
    and "\<And>q. um_find (players pm) q = (if q \<in> set (Room_PlayerIds r)
      then Some ((case um_find (players (sv_pm s)) q of None \<Rightarrow> Player_new q (''player_'' @ to_string q) | Some x \<Rightarrow> x)
        \<lparr>pl_status := InBattle, pl_room_id := room_id r\<rparr>)
      else um_find (players (sv_pm s)) q)"
proof -
  let ?g = "GameRoom_Start (floats env) (Room_PlayerIds r) (GameRoom_new (room_id r))"
  let ?s1 = "on_loop (GameLoop_AddRoom (Some ?g)) s"
  obtain pm where pm: "fold (start_player full_context (room_id r)) (Room_PlayerIds r) ?s1 = ?s1\<lparr>sv_pm := pm\<rparr>"
    "online_sessions pm = online_sessions (sv_pm ?s1)" using start_players_frame by blast
  let ?b = "broadcast p MSG_ROOM_STATE_NOTIFY (RoomStateNotify (room_id r) 2 (Room_PlayerIds r)) (?s1\<lparr>sv_pm := pm\<rparr>)"
  have s': "s' = ?b" using r full pm(1) by (simp add: s'_def RoomManager_StartGameRoom_def Let_def full_context_def)
  have "?b = s\<lparr>sv_net := sv_net ?b, sv_pm := pm, sv_loop := sv_loop ?s1\<rparr>"
    by (simp add: broadcast_def split: option.splits)
  moreover have "player_manager_set full_context" by (simp add: full_context_def)
  note start_players_find [OF this, of "room_id r" "Room_PlayerIds r" ?s1]
  ultimately show ?thesis using that [of "sv_loop ?s1" pm "sv_net ?b"] pm s' by simp
qed

text \<open>The ready request of a player whose room is waiting.\<close>

lemma HandleReady_waiting:
  assumes full: "ctx env = full_context" and inv: "rooms_inv (ctx env) s"
    and room: "RoomManager_GetPlayerRoom (player_of ses s) s = Some (rid, r)" and "room_state r = Waiting"
    and s': "s' = RoomManager_HandleReady env (Some ses) (Some True) s"
  defines "r' \<equiv> r\<lparr>room_players := um_modify (player_of ses s) (\<lambda>p. p\<lparr>ready := True\<rparr>) (room_players r),
      room_state := if others_ready (player_of ses s) r then Playing else Waiting\<rparr>"
    and "rs \<equiv> reachable_sessions (um_keys (room_players r)) (sv_net s)"
  shows "um_find (sv_rooms s') rid = Some r'"
    and "outbox (sv_net s') = outbox (sv_net s) @ map (\<lambda>y. (y, MSG_READY_NOTIFY, ReadyNotify (player_of ses s) True)) rs @
      map (\<lambda>y. (y, MSG_ROOM_STATE_NOTIFY, RoomStateNotify rid 2 (um_keys (room_players r))))
        (if others_ready (player_of ses s) r then rs else [])"
    and "sv_loop s' = (if others_ready (player_of ses s) r
      then GameLoop_AddRoom (Some (GameRoom_Start (floats env) (um_keys (room_players r)) (GameRoom_new rid))) (sv_loop s)
      else sv_loop s)"
proof -
  let ?pid = "player_of ses s"
  have m: "um_find (player_room_map s) ?pid = Some rid" "um_find (sv_rooms s) rid = Some r"
    using room by (simp_all add: GetPlayerRoom_Some)
  have mem: "?pid \<in> fst ` set (room_players r)" using rooms_invD(3) [OF inv m(1)] m(2) by simp
  have ok: "room_id r = rid" "has_connections r" "game_loop_set (ctx env)"
    using rooms_invD(2) [OF inv m(2)] full by (simp_all add: room_ok_def full_context_def)
  obtain p where p: "um_find (room_players r) ?pid = Some p" using um_find_member [OF mem] by blast
  let ?n = "Room_Broadcast r' MSG_READY_NOTIFY (ReadyNotify ?pid True) (sv_net s)"
  let ?s1 = "(on_room rid (\<lambda>_. r') s)\<lparr>sv_net := ?n\<rparr>"
  have t: "Room_SetReadyAndTryStart ?pid True r (sv_net s) = (others_ready ?pid r, r', ?n)"
    using assms(4) p by (simp add: Room_SetReadyAndTryStart_def Let_def all_ready_modify [OF mem] r'_def)
  have s1: "s' = (if others_ready ?pid r then RoomManager_StartGameRoom env (Some rid) ?s1 else ?s1)"
    by (simp add: s' RoomManager_HandleReady_def room t)
  have r1: "um_find (sv_rooms ?s1) rid = Some r'" using m(2) by (simp add: on_room_def)
  have keys: "um_keys (room_players r') = um_keys (room_players r)" "room_id r' = rid" "has_connections r'"
    by (simp_all add: r'_def ok)
  note g = StartGameRoom_simps [OF r1 ok(3)]
  show "um_find (sv_rooms s') rid = Some r'" using r1 g(1) by (simp add: s1)
  show "sv_loop s' = (if others_ready ?pid r
      then GameLoop_AddRoom (Some (GameRoom_Start (floats env) (um_keys (room_players r)) (GameRoom_new rid))) (sv_loop s)
      else sv_loop s)"
    using g(6) by (simp add: s1 Room_PlayerIds_def keys) (simp add: on_room_def)
  have n: "outbox ?n = outbox (sv_net s) @ map (\<lambda>y. (y, MSG_READY_NOTIFY, ReadyNotify ?pid True)) rs"
    using keys by (simp add: Room_Broadcast_outbox rs_def)
  have rs: "reachable_sessions (um_keys (room_players r)) ?n = rs"
    unfolding rs_def by (rule reachable_cong) simp_all
  have "outbox (sv_net (RoomManager_StartGameRoom env (Some rid) ?s1)) =
      outbox ?n @ map (\<lambda>y. (y, MSG_ROOM_STATE_NOTIFY, RoomStateNotify rid 2 (um_keys (room_players r)))) rs"
    using r1 ok(3) keys rs by (simp add: RoomManager_StartGameRoom_def Let_def Room_PlayerIds_def broadcast_outbox)
  then show "outbox (sv_net s') = outbox (sv_net s) @ map (\<lambda>y. (y, MSG_READY_NOTIFY, ReadyNotify ?pid True)) rs @
      map (\<lambda>y. (y, MSG_ROOM_STATE_NOTIFY, RoomStateNotify rid 2 (um_keys (room_players r))))
        (if others_ready ?pid r then rs else [])"
    using n by (simp add: s1)
qed

text \<open>What such a request leaves alone: \<open>n\<close>, \<open>pm\<close> and \<open>lp\<close> are the connections, the players and the loop after it.\<close>

lemma HandleReady_frame:
  assumes full: "ctx env = full_context" and inv: "rooms_inv (ctx env) s"
    and room: "RoomManager_GetPlayerRoom (player_of ses s) s = Some (rid, r)" and "room_state r = Waiting"
    and s': "s' = RoomManager_HandleReady env (Some ses) (Some True) s"
  defines "r' \<equiv> r\<lparr>room_players := um_modify (player_of ses s) (\<lambda>p. p\<lparr>ready := True\<rparr>) (room_players r),
      room_state := if others_ready (player_of ses s) r then Playing else Waiting\<rparr>"
  obtains n pm lp where "s' = s\<lparr>sv_net := n, sv_pm := pm, sv_rooms := um_modify rid (\<lambda>_. r') (sv_rooms s), sv_loop := lp\<rparr>"
    and "heap n = heap (sv_net s)" and "sessions n = sessions (sv_net s)"
    and "player_sessions n = player_sessions (sv_net s)" and "closing n = closing (sv_net s)"
    and "online_sessions pm = online_sessions (sv_pm s)"
    and "\<And>q. others_ready (player_of ses s) r \<Longrightarrow> um_find (players pm) q = (if q \<in> set (um_keys (room_players r))
      then Some ((case um_find (players (sv_pm s)) q of None \<Rightarrow> Player_new q (''player_'' @ to_string q) | Some x \<Rightarrow> x)
        \<lparr>pl_status := InBattle, pl_room_id := rid\<rparr>)
      else um_find (players (sv_pm s)) q)"
    and "\<not> others_ready (player_of ses s) r \<Longrightarrow> pm = sv_pm s"
proof -
  let ?pid = "player_of ses s"
  have m: "um_find (player_room_map s) ?pid = Some rid" "um_find (sv_rooms s) rid = Some r"
    using room by (simp_all add: GetPlayerRoom_Some)
  have mem: "?pid \<in> fst ` set (room_players r)" using rooms_invD(3) [OF inv m(1)] m(2) by simp
  obtain p where p: "um_find (room_players r) ?pid = Some p" using um_find_member [OF mem] by blast
  have id: "room_id r = rid" using rooms_invD(2) [OF inv m(2)] by (simp add: room_ok_def)
  let ?n = "Room_Broadcast r' MSG_READY_NOTIFY (ReadyNotify ?pid True) (sv_net s)"
  let ?s1 = "(on_room rid (\<lambda>_. r') s)\<lparr>sv_net := ?n\<rparr>"
  have "Room_SetReadyAndTryStart ?pid True r (sv_net s) = (others_ready ?pid r, r', ?n)"
    using assms(4) p by (simp add: Room_SetReadyAndTryStart_def Let_def all_ready_modify [OF mem] r'_def)
  then have s1: "s' = (if others_ready ?pid r then RoomManager_StartGameRoom env (Some rid) ?s1 else ?s1)"
    by (simp add: s' RoomManager_HandleReady_def room)
  have e1: "?s1 = s\<lparr>sv_net := ?n, sv_rooms := um_modify rid (\<lambda>_. r') (sv_rooms s)\<rparr>" by (simp add: on_room_def)
  have r1: "um_find (sv_rooms ?s1) rid = Some r'" using m(2) by (simp add: on_room_def)
  have r': "Room_PlayerIds r' = um_keys (room_players r)" "room_id r' = rid" by (simp_all add: r'_def Room_PlayerIds_def id)
  show ?thesis
  proof (cases "others_ready ?pid r")
    case True
    obtain n pm lp where g: "RoomManager_StartGameRoom env (Some rid) ?s1 = ?s1\<lparr>sv_net := n, sv_pm := pm, sv_loop := lp\<rparr>"
      "heap n = heap (sv_net ?s1)" "sessions n = sessions (sv_net ?s1)" "player_sessions n = player_sessions (sv_net ?s1)"
      "closing n = closing (sv_net ?s1)" "online_sessions pm = online_sessions (sv_pm ?s1)"
      "\<And>q. um_find (players pm) q = (if q \<in> set (um_keys (room_players r))
        then Some ((case um_find (players (sv_pm ?s1)) q of None \<Rightarrow> Player_new q (''player_'' @ to_string q) | Some x \<Rightarrow> x)
          \<lparr>pl_status := InBattle, pl_room_id := rid\<rparr>) else um_find (players (sv_pm ?s1)) q)"
      by (rule StartGameRoom_frame [OF r1 full, unfolded r']) blast
    have fr: "s' = s\<lparr>sv_net := n, sv_pm := pm, sv_rooms := um_modify rid (\<lambda>_. r') (sv_rooms s), sv_loop := lp\<rparr>"
      using g(1) True by (simp add: s1 on_room_def)
    have "sv_net ?s1 = ?n" "sv_pm ?s1 = sv_pm s" by (simp_all add: on_room_def)
    note g = g(2-7) [unfolded this, unfolded Room_Broadcast_frame]
    show ?thesis by (rule that [OF fr g(1-5)]) (use g(6) True in simp_all)
  next
    case False
    then have "s' = s\<lparr>sv_net := ?n, sv_pm := sv_pm s, sv_rooms := um_modify rid (\<lambda>_. r') (sv_rooms s), sv_loop := sv_loop s\<rparr>"
      using s1 e1 by simp
    then show ?thesis by (rule that) (use False in simp_all)
  qed
qed

subsection \<open>What a client makes of it\<close>

lemma ready_notice: "BotClient_OnMessage benv (Build (msg_value MSG_READY_NOTIFY) x sq) b = b"
  by (simp add: BotClient_OnMessage_def)

lemma ready_notices: "fold (BotClient_OnMessage benv) (replicate k (Build (msg_value MSG_READY_NOTIFY) x sq)) b = b"
  by (induction k) (simp_all add: ready_notice del: msg_value.simps)

lemma playing_notice:
  assumes "protobuf_ok ps benv enc"
  shows "flow_of (BotClient_OnMessage benv (Build (msg_value MSG_ROOM_STATE_NOTIFY) (enc (RoomStateNotify rid 2 pids)) sq) b) =
    (bc_player_id b, session_token b, rid, BotPlaying, bc_index b)"
proof -
  let ?b = "count_stat (room_playing_update inc64) (b\<lparr>bc_room_id := rid, bc_state := BotPlaying\<rparr>)"
  have "BotClient_OnMessage benv (Build (msg_value MSG_ROOM_STATE_NOTIFY) (enc (RoomStateNotify rid 2 pids)) sq) b =
      snd (MaybeScheduleDisconnect benv AtPlaying (StartInputLoop benv ?b))"
    using assms by (simp add: BotClient_OnMessage_def BotClient_HandleRoomState_def protobuf_ok_def Let_def)
  moreover have "flow_of ?b = (bc_player_id b, session_token b, rid, BotPlaying, bc_index b)"
    by (simp add: flow_of_def count_stat_def)
  ultimately show ?thesis by simp
qed

lemma playing_notices:
  assumes pb: "protobuf_ok ps benv enc"
  shows "flow_of (fold (BotClient_OnMessage benv) (replicate (Suc k) (Build (msg_value MSG_ROOM_STATE_NOTIFY) (enc (RoomStateNotify rid 2 pids)) sq)) b) =
    (bc_player_id b, session_token b, rid, BotPlaying, bc_index b)"
proof (induction k arbitrary: b)
  case 0
  then show ?case by (simp add: playing_notice [OF pb] del: msg_value.simps)
next
  case (Suc k)
  let ?p = "Build (msg_value MSG_ROOM_STATE_NOTIFY) (enc (RoomStateNotify rid 2 pids)) sq"
  let ?b = "BotClient_OnMessage benv ?p b"
  have "bc_player_id ?b = bc_player_id b" "session_token ?b = session_token b" "bc_index ?b = bc_index b"
    using playing_notice [OF pb, of rid pids sq b] by (simp_all add: flow_of_def del: msg_value.simps)
  then show ?case using Suc.IH [of ?b] by (simp del: msg_value.simps)
qed

subsection \<open>Properties\<close>

text \<open>What the server records of a ready request of player \<open>pid\<close> in its waiting room \<open>r\<close>: the flag of that
  player, every other flag, every other room, the player-to-room map, queue, sessions, accounts and databases
  as they were.  If the others are ready, the room plays, the loop gets a fresh battle of the room's
  players, whose objects are \<open>InBattle\<close>; if not, loop and player objects stay.\<close>

definition ready_recorded :: "('f, 'd, 'r) env \<Rightarrow> i64 \<Rightarrow> i64 \<Rightarrow> room \<Rightarrow> ('f, 'd, 'r) server \<Rightarrow> ('f, 'd, 'r) server \<Rightarrow> bool" where
  "ready_recorded env pid rid r s s' \<longleftrightarrow>
     (\<exists>n pm rms lp. s' = s\<lparr>sv_net := n, sv_pm := pm, sv_rooms := rms, sv_loop := lp\<rparr> \<and>
        heap n = heap (sv_net s) \<and> sessions n = sessions (sv_net s) \<and> player_sessions n = player_sessions (sv_net s) \<and>
        closing n = closing (sv_net s) \<and> online_sessions pm = online_sessions (sv_pm s)) \<and>
     (\<forall>q. um_find (sv_rooms s') q = (if q = rid
        then Some (r\<lparr>room_players := map (\<lambda>(k, x). (k, if k = pid then x\<lparr>ready := True\<rparr> else x)) (room_players r),
                     room_state := if others_ready pid r then Playing else Waiting\<rparr>)
        else um_find (sv_rooms s) q)) \<and>
     (if others_ready pid r
      then (\<forall>q. GameLoop_GetRoom q (sv_loop s') = (if q = rid
              then Some (GameRoom_Start (floats env) (um_keys (room_players r)) (GameRoom_new rid))
              else GameLoop_GetRoom q (sv_loop s))) \<and>
           (\<forall>q. if q \<in> set (um_keys (room_players r))
              then \<exists>x. PlayerManager_GetPlayer q (sv_pm s') = Some x \<and> pl_status x = InBattle \<and> pl_room_id x = rid
              else PlayerManager_GetPlayer q (sv_pm s') = PlayerManager_GetPlayer q (sv_pm s))
      else sv_loop s' = sv_loop s \<and> sv_pm s' = sv_pm s)"

lemma HandleReady_recorded:
  assumes full: "ctx env = full_context" and inv: "rooms_inv (ctx env) s"
    and room: "RoomManager_GetPlayerRoom (player_of ses s) s = Some (rid, r)" and w: "room_state r = Waiting"
    and s': "s' = RoomManager_HandleReady env (Some ses) (Some True) s"
  shows "ready_recorded env (player_of ses s) rid r s s'"
proof -
  let ?pid = "player_of ses s" and ?keys = "um_keys (room_players r)"
  let ?r = "r\<lparr>room_players := um_modify ?pid (\<lambda>p. p\<lparr>ready := True\<rparr>) (room_players r),
      room_state := if others_ready ?pid r then Playing else Waiting\<rparr>"
  obtain n pm lp where e: "s' = s\<lparr>sv_net := n, sv_pm := pm, sv_rooms := um_modify rid (\<lambda>_. ?r) (sv_rooms s), sv_loop := lp\<rparr>"
    and n: "heap n = heap (sv_net s)" "sessions n = sessions (sv_net s)" "player_sessions n = player_sessions (sv_net s)"
      "closing n = closing (sv_net s)" "online_sessions pm = online_sessions (sv_pm s)"
    and go: "\<And>q. others_ready ?pid r \<Longrightarrow> um_find (players pm) q = (if q \<in> set ?keys
      then Some ((case um_find (players (sv_pm s)) q of None \<Rightarrow> Player_new q (''player_'' @ to_string q) | Some x \<Rightarrow> x)
        \<lparr>pl_status := InBattle, pl_room_id := rid\<rparr>)
      else um_find (players (sv_pm s)) q)"
    and still: "\<not> others_ready ?pid r \<Longrightarrow> pm = sv_pm s"
    using HandleReady_frame [OF full inv room w s'] by metis
  have m: "um_find (sv_rooms s) rid = Some r" using room by (simp add: GetPlayerRoom_Some)
  have loop: "sv_loop s' = (if others_ready ?pid r
      then GameLoop_AddRoom (Some (GameRoom_Start (floats env) ?keys (GameRoom_new rid))) (sv_loop s) else sv_loop s)"
    by (rule HandleReady_waiting(3) [OF full inv room w s'])
  have "\<exists>n pm rms lp. s' = s\<lparr>sv_net := n, sv_pm := pm, sv_rooms := rms, sv_loop := lp\<rparr> \<and>
        heap n = heap (sv_net s) \<and> sessions n = sessions (sv_net s) \<and> player_sessions n = player_sessions (sv_net s) \<and>
        closing n = closing (sv_net s) \<and> online_sessions pm = online_sessions (sv_pm s)"
    using e n by blast
  moreover have "um_find (sv_rooms s') q = (if q = rid
        then Some (r\<lparr>room_players := map (\<lambda>(k, x). (k, if k = ?pid then x\<lparr>ready := True\<rparr> else x)) (room_players r),
                     room_state := if others_ready ?pid r then Playing else Waiting\<rparr>)
        else um_find (sv_rooms s) q)" for q
    using m by (simp add: e um_modify_as_map [of ?pid])
  moreover have "GameLoop_GetRoom q (sv_loop s') = (if q = rid
        then Some (GameRoom_Start (floats env) ?keys (GameRoom_new rid)) else GameLoop_GetRoom q (sv_loop s))"
    if "others_ready ?pid r" for q
    using that GameRoom_Start_new(1) [of "floats env" ?keys rid] by (simp add: loop)
  moreover have "if q \<in> set ?keys then \<exists>x. PlayerManager_GetPlayer q (sv_pm s') = Some x \<and> pl_status x = InBattle \<and> pl_room_id x = rid
      else PlayerManager_GetPlayer q (sv_pm s') = PlayerManager_GetPlayer q (sv_pm s)" if "others_ready ?pid r" for q
    using go [OF that, of q] by (auto simp: e PlayerManager_GetPlayer_def)
  moreover have "sv_loop s' = sv_loop s \<and> sv_pm s' = sv_pm s" if "\<not> others_ready ?pid r"
    using that still loop by (simp add: e)
  ultimately show ?thesis unfolding ready_recorded_def by simp
qed

text \<open>What the clients in the room make of the answers.\<close>

lemma ready_answers_fold:
  assumes full: "ctx env = full_context" and inv: "rooms_inv (ctx env) s" and pb: "protobuf_ok ps benv enc"
    and room: "RoomManager_GetPlayerRoom (player_of ses s) s = Some (rid, r)" and w: "room_state r = Waiting"
    and s': "s' = RoomManager_HandleReady env (Some ses) (Some True) s"
  shows "\<not> others_ready (player_of ses s) r \<Longrightarrow> fold (BotClient_OnMessage benv) (answers_to enc y s s') c = c"
    and "others_ready (player_of ses s) r \<Longrightarrow> q \<in> set (um_keys (room_players r)) \<Longrightarrow> GetByPlayerId q s = Some y \<Longrightarrow>
      conn_alive (heap (sv_net s) y) \<Longrightarrow>
      flow_of (fold (BotClient_OnMessage benv) (answers_to enc y s s') c) = (bc_player_id c, session_token c, rid, BotPlaying, bc_index c)"
proof -
  let ?pid = "player_of ses s" and ?keys = "um_keys (room_players r)"
  let ?rs = "reachable_sessions ?keys (sv_net s)" and ?go = "others_ready ?pid r"
  note h = HandleReady_waiting [OF full inv room w s']
  have answers: "answers_to enc y s s' =
      replicate (count_list ?rs y) (Build (msg_value MSG_READY_NOTIFY) (enc (ReadyNotify ?pid True)) 0) @
      replicate (count_list (if ?go then ?rs else []) y) (Build (msg_value MSG_ROOM_STATE_NOTIFY) (enc (RoomStateNotify rid 2 ?keys)) 0)"
    by (rule answers_broadcasts [OF h(2)])
  show "fold (BotClient_OnMessage benv) (answers_to enc y s s') c = c" if "\<not> ?go"
    using that by (simp add: answers ready_notices del: msg_value.simps fold_replicate)
  show "flow_of (fold (BotClient_OnMessage benv) (answers_to enc y s s') c) = (bc_player_id c, session_token c, rid, BotPlaying, bc_index c)"
    if go: "?go" and reach: "q \<in> set ?keys" "GetByPlayerId q s = Some y" "conn_alive (heap (sv_net s) y)"
  proof -
    obtain k where k: "count_list ?rs y = Suc k" using reachable_count [OF reach] .
    have "fold (BotClient_OnMessage benv) (answers_to enc y s s') c =
        fold (BotClient_OnMessage benv) (replicate (Suc k) (Build (msg_value MSG_ROOM_STATE_NOTIFY) (enc (RoomStateNotify rid 2 ?keys)) 0)) c"
      by (simp only: answers fold_append comp_def ready_notices go if_True k)
    then show ?thesis by (simp only: playing_notices [OF pb])
  qed
qed

text \<open>C15. A ready request of a simulated client in a waiting room.  The server sets the flag of its player and no
  other flag, and touches no other room, no other player's mapping and no session.  While another player of the
  room is not ready, the room keeps waiting, no battle starts, no player object changes and the clients stay as they
  are.  The request of the last one starts the battle: the room plays, the game loop holds a fresh battle of
  exactly the room's players, they are \<open>InBattle\<close>, and the client and every other client whose
  connection is alive are playing in that room.\<close>

theorem bot_ready_agrees:
  assumes full: "ctx env = full_context" and inv: "rooms_inv (ctx env) s" and pb: "protobuf_ok ps benv enc"
    and mine: "player_of ses s = bc_player_id b" and own: "GetByPlayerId (bc_player_id b) s = Some ses"
    and alive: "conn_alive (heap (sv_net s) ses)"
    and room: "RoomManager_GetPlayerRoom (bc_player_id b) s = Some (rid, r)" and waiting: "room_state r = Waiting"
    and b: "bc_connected b" "bc_room_id b = rid" "rid \<noteq> 0"
  shows "\<exists>b' s'. exchange env ps benv enc clock ses (BotClient_Ready benv) (b, s) = Some (b', s') \<and>
    ready_recorded env (bc_player_id b) rid r s s' \<and>
    bc_player_id b' = bc_player_id b \<and> session_token b' = session_token b \<and> bc_room_id b' = rid \<and>
    (if others_ready (bc_player_id b) r
     then bc_state b' = BotPlaying \<and>
       (\<forall>p x other. p \<in> set (um_keys (room_players r)) \<and> GetByPlayerId p s = Some x \<and> conn_alive (heap (sv_net s) x) \<longrightarrow>
          bc_state (fold (BotClient_OnMessage benv) (answers_to enc x s s') other) = BotPlaying \<and>
          bc_room_id (fold (BotClient_OnMessage benv) (answers_to enc x s s') other) = rid)
     else bc_state b' = bc_state b \<and> (\<forall>x other. fold (BotClient_OnMessage benv) (answers_to enc x s s') other = other))"
proof -
  let ?pid = "bc_player_id b" and ?b1 = "BotClient_Ready benv b"
  define s' where "s' = RoomManager_HandleReady env (Some ses) (Some True) s"
  define b' where "b' = fold (BotClient_OnMessage benv) (answers_to enc ses s s') ?b1"
  have "Dispatch (server_dispatcher env ps) clock (Some ses) (last (bc_built ?b1)) s = Completed s'"
    using pb b by (simp add: BotClient_Ready_def count_stat_def last_built Dispatch_request serve_def protobuf_ok_def s'_def)
  then have x: "exchange env ps benv enc clock ses (BotClient_Ready benv) (b, s) = Some (b', s')"
    by (simp add: exchange_def b'_def Let_def)
  have b1: "flow_of ?b1 = flow_of b" by (simp add: BotClient_Ready_def)
  have room': "RoomManager_GetPlayerRoom (player_of ses s) s = Some (rid, r)" using room mine by simp
  have rec: "ready_recorded env ?pid rid r s s'" using HandleReady_recorded [OF full inv room' waiting s'_def] mine by simp
  note folds = ready_answers_fold [OF full inv pb room' waiting s'_def, unfolded mine]
  have mem: "?pid \<in> set (um_keys (room_players r))"
    using room rooms_invD(3) [OF inv, of ?pid rid] by (auto simp: GetPlayerRoom_Some)
  show ?thesis
  proof (cases "others_ready ?pid r")
    case True
    have "flow_of b' = (?pid, session_token b, rid, BotPlaying, bc_index b)"
      using folds(2) [OF True mem own alive, of ?b1] b1 by (simp add: b'_def flow_of_def)
    moreover have "\<forall>p x other. p \<in> set (um_keys (room_players r)) \<and> GetByPlayerId p s = Some x \<and> conn_alive (heap (sv_net s) x) \<longrightarrow>
        bc_state (fold (BotClient_OnMessage benv) (answers_to enc x s s') other) = BotPlaying \<and>
        bc_room_id (fold (BotClient_OnMessage benv) (answers_to enc x s s') other) = rid"
      using folds(2) [OF True] by (auto simp: flow_of_def)
    ultimately show ?thesis using x rec True
      by (intro exI [of _ b'] exI [of _ s']) (simp add: flow_of_def del: set_map list.set_map)
  next
    case False
    then have still: "fold (BotClient_OnMessage benv) (answers_to enc y s s') c = c" for y c by (rule folds(1))
    then have "flow_of b' = flow_of b" using b1 by (simp add: b'_def)
    then show ?thesis using x rec still False b(2) by (intro exI [of _ b'] exI [of _ s']) (simp add: flow_of_def)
  qed
qed

text \<open>Players 7 and 9 in room 1000, 7 ready; the client of player 9 gets ready.\<close>

definition room_ready7 :: room where
  "room_ready7 = (let r = add_players [7, 9] (Room_new 1000 True) in
     r\<lparr>room_players := um_modify 7 (\<lambda>p. p\<lparr>ready := True\<rparr>) (room_players r)\<rparr>)"

definition server_ready7 :: "(rat option, sim, string \<Rightarrow> zset) server" where
  "server_ready7 = room79\<lparr>sv_rooms := [(1000, room_ready7)]\<rparr>"

lemma server_ready7_inv: "rooms_inv full_context server_ready7"
  by (auto simp: server_ready7_def room_ready7_def full_context_def room79_def empty_server_def rooms_inv_def room_ok_def
      GameLoop_GetRoom_def GameLoop_new_def Room_AddPlayer_def Room_new_def Let_def split: if_splits)

text \<open>And with player 11, who is not ready, in the room.\<close>

definition room_three :: room where
  "room_three = (let r = add_players [7, 9, 11] (Room_new 1000 True) in
     r\<lparr>room_players := um_modify 7 (\<lambda>p. p\<lparr>ready := True\<rparr>) (room_players r)\<rparr>)"

definition server_three :: "(rat option, sim, string \<Rightarrow> zset) server" where
  "server_three = room79\<lparr>sv_rooms := [(1000, room_three)], player_room_map := [(7, 1000), (9, 1000), (11, 1000)]\<rparr>"

lemma server_three_inv: "rooms_inv full_context server_three"
  by (auto simp: server_three_def room_three_def full_context_def room79_def empty_server_def rooms_inv_def room_ok_def
      GameLoop_GetRoom_def GameLoop_new_def Room_AddPlayer_def Room_new_def Let_def split: if_splits)

theorem bot_ready_agrees_witness:
  "(\<exists>b' s'. exchange unit_env text_parsers text_env text_message (8, 8) 0 (BotClient_Ready text_env) (bot9\<lparr>bc_room_id := 1000\<rparr>, server_ready7)
      = Some (b', s') \<and> bc_state b' = BotPlaying \<and> GameLoop_GetRoom 1000 (sv_loop s') \<noteq> None \<and>
    (\<forall>other. bc_state (fold (BotClient_OnMessage text_env) (answers_to text_message 1 server_ready7 s') other) = BotPlaying)) \<and>
   (\<exists>b' s'. exchange unit_env text_parsers text_env text_message (8, 8) 0 (BotClient_Ready text_env) (bot9\<lparr>bc_room_id := 1000\<rparr>, server_three)
      = Some (b', s') \<and> bc_state b' = bc_state bot9 \<and> sv_loop s' = sv_loop server_three \<and>
    (\<exists>r'. um_find (sv_rooms s') 1000 = Some r' \<and> room_state r' = Waiting \<and>
       map (\<lambda>(k, x). (k, ready x)) (room_players r') = [(7, True), (9, True), (11, False)]))"
proof (rule conjI)
  let ?b = "bot9\<lparr>bc_room_id := 1000\<rparr>"
  have b: "bc_connected ?b" "bc_room_id ?b = 1000" "bc_player_id ?b = 9"
    by (simp_all add: bot9_def BotClient_new_def)
  have s: "player_of 0 server_ready7 = 9" "GetByPlayerId 9 server_ready7 = Some 0" "GetByPlayerId 7 server_ready7 = Some 1"
    "conn_alive (heap (sv_net server_ready7) x)" "RoomManager_GetPlayerRoom 9 server_ready7 = Some (1000, room_ready7)" for x
    by (simp_all add: server_ready7_def room79_def empty_server_def player_of_def GetByPlayerId_def
        ConnectionManager_GetByPlayerId_def Session_new_def GetPlayerRoom_Some)
  have r: "room_state room_ready7 = Waiting" "others_ready 9 room_ready7" "um_keys (room_players room_ready7) = [7, 9]"
    by (simp_all add: room_ready7_def others_ready_def Room_AddPlayer_def Room_new_def Let_def)
  have c: "ctx unit_env = full_context" "rooms_inv (ctx unit_env) server_ready7" "rooms_inv (ctx unit_env) server_three"
    using server_ready7_inv server_three_inv by (simp_all add: unit_env_def)
  obtain b' s' where x: "exchange unit_env text_parsers text_env text_message (8, 8) 0 (BotClient_Ready text_env) (?b, server_ready7) = Some (b', s')"
    and p: "bc_state b' = BotPlaying" "ready_recorded unit_env 9 1000 room_ready7 server_ready7 s'"
    and o: "\<forall>p x other. p \<in> {7, 9} \<and> GetByPlayerId p server_ready7 = Some x \<and> conn_alive (heap (sv_net server_ready7) x) \<longrightarrow>
          bc_state (fold (BotClient_OnMessage text_env) (answers_to text_message x server_ready7 s') other) = BotPlaying"
    using bot_ready_agrees [OF c(1,2) text_protobuf_ok, of 0 ?b 1000 room_ready7 "(8, 8)"] b s(1,2,4,5) r by auto
  have "bc_state (fold (BotClient_OnMessage text_env) (answers_to text_message 1 server_ready7 s') other) = BotPlaying" for other
    using o s(3) s(4) [of 1] by blast
  moreover have "GameLoop_GetRoom 1000 (sv_loop s') \<noteq> None" using p(2) r(2) by (simp add: ready_recorded_def)
  ultimately show "\<exists>b' s'. exchange unit_env text_parsers text_env text_message (8, 8) 0 (BotClient_Ready text_env) (?b, server_ready7)
      = Some (b', s') \<and> bc_state b' = BotPlaying \<and> GameLoop_GetRoom 1000 (sv_loop s') \<noteq> None \<and>
    (\<forall>other. bc_state (fold (BotClient_OnMessage text_env) (answers_to text_message 1 server_ready7 s') other) = BotPlaying)"
    using x p(1) by blast
  have t: "player_of 0 server_three = 9" "GetByPlayerId 9 server_three = Some 0" "conn_alive (heap (sv_net server_three) 0)"
    "RoomManager_GetPlayerRoom 9 server_three = Some (1000, room_three)"
    by (simp_all add: server_three_def room79_def empty_server_def player_of_def GetByPlayerId_def
        ConnectionManager_GetByPlayerId_def Session_new_def GetPlayerRoom_Some)
  have r3: "room_state room_three = Waiting" "\<not> others_ready 9 room_three"
    "map (\<lambda>(k, x). (k, ready x)) (map (\<lambda>(k, x). (k, if k = 9 then x\<lparr>ready := True\<rparr> else x)) (room_players room_three))
       = [(7, True), (9, True), (11, False)]"
    by (simp_all add: room_three_def others_ready_def Room_AddPlayer_def Room_new_def Let_def)
  obtain b' s' where y: "exchange unit_env text_parsers text_env text_message (8, 8) 0 (BotClient_Ready text_env) (?b, server_three) = Some (b', s')"
    and q: "bc_state b' = bc_state ?b" "ready_recorded unit_env 9 1000 room_three server_three s'"
    using bot_ready_agrees [OF c(1,3) text_protobuf_ok, of 0 ?b 1000 room_three "(8, 8)"] b t r3(1,2) by auto
  have "sv_loop s' = sv_loop server_three" "bc_state ?b = bc_state bot9" using q(2) r3(2) by (simp_all add: ready_recorded_def)
  moreover have "\<exists>r'. um_find (sv_rooms s') 1000 = Some r' \<and> room_state r' = Waiting \<and>
       map (\<lambda>(k, x). (k, ready x)) (room_players r') = [(7, True), (9, True), (11, False)]"
    using q(2) r3(2,3) by (simp add: ready_recorded_def)
  ultimately show "\<exists>b' s'. exchange unit_env text_parsers text_env text_message (8, 8) 0 (BotClient_Ready text_env) (?b, server_three)
      = Some (b', s') \<and> bc_state b' = bc_state bot9 \<and> sv_loop s' = sv_loop server_three \<and>
    (\<exists>r'. um_find (sv_rooms s') 1000 = Some r' \<and> room_state r' = Waiting \<and>
       map (\<lambda>(k, x). (k, ready x)) (room_players r') = [(7, True), (9, True), (11, False)])"
    using y q(1) by auto
qed

subsection \<open>The end of a battle\<close>

text \<open>What a tick of the loop does to the room before and after it settles: at most the room's state changes before,
  and the settlement ends with \<open>finish_room\<close>.\<close>

lemma tick_callback_cases:
  assumes room: "um_find (sv_rooms s) rid = Some r" and t: "tick_callback env now rid st over w s = (None, s')"
  obtains u r2 where "um_find (sv_rooms u) rid = Some r2" "um_keys (room_players r2) = um_keys (room_players r)"
    "has_connections r2 = has_connections r"
    "sv_net u = sv_net (broadcast rid MSG_GAME_STATE_NOTIFY (GameStateMsg (StateSync_BuildNotify rid st)) s)"
    "sv_loop u = sv_loop s" "s' = u \<or> over \<and> s' = finish_room (ctx env) rid w (losers_of w st) u"
proof -
  define s1 where "s1 = broadcast rid MSG_GAME_STATE_NOTIFY (GameStateMsg (StateSync_BuildNotify rid st)) s"
  have s1: "um_find (sv_rooms s1) rid = Some r" "sv_loop s1 = sv_loop s"
    using room by (simp_all add: s1_def)
  show ?thesis
  proof (cases over)
    case False
    then have "s' = s1" using t room by (simp add: tick_callback_def RoomManager_GetRoom_def s1_def)
    then show ?thesis using that [of s1 r] s1 by (simp add: s1_def)
  next
    case True
    obtain pend s2 where p: "begin_settlement rid s1 = (pend, s2)" by fastforce
    then have s2: "um_find (sv_rooms s2) rid = Some (Room_SetSettlement r)" "sv_net s2 = sv_net s1" "sv_loop s2 = sv_loop s1"
      using s1(1) by (auto simp: begin_settlement_def Let_def on_room_def)
    have r: "um_keys (room_players (Room_SetSettlement r)) = um_keys (room_players r)"
      "has_connections (Room_SetSettlement r) = has_connections r"
      by (simp_all add: Room_SetSettlement_def)
    have eq: "(None, s') = (if now < pend_next_attempt pend then (None, s2)
        else try_settlement env now rid w (losers_of w st) pend s2)"
      using t room p True by (simp add: tick_callback_def RoomManager_GetRoom_def s1_def)
    obtain res bid m rd where a: "settle_attempt (mysql_of env) (redis_of env) rid w (losers_of w st)
        (pend_battle_id pend, sv_mysql s2, sv_redis s2) = (res, bid, m, rd)" by (metis surj_pair)
    define u where "u = (if now < pend_next_attempt pend then s2
       else s2\<lparr>sv_mysql := m, sv_redis := rd, pending_settlements :=
         um_put rid \<lparr>pend_battle_id = bid, pend_next_attempt = now + milliseconds 1000\<rparr> (pending_settlements s2)\<rparr>)"
    have "um_find (sv_rooms u) rid = Some (Room_SetSettlement r)" "sv_net u = sv_net s1" "sv_loop u = sv_loop s"
      using s2 s1(2) by (simp_all add: u_def)
    moreover have "s' = u \<or> s' = finish_room (ctx env) rid w (losers_of w st) u"
      using eq a by (cases res) (auto simp: u_def try_settlement_def Let_def split: if_splits)
    ultimately show ?thesis using that [of u "Room_SetSettlement r"] r True by (simp add: s1_def)
  qed
qed

text \<open>The end of the room: the notice to every player, and everyone back in the lobby.\<close>

lemma finish_room_effect:
  assumes room: "um_find (sv_rooms u) rid = Some r" and conns: "has_connections r"
    and fin: "s' = finish_room full_context rid w losers u"
  shows "um_find (sv_rooms s') rid = None" and "GameLoop_GetRoom rid (sv_loop s') = None"
    and "um_find (pending_settlements s') rid = None"
    and "outbox (sv_net s') = outbox (sv_net u) @
      map (\<lambda>y. (y, MSG_GAME_OVER_NOTIFY, GameOverNotify rid w losers)) (reachable_sessions (um_keys (room_players r)) (sv_net u))"
    and "p \<in> set (um_keys (room_players r)) \<Longrightarrow> in_lobby s' p (um_has (player_sessions (sv_net u)) p)"
proof -
  let ?s3 = "on_room rid Room_Close (broadcast rid MSG_GAME_OVER_NOTIFY (GameOverNotify rid w losers)
      (u\<lparr>pending_settlements := um_erase rid (pending_settlements u)\<rparr>))"
  have s': "s' = RoomManager_RemoveRoom full_context rid ?s3" by (simp add: fin finish_room_def Let_def)
  have r3: "um_find (sv_rooms ?s3) rid = Some (Room_Close r)" using room by (simp add: on_room_def)
  have k: "room_players (Room_Close r) = room_players r" by (simp add: Room_Close_def)
  show "um_find (sv_rooms s') rid = None" "GameLoop_GetRoom rid (sv_loop s') = None"
    by (simp_all add: s' full_context_def)
  show "um_find (pending_settlements s') rid = None" by (simp add: s' on_room_def)
  show "outbox (sv_net s') = outbox (sv_net u) @
      map (\<lambda>y. (y, MSG_GAME_OVER_NOTIFY, GameOverNotify rid w losers)) (reachable_sessions (um_keys (room_players r)) (sv_net u))"
    using room conns by (simp add: s' on_room_def broadcast_outbox)
  show "in_lobby s' p (um_has (player_sessions (sv_net u)) p)" if "p \<in> set (um_keys (room_players r))"
  proof -
    have "um_find (player_room_map s') p = None" using that r3 k by (simp add: s' RemoveRoom_map)
    moreover have "p \<in> set (Room_PlayerIds (Room_Close r))" using that by (simp add: Room_PlayerIds_def k)
    moreover have "player_sessions (sv_net ?s3) = player_sessions (sv_net u)" by (simp add: on_room_def)
    ultimately show ?thesis using r3
      by (simp add: in_lobby_def s' RoomManager_RemoveRoom_def Let_def release_players full_context_def player_setters)
  qed
qed

lemma over_notice:
  "flow_of (BotClient_OnMessage benv (Build (msg_value MSG_GAME_OVER_NOTIFY) x sq) b) =
    (bc_player_id b, session_token b, 0, Bot_Client.LoggedIn, bc_index b)"
  by (simp add: BotClient_OnMessage_def BotClient_HandleGameOver_def) (simp add: flow_of_def count_stat_def)

lemma over_notices:
  "flow_of (fold (BotClient_OnMessage benv) (replicate (Suc k) (Build (msg_value MSG_GAME_OVER_NOTIFY) x sq)) b) =
    (bc_player_id b, session_token b, 0, Bot_Client.LoggedIn, bc_index b)"
proof (induction k arbitrary: b)
  case 0
  then show ?case by (simp add: over_notice del: msg_value.simps)
next
  case (Suc k)
  let ?b = "BotClient_OnMessage benv (Build (msg_value MSG_GAME_OVER_NOTIFY) x sq) b"
  have "bc_player_id ?b = bc_player_id b" "session_token ?b = session_token b" "bc_index ?b = bc_index b"
    using over_notice [of benv x sq b] by (simp_all add: flow_of_def del: msg_value.simps)
  then show ?case using Suc.IH [of ?b] by (simp del: msg_value.simps)
qed

lemma frame_notice:
  "flow_of (BotClient_OnMessage benv (Build (msg_value MSG_GAME_STATE_NOTIFY) x sq) b) =
    (bc_player_id b, session_token b, bc_room_id b, if bc_room_id b = 0 then bc_state b else BotPlaying, bc_index b)"
proof -
  have f: "flow_of (count_stat g b) = flow_of b"
    "flow_of ((count_stat g b)\<lparr>bc_state := BotPlaying\<rparr>) = (bc_player_id b, session_token b, bc_room_id b, BotPlaying, bc_index b)"
    "bc_room_id (count_stat g b) = bc_room_id b" "bc_state (count_stat g b) = bc_state b" for g
    by (simp_all add: flow_of_def count_stat_def)
  show ?thesis by (simp add: BotClient_OnMessage_def BotClient_HandleGameState_def Let_def f) (simp add: flow_of_def)
qed

lemma frame_notices:
  "flow_of (fold (BotClient_OnMessage benv) (replicate k (Build (msg_value MSG_GAME_STATE_NOTIFY) x sq)) b) =
    (bc_player_id b, session_token b, bc_room_id b, if bc_room_id b = 0 \<or> k = 0 then bc_state b else BotPlaying, bc_index b)"
proof (induction k arbitrary: b)
  case 0
  then show ?case by (simp add: flow_of_def)
next
  case (Suc k)
  let ?b = "BotClient_OnMessage benv (Build (msg_value MSG_GAME_STATE_NOTIFY) x sq) b"
  have "bc_player_id ?b = bc_player_id b" "session_token ?b = session_token b" "bc_index ?b = bc_index b"
    "bc_room_id ?b = bc_room_id b" "bc_state ?b = (if bc_room_id b = 0 then bc_state b else BotPlaying)"
    using frame_notice [of benv x sq b] by (simp_all add: flow_of_def del: msg_value.simps)
  then show ?case using Suc.IH [of ?b] by (simp del: msg_value.simps fold_replicate)
qed

text \<open>C14. A tick of a battle and the simulated clients of its players.  As long as the room is not gone, every client
  in a room that the frame reaches is playing and stays in its room.  The tick that ends the room, which
  only a finished battle has, leaves no battle, no settlement to retry and no player mapped to the room
  behind; every player is in the lobby, and every client whose connection is alive is out of the room,
  ready to ask for the next match.\<close>

theorem bot_battle_agrees:
  assumes full: "ctx env = full_context" and room: "um_find (sv_rooms s) rid = Some r" and conns: "has_connections r"
    and t: "tick_callback env now rid st over w s = (None, s')"
    and p: "p \<in> set (um_keys (room_players r))" "GetByPlayerId p s = Some x" "conn_alive (heap (sv_net s) x)"
    and b': "b' = fold (BotClient_OnMessage benv) (answers_to enc x s s') b"
  shows "bc_player_id b' = bc_player_id b \<and> session_token b' = session_token b \<and>
    (if um_has (sv_rooms s') rid
     then bc_room_id b' = bc_room_id b \<and> (bc_room_id b \<noteq> 0 \<longrightarrow> bc_state b' = BotPlaying) \<and> sv_loop s' = sv_loop s
     else over \<and> bc_room_id b' = 0 \<and> bc_state b' = Bot_Client.LoggedIn \<and>
       GameLoop_GetRoom rid (sv_loop s') = None \<and> um_find (pending_settlements s') rid = None \<and>
       (\<forall>q\<in>set (um_keys (room_players r)). in_lobby s' q (um_has (player_sessions (sv_net s)) q)))"
proof -
  let ?keys = "um_keys (room_players r)" and ?frame = "GameStateMsg (StateSync_BuildNotify rid st)"
  let ?n = "sv_net (broadcast rid MSG_GAME_STATE_NOTIFY ?frame s)" and ?rs = "reachable_sessions ?keys (sv_net s)"
  let ?over = "GameOverNotify rid w (losers_of w st)"
  obtain u r2 where u: "um_find (sv_rooms u) rid = Some r2" "um_keys (room_players r2) = ?keys"
      "has_connections r2 = has_connections r" "sv_net u = ?n" "sv_loop u = sv_loop s"
      "s' = u \<or> over \<and> s' = finish_room (ctx env) rid w (losers_of w st) u"
    using tick_callback_cases [OF room t] .
  have n: "outbox ?n = outbox (sv_net s) @ map (\<lambda>y. (y, MSG_GAME_STATE_NOTIFY, ?frame)) ?rs"
    by (rule broadcast_outbox [OF room conns])
  have rs: "reachable_sessions ?keys ?n = ?rs" by (rule reachable_cong) simp_all
  obtain k where k: "count_list ?rs x = Suc k" using reachable_count [OF p] .
  define c where "c = fold (BotClient_OnMessage benv) (replicate (Suc k) (Build (msg_value MSG_GAME_STATE_NOTIFY) (enc ?frame) 0)) b"
  have c: "flow_of c = (bc_player_id b, session_token b, bc_room_id b, if bc_room_id b = 0 then bc_state b else BotPlaying, bc_index b)"
    unfolding c_def by (subst frame_notices) simp
  show ?thesis
  proof (cases "um_has (sv_rooms s') rid")
    case True
    then have s': "s' = u" using u(6) finish_room_effect(1) [OF u(1)] u(3) conns full by (auto simp: um_has_keys)
    have "outbox (sv_net s') = outbox (sv_net s) @ map (\<lambda>y. (y, MSG_GAME_STATE_NOTIFY, ?frame)) ?rs @
        map (\<lambda>y. (y, MSG_GAME_OVER_NOTIFY, ?over)) []"
      using n u(4) by (simp add: s')
    from answers_broadcasts [OF this] have "b' = c" by (simp only: b' c_def k) simp
    then show ?thesis using c True s' u(5) by (simp add: flow_of_def)
  next
    case False
    then have s': "over" "s' = finish_room full_context rid w (losers_of w st) u"
      using u(1,6) full by (auto simp: um_has_keys dest: map_of_SomeD)
    note f = finish_room_effect [OF u(1) _ s'(2), unfolded u(2,3) u(4) rs, OF conns]
    from answers_broadcasts [OF f(4) [unfolded n append_assoc], of enc x]
    have "b' = fold (BotClient_OnMessage benv) (replicate (Suc k) (Build (msg_value MSG_GAME_OVER_NOTIFY) (enc ?over) 0)) c"
      by (simp only: b' c_def k fold_append comp_def)
    then have "flow_of b' = (bc_player_id c, session_token c, 0, Bot_Client.LoggedIn, bc_index c)"
      by (simp only: over_notices)
    moreover have "um_has (player_sessions ?n) q = um_has (player_sessions (sv_net s)) q" for q by simp
    ultimately show ?thesis using c False s'(1) f(2,3,5) by (simp add: flow_of_def)
  qed
qed

text \<open>The battle of room 1000 is over and MySQL works: the next tick settles it.\<close>

definition settling79 :: "(rat option, sim, string \<Rightarrow> zset) server" where
  "settling79 = finished79\<lparr>sv_mysql := mysql0 []\<rparr>"

lemma settling79_closes:
  "(let (x, s') = tick_callback unit_env 0 1000 battle79 True 9 settling79 in (x, um_has (sv_rooms s') 1000)) = (None, False)"
  by code_simp

theorem bot_battle_agrees_witness:
  "\<exists>s'. tick_callback unit_env 0 1000 battle79 True 9 settling79 = (None, s') \<and> in_lobby s' 7 True \<and>
    bc_state (fold (BotClient_OnMessage text_env) (answers_to text_message 1 settling79 s') (bot9\<lparr>bc_room_id := 1000\<rparr>))
      = Bot_Client.LoggedIn"
proof -
  obtain s' where t: "tick_callback unit_env 0 1000 battle79 True 9 settling79 = (None, s')" and gone: "\<not> um_has (sv_rooms s') 1000"
    using settling79_closes by (auto simp: Let_def split: prod.splits)
  let ?r = "(add_players [7, 9] (Room_new 1000 True))\<lparr>room_state := Playing\<rparr>"
  have r: "um_find (sv_rooms settling79) 1000 = Some ?r" "has_connections ?r" "7 \<in> set (um_keys (room_players ?r))"
    by (simp_all add: settling79_def finished79_def Room_AddPlayer_def Room_new_def)
  have s: "GetByPlayerId 7 settling79 = Some 1" "conn_alive (heap (sv_net settling79) 1)" "um_has (player_sessions (sv_net settling79)) 7"
    by (simp_all add: settling79_def finished79_def room79_def GetByPlayerId_def ConnectionManager_GetByPlayerId_def Session_new_def)
  have full: "ctx unit_env = full_context" by (simp add: unit_env_def)
  from bot_battle_agrees [OF full r(1,2) t r(3) s(1,2) refl, of text_env text_message "bot9\<lparr>bc_room_id := 1000\<rparr>"] gone r(3) s(3) t
  show ?thesis by auto
qed

end
