(* ===== verification/Packet_Channel.thy ===== *)
theory Packet_Channel
  imports Packet_Codec "HOL-Library.Sublist"
begin

text \<open>
  What the framed protocol promises: two ends that encode with \<open>Codec::Encode\<close> and feed what they read
  to \<open>Codec::Decode\<close>, with a byte stream in each direction between them, are two first-in first-out queues
  of packets.  The locale \<open>packet_end\<close> is the contract of an end, \<open>link_step\<close> the two ends with the
  network, and \<open>packet_link\<close> the refinement proof; \<open>Wire_Delivery\<close> interprets them on the server's
  \<open>TcpConnection\<close> and the simulated client.
\<close>

subsection \<open>The specification: a queue of packets\<close>

text \<open>The packets put in, and those taken out so far.\<close>

inductive fifo_step :: "Packet list \<times> Packet list \<Rightarrow> Packet list \<times> Packet list \<Rightarrow> bool" where
  Put: "fifo_step (sent, got) (sent @ [p], got)"
| Take: "length got < length sent \<Longrightarrow> fifo_step (sent, got) (sent, got @ [sent ! length got])"

lemma fifo_puts: "fifo_step\<^sup>*\<^sup>* (sent, got) (sent @ ps, got)"
proof (induction ps rule: rev_induct)
  case (snoc p ps)
  then show ?case using fifo_step.Put [of "sent @ ps" got p] by (simp add: rtranclp.rtrancl_into_rtrancl)
qed simp

lemma fifo_takes: "prefix (got @ ps) sent \<Longrightarrow> fifo_step\<^sup>*\<^sup>* (sent, got) (sent, got @ ps)"
proof (induction ps rule: rev_induct)
  case (snoc p ps)
  then obtain more where m: "sent = (got @ ps) @ p # more" by (auto simp: prefix_def)
  then have "fifo_step (sent, got @ ps) (sent, (got @ ps) @ [sent ! length (got @ ps)])" by (intro fifo_step.Take) simp
  moreover have "sent ! length (got @ ps) = p" using m by (metis nth_append_length)
  moreover have "fifo_step\<^sup>*\<^sup>* (sent, got) (sent, got @ ps)" using snoc.IH m by (simp add: prefix_def)
  ultimately show ?case by (simp add: rtranclp.rtrancl_into_rtrancl)
qed simp

lemma fifo_simulated:
  assumes "prefix sent sent'" and "prefix got got'" and "prefix got' sent'"
  shows "fifo_step\<^sup>*\<^sup>* (sent, got) (sent', got')"
proof -
  obtain ps qs where s: "sent' = sent @ ps" "got' = got @ qs" using assms by (auto simp: prefix_def)
  have "fifo_step\<^sup>*\<^sup>* (sent, got) (sent', got)" unfolding s(1) by (rule fifo_puts)
  also have "fifo_step\<^sup>*\<^sup>* (sent', got) (sent', got')" using assms(3) unfolding s(2) by (rule fifo_takes)
  finally show ?thesis .
qed

subsection \<open>A byte stream cut anywhere\<close>

lemma Decode_encoded_stream: "\<forall>p\<in>set ps. fits p \<Longrightarrow> Decode (concat (map encoded ps)) = Decoded (map wire ps) []"
  by (induction ps) (simp_all add: Decode_encoded_append)

lemma Decode_stream_prefix:
  assumes "\<forall>p\<in>set ps. fits p" and "prefix bytes (concat (map encoded ps))"
  obtains got rest where "Decode bytes = Decoded got rest" and "prefix got (map wire ps)"
proof -
  obtain more where m: "concat (map encoded ps) = bytes @ more" using assms(2) by (auto simp: prefix_def)
  show ?thesis
  proof (cases "Decode bytes")
    case (Decoded got rest)
    then have "add_packets got (Decode (rest @ more)) = Decoded (map wire ps) []"
      using Decode_append [of bytes more] Decode_encoded_stream [OF assms(1)] m by simp
    then obtain qs where "got @ qs = map wire ps" by (cases "Decode (rest @ more)") auto
    then have "prefix got (map wire ps)" by (metis prefixI)
    then show ?thesis using Decoded that by blast
  next
    case DecodeThrow
    then show ?thesis using Decode_append [of bytes more] Decode_encoded_stream [OF assms(1)] m by simp
  qed
qed

text \<open>
  One direction of a connection: the bytes the network has taken from the sender, and those of them that
  the receiver has read.  \<open>None\<close> stands for the buffer of a receiver that has given up.
\<close>

record pipe =
  on_wire :: "byte list"
  arrived :: "byte list"

definition pipe_new :: pipe where
  "pipe_new = \<lparr>on_wire = [], arrived = []\<rparr>"

definition pipe_inv :: "Packet list \<Rightarrow> pipe \<Rightarrow> Packet list \<Rightarrow> Buffer option \<Rightarrow> bool" where
  "pipe_inv sent w got buf \<longleftrightarrow>
     (\<forall>p\<in>set sent. fits p) \<and> prefix (on_wire w) (concat (map encoded sent)) \<and> prefix (arrived w) (on_wire w) \<and>
     prefix got (map wire sent) \<and>
     (case buf of None \<Rightarrow> True | Some b \<Rightarrow> Decode (arrived w) = Decoded got b)"

lemma pipe_inv_new: "\<forall>p\<in>set sent. fits p \<Longrightarrow> buf = None \<or> buf = Some [] \<Longrightarrow> pipe_inv sent pipe_new [] buf"
  by (auto simp: pipe_inv_def pipe_new_def)

lemma pipe_inv_put:
  assumes "pipe_inv sent w got buf" and "prefix sent sent'" and "\<forall>p\<in>set sent'. fits p"
  shows "pipe_inv sent' w got buf"
  using assms unfolding pipe_inv_def
  by (auto simp: prefix_def)

lemma pipe_inv_wire:
  assumes "pipe_inv sent w got buf" and "prefix (on_wire w) bytes" and "prefix bytes (concat (map encoded sent))"
  shows "pipe_inv sent (w\<lparr>on_wire := bytes\<rparr>) got buf"
  using assms prefix_order.trans [of "arrived w" "on_wire w" bytes] by (cases buf) (simp_all add: pipe_inv_def)

lemma pipe_inv_lose: "pipe_inv sent w got buf \<Longrightarrow> buf' = buf \<or> buf' = None \<Longrightarrow> pipe_inv sent w got buf'"
  by (auto simp: pipe_inv_def)

lemma pipe_inv_arrive_closed:
  "pipe_inv sent w got None \<Longrightarrow> prefix (arrived w @ bytes) (on_wire w) \<Longrightarrow>
     pipe_inv sent (w\<lparr>arrived := arrived w @ bytes\<rparr>) got None"
  by (simp add: pipe_inv_def)

lemma pipe_inv_arrive:
  assumes inv: "pipe_inv sent w got (Some buf)" and more: "prefix (arrived w @ bytes) (on_wire w)"
  obtains ps rest where "Decode (buf @ bytes) = Decoded ps rest"
    and "pipe_inv sent (w\<lparr>arrived := arrived w @ bytes\<rparr>) (got @ ps) (Some rest)"
proof -
  have d: "Decode (arrived w @ bytes) = add_packets got (Decode (buf @ bytes))"
    using inv by (simp add: pipe_inv_def Decode_append)
  have "prefix (arrived w @ bytes) (concat (map encoded sent))"
    using inv more prefix_order.trans unfolding pipe_inv_def by blast
  then obtain all rest where all: "Decode (arrived w @ bytes) = Decoded all rest" "prefix all (map wire sent)"
    using inv Decode_stream_prefix unfolding pipe_inv_def by metis
  then obtain ps where "Decode (buf @ bytes) = Decoded ps rest" "all = got @ ps"
    using d by (cases "Decode (buf @ bytes)") auto
  then show ?thesis using inv more all that by (simp add: pipe_inv_def)
qed

lemma pipe_inv_complete:
  assumes "pipe_inv sent w got (Some buf)" and "arrived w = concat (map encoded sent)"
  shows "got = map wire sent \<and> buf = []"
  using assms Decode_encoded_stream [of sent] by (simp add: pipe_inv_def)

subsection \<open>The contract of an end\<close>

text \<open>
  An end accepts packets for sending, has submitted a part of their encodings to its socket, and gives the
  packets it decodes to its handler; a step is labelled with the bytes it reads.
\<close>

locale packet_end =
  fixes good :: "'e \<Rightarrow> bool" and step :: "byte list option \<Rightarrow> 'e \<Rightarrow> 'e \<Rightarrow> bool"
    and accepted :: "'e \<Rightarrow> Packet list" and submitted :: "'e \<Rightarrow> byte list"
    and got :: "'e \<Rightarrow> Packet list" and buffer :: "'e \<Rightarrow> Buffer option"
  assumes kept: "good e \<Longrightarrow> step r e e' \<Longrightarrow> good e'"
    and encodes: "good e \<Longrightarrow> prefix (submitted e) (concat (map encoded (accepted e)))"
    and fitting: "good e \<Longrightarrow> \<forall>p\<in>set (accepted e). fits p"
    and grows: "good e \<Longrightarrow> step r e e' \<Longrightarrow> prefix (accepted e) (accepted e')"
    and quiet: "good e \<Longrightarrow> step None e e' \<Longrightarrow> got e' = got e \<and> (buffer e' = buffer e \<or> buffer e' = None)"
    and closed: "good e \<Longrightarrow> step (Some bytes) e e' \<Longrightarrow> buffer e = None \<Longrightarrow> got e' = got e \<and> buffer e' = None"
    and reads: "good e \<Longrightarrow> step (Some bytes) e e' \<Longrightarrow> buffer e = Some b \<Longrightarrow> Decode (b @ bytes) = Decoded ps rest \<Longrightarrow>
      got e' = got e @ ps \<and> (buffer e' = Some rest \<or> buffer e' = None)"
begin

text \<open>The end as the sender and as the receiver of a direction.\<close>

lemma sends:
  assumes "good e" and "step r e e'" and "pipe_inv (accepted e) w g b"
  shows "pipe_inv (accepted e') w g b"
  using pipe_inv_put [OF assms(3) grows [OF assms(1,2)] fitting [OF kept [OF assms(1,2)]]] .

lemma transmits:
  assumes "good e" and "pipe_inv (accepted e) w g b" and "prefix (on_wire w) bytes" "prefix bytes (submitted e)"
  shows "pipe_inv (accepted e) (w\<lparr>on_wire := bytes\<rparr>) g b"
  using pipe_inv_wire [OF assms(2,3)] encodes [OF assms(1)] assms(4) prefix_order.trans by blast

lemma stays:
  assumes "good e" and "step None e e'" and "pipe_inv sent w (got e) (buffer e)"
  shows "pipe_inv sent w (got e') (buffer e')"
  using quiet [OF assms(1,2)] pipe_inv_lose [OF assms(3)] by metis

lemma receives:
  assumes "good e" and "step (Some bytes) e e'" and "pipe_inv sent w (got e) (buffer e)"
    and "prefix (arrived w @ bytes) (on_wire w)"
  shows "pipe_inv sent (w\<lparr>arrived := arrived w @ bytes\<rparr>) (got e') (buffer e') \<and> prefix (got e) (got e')"
proof (cases "buffer e")
  case None
  then show ?thesis using closed [OF assms(1,2) None] pipe_inv_arrive_closed [of sent w "got e" bytes] assms(3,4) by simp
next
  case (Some b)
  then obtain ps rest where d: "Decode (b @ bytes) = Decoded ps rest"
    and i: "pipe_inv sent (w\<lparr>arrived := arrived w @ bytes\<rparr>) (got e @ ps) (Some rest)"
    using pipe_inv_arrive [OF _ assms(4)] assms(3) by metis
  have "got e' = got e @ ps \<and> (buffer e' = Some rest \<or> buffer e' = None)" by (rule reads [OF assms(1,2) Some d])
  then show ?thesis using pipe_inv_lose [OF i, of "buffer e'"] by auto
qed

end

subsection \<open>Two ends and the network\<close>

record ('a, 'b) link =
  near :: 'a
  far :: 'b
  outward :: pipe   \<comment> \<open>from the near end to the far end\<close>
  inward :: pipe

text \<open>The network takes submitted bytes in order, as many as it likes, and hands them on in order, in any pieces.\<close>

inductive link_step for stepA :: "byte list option \<Rightarrow> 'a \<Rightarrow> 'a \<Rightarrow> bool" and subA
    and stepB :: "byte list option \<Rightarrow> 'b \<Rightarrow> 'b \<Rightarrow> bool" and subB where
  Near: "stepA None (near l) a \<Longrightarrow> link_step stepA subA stepB subB l (l\<lparr>near := a\<rparr>)"
| Far: "stepB None (far l) b \<Longrightarrow> link_step stepA subA stepB subB l (l\<lparr>far := b\<rparr>)"
| Out: "prefix (on_wire (outward l)) bytes \<Longrightarrow> prefix bytes (subA (near l)) \<Longrightarrow>
    link_step stepA subA stepB subB l (l\<lparr>outward := (outward l)\<lparr>on_wire := bytes\<rparr>\<rparr>)"
| In: "prefix (on_wire (inward l)) bytes \<Longrightarrow> prefix bytes (subB (far l)) \<Longrightarrow>
    link_step stepA subA stepB subB l (l\<lparr>inward := (inward l)\<lparr>on_wire := bytes\<rparr>\<rparr>)"
| Far_reads: "prefix (arrived (outward l) @ bytes) (on_wire (outward l)) \<Longrightarrow> stepB (Some bytes) (far l) b \<Longrightarrow>
    link_step stepA subA stepB subB l
      (l\<lparr>far := b, outward := (outward l)\<lparr>arrived := arrived (outward l) @ bytes\<rparr>\<rparr>)"
| Near_reads: "prefix (arrived (inward l) @ bytes) (on_wire (inward l)) \<Longrightarrow> stepA (Some bytes) (near l) a \<Longrightarrow>
    link_step stepA subA stepB subB l
      (l\<lparr>near := a, inward := (inward l)\<lparr>arrived := arrived (inward l) @ bytes\<rparr>\<rparr>)"

locale packet_link =
  A: packet_end goodA stepA acceptedA submittedA gotA bufferA +
  B: packet_end goodB stepB acceptedB submittedB gotB bufferB
  for goodA :: "'a \<Rightarrow> bool" and stepA acceptedA submittedA gotA bufferA
    and goodB :: "'b \<Rightarrow> bool" and stepB acceptedB submittedB gotB bufferB
begin

definition link_inv :: "('a, 'b) link \<Rightarrow> bool" where
  "link_inv l \<longleftrightarrow> goodA (near l) \<and> goodB (far l) \<and>
     pipe_inv (acceptedA (near l)) (outward l) (gotB (far l)) (bufferB (far l)) \<and>
     pipe_inv (acceptedB (far l)) (inward l) (gotA (near l)) (bufferA (near l))"

lemma link_invD:
  assumes "link_inv l"
  shows "goodA (near l)" "goodB (far l)"
    "pipe_inv (acceptedA (near l)) (outward l) (gotB (far l)) (bufferB (far l))"
    "pipe_inv (acceptedB (far l)) (inward l) (gotA (near l)) (bufferA (near l))"
  using assms by (simp_all add: link_inv_def)

text \<open>A step keeps the invariant, and neither what was accepted nor what was received shrinks.\<close>

lemma link_step_inv:
  assumes "link_step stepA submittedA stepB submittedB l l'" and "link_inv l"
  shows "link_inv l' \<and> prefix (acceptedA (near l)) (acceptedA (near l')) \<and> prefix (gotB (far l)) (gotB (far l')) \<and>
    prefix (acceptedB (far l)) (acceptedB (far l')) \<and> prefix (gotA (near l)) (gotA (near l'))"
proof -
  note i = link_invD [OF assms(2)]
  show ?thesis using assms(1)
  proof cases
    case (Near a)
    then show ?thesis using i A.kept [OF i(1) Near(2)] A.grows [OF i(1) Near(2)] A.quiet [OF i(1) Near(2)]
        A.sends [OF i(1) Near(2) i(3)] A.stays [OF i(1) Near(2) i(4)] by (simp add: link_inv_def)
  next
    case (Far b)
    then show ?thesis using i B.kept [OF i(2) Far(2)] B.grows [OF i(2) Far(2)] B.quiet [OF i(2) Far(2)]
        B.sends [OF i(2) Far(2) i(4)] B.stays [OF i(2) Far(2) i(3)] by (simp add: link_inv_def)
  next
    case (Out bytes)
    then show ?thesis using i A.transmits [OF i(1,3)] by (simp add: link_inv_def)
  next
    case (In bytes)
    then show ?thesis using i B.transmits [OF i(2,4)] by (simp add: link_inv_def)
  next
    case (Far_reads bytes b)
    then show ?thesis using i B.kept [OF i(2) Far_reads(3)] B.grows [OF i(2) Far_reads(3)]
        B.sends [OF i(2) Far_reads(3) i(4)] B.receives [OF i(2) Far_reads(3) i(3)] by (simp add: link_inv_def)
  next
    case (Near_reads bytes a)
    then show ?thesis using i A.kept [OF i(1) Near_reads(3)] A.grows [OF i(1) Near_reads(3)]
        A.sends [OF i(1) Near_reads(3) i(3)] A.receives [OF i(1) Near_reads(3) i(4)] by (simp add: link_inv_def)
  qed
qed

lemma link_run_inv: "(link_step stepA submittedA stepB submittedB)\<^sup>*\<^sup>* l l' \<Longrightarrow> link_inv l \<Longrightarrow> link_inv l'"
  by (induction rule: rtranclp_induct) (auto dest: link_step_inv)

lemma link_inv_new:
  assumes "goodA a" "gotA a = []" "bufferA a = Some []" and "goodB b" "gotB b = []" "bufferB b = Some []"
  shows "link_inv \<lparr>near = a, far = b, outward = pipe_new, inward = pipe_new\<rparr>"
  using assms A.fitting B.fitting by (simp add: link_inv_def pipe_inv_new)

text \<open>What arrives is a prefix of what was accepted, and all of it once every byte has arrived.\<close>

lemma delivers:
  assumes "link_inv l"
  shows "prefix (gotB (far l)) (map wire (acceptedA (near l)))" "prefix (gotA (near l)) (map wire (acceptedB (far l)))"
    and "arrived (outward l) = concat (map encoded (acceptedA (near l))) \<Longrightarrow> bufferB (far l) \<noteq> None \<Longrightarrow>
      gotB (far l) = map wire (acceptedA (near l))"
    and "arrived (inward l) = concat (map encoded (acceptedB (far l))) \<Longrightarrow> bufferA (near l) \<noteq> None \<Longrightarrow>
      gotA (near l) = map wire (acceptedB (far l))"
  using link_invD [OF assms] pipe_inv_complete by (auto simp: pipe_inv_def)

lemma refines:
  assumes "link_step stepA submittedA stepB submittedB l l'" and "link_inv l"
  shows "fifo_step\<^sup>*\<^sup>* (map wire (acceptedA (near l)), gotB (far l)) (map wire (acceptedA (near l')), gotB (far l'))"
    and "fifo_step\<^sup>*\<^sup>* (map wire (acceptedB (far l)), gotA (near l)) (map wire (acceptedB (far l')), gotA (near l'))"
proof -
  note s = link_step_inv [OF assms]
  show "fifo_step\<^sup>*\<^sup>* (map wire (acceptedA (near l)), gotB (far l)) (map wire (acceptedA (near l')), gotB (far l'))"
    and "fifo_step\<^sup>*\<^sup>* (map wire (acceptedB (far l)), gotA (near l)) (map wire (acceptedB (far l')), gotA (near l'))"
    using s delivers(1,2) [of l'] by (auto intro!: fifo_simulated map_mono_prefix)
qed

end

end
