(* ===== verification/Wire_Delivery.thy ===== *)
theory Wire_Delivery
  imports Packet_Channel Tcp_Connection Bot_Properties
begin

text \<open>
  The server's \<open>TcpConnection\<close> and a simulated client on one of its sockets are both ends in the sense of
  \<open>Packet_Channel\<close>: connected by a byte stream in each direction, they exchange packets in order, each
  once and unaltered.  Nothing is assumed of the speed of the network, of the pieces in which bytes are
  taken and read, or of when either end fails.
\<close>

subsection \<open>The server's end\<close>

definition front :: "byte list list \<Rightarrow> byte list" where
  "front q = (case q of [] \<Rightarrow> [] | bytes # rest \<Rightarrow> bytes)"

lemma front_simps [simp]: "front [] = []" "front (x # q) = x"
  by (simp_all add: front_def)

lemma prefix_front: "prefix (xs @ front q) (xs @ concat q)"
  by (cases q) simp_all

text \<open>The network may have taken any part of the frames whose writes are in flight.\<close>

definition conn_submitted :: "Packet list \<times> conn \<Rightarrow> byte list" where
  "conn_submitted = (\<lambda>(sent, c). stream c @ concat (writes c))"

definition conn_got :: "Packet list \<times> conn \<Rightarrow> Packet list" where
  "conn_got x = delivered (snd x)"

definition conn_buffer :: "Packet list \<times> conn \<Rightarrow> Buffer option" where
  "conn_buffer x = (if reading (snd x) then Some (read_buffer (snd x)) else None)"

inductive_cases conn_step_data: "conn_step (Some bytes) x y"

interpretation server_end: packet_end write_inv conn_step fst conn_submitted conn_got conn_buffer
proof
  fix x y :: "Packet list \<times> conn" and r :: "byte list option" and bytes b rest :: "byte list" and ps
  assume good: "write_inv x"
  have "writes (snd x) = [] \<or> concat (writes (snd x)) = front (write_queue (snd x))"
    using good unfolding write_inv_def split_beta by (cases "write_queue (snd x)") auto
  then have "prefix (conn_submitted x) (stream (snd x) @ concat (write_queue (snd x)))"
    using prefix_front [of "stream (snd x)" "write_queue (snd x)"] by (auto simp: conn_submitted_def split_beta)
  then show "prefix (conn_submitted x) (concat (map encoded (fst x)))" "\<forall>p\<in>set (fst x). fits p"
    using good unfolding write_inv_def split_beta by simp_all
  show "write_inv y" if "conn_step r x y" using write_inv_step [OF that good] .
  show "prefix (fst x) (fst y)" if "conn_step r x y" using that by cases simp_all
  show "conn_got y = conn_got x \<and> (conn_buffer y = conn_buffer x \<or> conn_buffer y = None)" if "conn_step None x y"
    using that
    by cases (auto simp: conn_got_def conn_buffer_def TcpConnection_Send_def DoWrite_def on_written_def on_read_def
        TcpConnection_Close_def Let_def split: sum.splits list.splits if_splits)
  show "conn_got y = conn_got x \<and> conn_buffer y = None" if "conn_step (Some bytes) x y" "conn_buffer x = None"
    using that by (auto simp: conn_buffer_def elim!: conn_step_data split: if_splits)
  show "conn_got y = conn_got x @ ps \<and> (conn_buffer y = Some rest \<or> conn_buffer y = None)"
    if "conn_step (Some bytes) x y" "conn_buffer x = Some b" "Decode (b @ bytes) = Decoded ps rest"
    using that by (auto simp: conn_buffer_def conn_got_def on_read_ok elim!: conn_step_data split: if_splits)
qed

subsection \<open>The client's end\<close>

text \<open>
  The client on the socket \<open>s\<close>.  \<open>be_accepted\<close> are the packets it put into the queue of that socket,
  \<open>be_seen\<close> those it read from it and handled.
\<close>

record bot_end =
  be_bot :: BotClient
  be_accepted :: "Packet list"
  be_seen :: "Packet list"

definition live :: "sock \<Rightarrow> BotClient \<Rightarrow> bool" where
  "live s b \<longleftrightarrow> bc_running b \<and> bc_socket b = Some s"

definition handled :: "sock \<Rightarrow> byte list \<Rightarrow> BotClient \<Rightarrow> Packet list" where
  "handled s bytes b =
     (if live s b then case Decode (bc_read_buffer b @ bytes) of Decoded ps rest \<Rightarrow> ps | DecodeThrow e rest \<Rightarrow> [] else [])"

text \<open>What happens on other sockets is no data for this end.\<close>

definition elsewhere :: "sock \<Rightarrow> bot_event \<Rightarrow> bool" where
  "elsewhere s e = (case e of Bot_quiet \<Rightarrow> True | Bot_accepts s' p \<Rightarrow> s' \<noteq> s | Bot_reads s' bytes \<Rightarrow> s' \<noteq> s)"

inductive bot_end_step :: "'f bot_env \<Rightarrow> sock \<Rightarrow> byte list option \<Rightarrow> bot_end \<Rightarrow> bot_end \<Rightarrow> bool" for env s where
  Elsewhere: "bot_step env e (be_bot x) b \<Longrightarrow> elsewhere s e \<Longrightarrow> bot_end_step env s None x (x\<lparr>be_bot := b\<rparr>)"
| Accepts: "bot_step env (Bot_accepts s p) (be_bot x) b \<Longrightarrow>
    bot_end_step env s None x (x\<lparr>be_bot := b, be_accepted := be_accepted x @ [p]\<rparr>)"
| Reads: "bot_step env (Bot_reads s bytes) (be_bot x) b \<Longrightarrow>
    bot_end_step env s (Some bytes) x (x\<lparr>be_bot := b, be_seen := be_seen x @ handled s bytes (be_bot x)\<rparr>)"

definition socket_frames :: "sock \<Rightarrow> BotClient \<Rightarrow> byte list list" where
  "socket_frames s b = map snd (filter (\<lambda>w. fst w = s) (bc_wire b))"

definition bot_submitted :: "sock \<Rightarrow> bot_end \<Rightarrow> byte list" where
  "bot_submitted s x = concat (socket_frames s (be_bot x)) @
     (if bc_socket (be_bot x) = Some s then front (bc_write_queue (be_bot x)) else [])"

definition bot_buffer :: "sock \<Rightarrow> bot_end \<Rightarrow> Buffer option" where
  "bot_buffer s x = (if live s (be_bot x) then Some (bc_read_buffer (be_bot x)) else None)"

text \<open>The bytes for the socket are \<open>t\<close>; the accepted and the posted packets come in the order they were built.\<close>

definition sent_as :: "sock \<Rightarrow> byte list \<Rightarrow> BotClient \<Rightarrow> bool" where
  "sent_as s t b \<longleftrightarrow> prefix (concat (socket_frames s b)) t \<and>
     (bc_socket b = Some s \<longrightarrow> concat (socket_frames s b) @ concat (bc_write_queue b) = t)"

definition in_order :: "Packet list \<Rightarrow> BotClient \<Rightarrow> bool" where
  "in_order acc b \<longleftrightarrow> subseq (acc @ sends (bc_posts b)) (bc_built b) \<and> (\<forall>p\<in>set (bc_built b). wire p = p)"

definition bot_good :: "sock \<Rightarrow> bot_end \<Rightarrow> bool" where
  "bot_good s x \<longleftrightarrow> s < bc_next_sock (be_bot x) \<and> (\<forall>p\<in>set (be_accepted x). fits p) \<and>
     sent_as s (concat (map encoded (be_accepted x))) (be_bot x) \<and> in_order (be_accepted x) (be_bot x)"

text \<open>A change of the client that neither accepts nor reads on the socket.\<close>

definition calm :: "sock \<Rightarrow> BotClient \<Rightarrow> BotClient \<Rightarrow> bool" where
  "calm s b b' \<longleftrightarrow> (\<forall>acc. in_order acc b \<longrightarrow> in_order acc b') \<and> (s < bc_next_sock b \<longrightarrow>
     s < bc_next_sock b' \<and> (\<forall>t. sent_as s t b \<longrightarrow> sent_as s t b') \<and>
     (live s b' \<longrightarrow> live s b \<and> bc_read_buffer b' = bc_read_buffer b))"

lemma calm_refl [simp]: "calm s b b"
  by (simp add: calm_def)

lemma calm_trans [trans]: "calm s a b \<Longrightarrow> calm s b c \<Longrightarrow> calm s a c"
  by (auto simp: calm_def)

lemma calm_same:
  assumes "bc_next_sock b' = bc_next_sock b" "bc_wire b' = bc_wire b" "bc_socket b' = bc_socket b" "bc_running b' = bc_running b"
    and "bc_write_queue b' = bc_write_queue b" "bc_read_buffer b' = bc_read_buffer b" "bc_posts b' = bc_posts b" "bc_built b' = bc_built b"
  shows "calm s b b'"
  using assms by (simp add: calm_def sent_as_def in_order_def live_def socket_frames_def)

lemma calm_send: "calm s b (send_request env mid r b)"
proof -
  let ?p = "Build (msg_value mid) (serialize env r) (bc_seq b + 1)"
  have "wire ?p = ?p" by (simp add: wire_def Build_def kPacketMetaSize_def)
  moreover have "subseq (acc @ sends (bc_posts b)) (bc_built b @ [?p])"
    "subseq (acc @ sends (bc_posts b @ [Post_Send ?p])) (bc_built b @ [?p])"
    if "subseq (acc @ sends (bc_posts b)) (bc_built b)" for acc
    using that subseq_append [of "acc @ sends (bc_posts b)" "[?p]" "bc_built b"] by (simp_all add: subseq_rev_drop_many)
  ultimately show ?thesis
    by (auto simp: calm_def sent_as_def in_order_def live_def socket_frames_def send_request_def SendPacket_def Let_def)
qed

lemma calm_schedule [simp]: "calm s b (ScheduleTimer d cb b)"
  by (rule calm_same) (simp_all add: ScheduleTimer_def)

interpretation calm_frame: bot_stable env "calm s b0" for env s b0
proof
  fix b b' :: BotClient and d cb mid and r :: "'a bot_request"
  assume b: "calm s b0 b"
  show "calm s b0 (send_request env mid r b)" using calm_trans [OF b calm_send] .
  show "calm s b0 (ScheduleTimer d cb b)" using calm_trans [OF b calm_schedule] .
  have h: "calm s b (b\<lparr>heartbeat_started := True\<rparr>)" by (rule calm_same) simp_all
  show "calm s b0 (ScheduleHeartbeat b)"
    using b calm_trans [OF b calm_trans [OF h calm_schedule]] by (simp add: ScheduleHeartbeat_def)
  show "calm s b0 b'" if "core b' = core b"
    by (rule calm_trans [OF b calm_same]) (use that in \<open>simp_all add: core_def\<close>)
  show "calm s b0 (b\<lparr>bc_draws := bc_draws b @ [(lo, hi)]\<rparr>)" "calm s b0 (b\<lparr>reconnect_count := 0\<rparr>)" for lo hi
    by (rule calm_trans [OF b calm_same], simp_all)+
qed

lemma calm_close [simp]: "calm s b (BotClient_CloseSocket b)"
  by (auto simp: calm_def sent_as_def in_order_def live_def socket_frames_def BotClient_CloseSocket_def Let_def split: option.split)

lemma calm_connect [simp]: "calm s b (BotClient_Connect resolved reconnect b)"
  by (auto simp: calm_def sent_as_def in_order_def live_def socket_frames_def BotClient_Connect_def ScheduleTimer_def
      count_stat_def Let_def)

lemma calm_count [simp]: "calm s b (count_stat f b)"
  by (rule calm_same) (simp_all add: count_stat_def)

lemma calm_schedule_jitter [simp]: "calm s b (schedule_jitter env base cb b)"
  by (rule calm_same) (simp_all add: schedule_jitter_def JitterMs_def RandomUtil_Int_def ScheduleTimer_def Let_def)

lemma calm_timer: "calm s b (bot_on_timer env now resolved cb b)"
proof -
  have "calm s b (run_callback env now resolved cb b)"
  proof (cases cb)
    case Do_Heartbeat
    then show ?thesis using calm_trans [OF calm_send [where env = env] calm_schedule] by (simp add: BotClient_Heartbeat_def)
  next
    case (Do_SimulateDisconnect point)
    let ?c = "count_stat (disconnects_update inc64) (b\<lparr>reconnect_count := reconnect_count b + 1\<rparr>)"
    have "calm s b ?c" by (rule calm_same) (simp_all add: count_stat_def)
    also have "calm s ?c (BotClient_CloseSocket ?c)" by simp
    finally have c: "calm s b (BotClient_CloseSocket ?c)" .
    have "calm s x (ScheduleReconnect env x)" for x by (simp add: ScheduleReconnect_def)
    then show ?thesis using Do_SimulateDisconnect calm_trans [OF c] by (simp add: SimulateDisconnect_def)
  qed (simp, (rule calm_frame.flow_callback [OF calm_refl], force)+)
  then show ?thesis by (simp add: bot_on_timer_def)
qed

lemma calm_on_connected: "calm s b (bot_on_connected env ok s' reconnect b)"
proof -
  have o: "calm s b (b\<lparr>bc_open := s' # bc_open b\<rparr>)" by (rule calm_same) simp_all
  have c: "calm s b (count_stat f (b\<lparr>bc_open := s' # bc_open b, bc_connected := True\<rparr>))" for f
    by (rule calm_same) (simp_all add: count_stat_def)
  have r: "calm s x (BotClient_DoRead s' x)" for x by (rule calm_same) (simp_all add: BotClient_DoRead_def)
  show ?thesis
    using o calm_trans [OF calm_trans [OF c calm_send [where env = env]] r] calm_trans [OF calm_count calm_schedule]
    by (simp add: bot_on_connected_def Let_def BotClient_Reconnect_def BotClient_Login_def)
qed

lemma calm_on_written: "calm s b (bot_on_written ok s' b)"
proof -
  have "calm s b (b\<lparr>bc_write_queue := rest, bc_wire := bc_wire b @ [(s', bytes)]\<rparr>)"
    if "bc_write_queue b = bytes # rest" "bc_socket b = Some s'" for bytes rest
    using that by (auto simp: calm_def sent_as_def in_order_def live_def socket_frames_def prefix_def)
  moreover have "calm s x (BotClient_DoWrite y x)" for x y
    by (rule calm_same) (simp_all add: BotClient_DoWrite_def split: option.split)
  ultimately show ?thesis using calm_trans by (auto simp: bot_on_written_def Let_def split: list.split)
qed

text \<open>A read changes the buffer and is calm otherwise.\<close>

lemma calm_on_read:
  "\<exists>buf. calm s (b\<lparr>bc_read_buffer := buf\<rparr>) (bot_on_read env r s' b) \<and>
     (live s b \<and> s' \<noteq> s \<or> r = None \<longrightarrow> buf = bc_read_buffer b) \<and>
     (\<forall>bytes ps rest. live s b \<and> s' = s \<and> r = Some bytes \<and> Decode (bc_read_buffer b @ bytes) = Decoded ps rest \<longrightarrow> buf = rest)"
proof (cases "bc_running b \<and> bc_socket b = Some s' \<and> r \<noteq> None")
  case False
  moreover have "calm s b (b\<lparr>bc_connected := False\<rparr>)" by (rule calm_same) simp_all
  ultimately have "calm s (b\<lparr>bc_read_buffer := bc_read_buffer b\<rparr>) (bot_on_read env r s' b)"
    by (auto simp: bot_on_read_def split: option.split)
  then show ?thesis using False by (intro exI [of _ "bc_read_buffer b"]) (auto simp: live_def)
next
  case True
  then obtain bytes where r: "r = Some bytes" by blast
  have d: "calm s x (BotClient_DoRead s' x)" for x by (rule calm_same) (simp_all add: BotClient_DoRead_def)
  have f: "calm s (b\<lparr>bc_read_buffer := rest\<rparr>) (BotClient_DoRead s' (fold (BotClient_OnMessage env) ps (b\<lparr>bc_read_buffer := rest\<rparr>)))"
    for ps rest by (rule calm_trans [OF calm_frame.OnMessages [OF calm_refl] d])
  show ?thesis
  proof (cases "Decode (bc_read_buffer b @ bytes)")
    case (Decoded ps rest)
    then show ?thesis using True r f by (intro exI [of _ rest]) (auto simp: bot_on_read_def live_def)
  next
    case (DecodeThrow e rest)
    then show ?thesis using True r by (intro exI [of _ rest]) (auto simp: bot_on_read_def live_def)
  qed
qed

lemma calm_buffer: "\<not> live s b \<Longrightarrow> calm s b (b\<lparr>bc_read_buffer := buf\<rparr>)"
  by (auto simp: calm_def sent_as_def in_order_def live_def socket_frames_def)

subsubsection \<open>Steps\<close>

lemma push_frame_fields:
  "bc_next_sock (push_frame s bytes b) = bc_next_sock b" "bc_wire (push_frame s bytes b) = bc_wire b"
  "bc_socket (push_frame s bytes b) = bc_socket b" "bc_running (push_frame s bytes b) = bc_running b"
  "bc_write_queue (push_frame s bytes b) = bc_write_queue b @ [bytes]"
  "bc_read_buffer (push_frame s bytes b) = bc_read_buffer b"
  "bc_posts (push_frame s bytes b) = bc_posts b" "bc_built (push_frame s bytes b) = bc_built b"
  by (simp_all add: push_frame_def Let_def)

lemma calm_posts:
  assumes "subseq (sends ps) (sends (bc_posts b))"
  shows "calm s b (b\<lparr>bc_posts := ps\<rparr>)"
proof -
  have "subseq (acc @ sends ps) (acc @ sends (bc_posts b))" for acc
    using assms by (simp add: subseq_append_le_same_iff list_emb_append_mono)
  then show ?thesis
    using subseq_order.order_trans by (fastforce simp: calm_def sent_as_def in_order_def live_def socket_frames_def)
qed

lemma bot_step_calm:
  assumes "bot_step env e b b'" and "elsewhere s e"
  shows "calm s b b'"
  using assms(1)
proof cases
  case (Run_send p ps)
  let ?b = "b\<lparr>bc_posts := ps\<rparr>"
  have c: "calm s b ?b" by (rule calm_posts) (simp add: Run_send list_emb_Cons)
  from run_send_cases [OF Run_send(4)] show ?thesis
  proof
    assume "b' = ?b"
    then show ?thesis using c by simp
  next
    assume "\<exists>s' bytes. bc_running ?b \<and> bc_connected ?b \<and> bc_socket ?b = Some s' \<and> Encode p = Inr bytes \<and> b' = push_frame s' bytes ?b"
    then obtain s' bytes where a: "bc_running b" "bc_connected b" "bc_socket b = Some s'" "b' = push_frame s' bytes ?b" by auto
    show ?thesis
    proof (cases "s' \<in> set (bc_open b)")
      case True
      then have "s' \<noteq> s" using assms(2) Run_send(1) a by (simp add: elsewhere_def send_event_def)
      then have "calm s ?b b'"
        using a by (simp add: calm_def sent_as_def in_order_def live_def socket_frames_def push_frame_fields)
      then show ?thesis by (rule calm_trans [OF c])
    next
      case False
      then have "b' = ?b" using Run_send(4) a by (simp add: run_send_def)
      then show ?thesis using c by simp
    qed
  qed
next
  case (Run_close ps)
  show ?thesis unfolding Run_close(2)
    by (rule calm_trans [OF calm_posts calm_close]) (simp add: Run_close)
next
  case (Timer d cb now resolved)
  show ?thesis unfolding Timer(2) by (rule calm_trans [OF calm_same calm_timer]) simp_all
next
  case (Connected s' reconnect ok)
  show ?thesis unfolding Connected(2) by (rule calm_trans [OF calm_same calm_on_connected]) simp_all
next
  case (Written s' ok)
  show ?thesis unfolding Written(2) by (rule calm_trans [OF calm_same calm_on_written]) simp_all
next
  case (Read s' r)
  let ?b = "b\<lparr>bc_reads := remove1 s' (bc_reads b)\<rparr>"
  obtain buf where buf: "calm s (?b\<lparr>bc_read_buffer := buf\<rparr>) b'" "live s ?b \<and> s' \<noteq> s \<or> r = None \<longrightarrow> buf = bc_read_buffer ?b"
    using calm_on_read [of s ?b env r s'] Read(2) by blast
  have "s' \<noteq> s \<or> r = None" using assms(2) Read(1) by (auto simp: elsewhere_def read_event_def split: option.splits)
  then have "calm s ?b (?b\<lparr>bc_read_buffer := buf\<rparr>)" using buf(2) calm_buffer [of s ?b buf] by (cases "live s ?b") auto
  then have "calm s ?b b'" using buf(1) by (rule calm_trans)
  moreover have "calm s b ?b" by (rule calm_same) simp_all
  ultimately show ?thesis using calm_trans by blast
next
  case Stop_request
  then show ?thesis
    by (auto simp: calm_def sent_as_def in_order_def live_def socket_frames_def BotClient_Stop_request_def)
next
  case Stop_join
  show ?thesis unfolding Stop_join(2) by (rule calm_same) (simp_all add: BotClient_Stop_join_def)
qed

lemma bot_step_accepts:
  assumes "bot_step env (Bot_accepts s p) b b'"
  obtains ps where "live s b" and "bc_posts b = Post_Send p # ps" and "fits p" and "b' = push_frame s (encoded p) (b\<lparr>bc_posts := ps\<rparr>)"
  using assms
proof cases
  case (Run_send q ps)
  then have e: "q = p" "live s b" "bc_connected b" "s \<in> set (bc_open b)"
    by (auto simp: send_event_def live_def split: option.splits if_splits)
  then have "\<exists>bytes. Encode p = Inr bytes \<and> b' = push_frame s bytes (b\<lparr>bc_posts := ps\<rparr>)"
    using Run_send(4) by (cases "Encode p")
      (auto simp: run_send_def live_def push_frame_def BotClient_DoWrite_def Let_def)
  then show ?thesis using Run_send e by (auto simp: Encode_eq split: if_splits intro: that)
qed (auto simp: read_event_def split: option.splits)

lemma bot_step_reads:
  "bot_step env (Bot_reads s bytes) b b' \<Longrightarrow> b' = bot_on_read env (Some bytes) s (b\<lparr>bc_reads := remove1 s (bc_reads b)\<rparr>)"
  by (erule bot_step.cases) (auto simp: read_event_def send_event_def split: option.splits if_splits)

subsubsection \<open>The contract\<close>

lemma bot_good_calm:
  "bot_good s x \<Longrightarrow> calm s (be_bot x) b \<Longrightarrow> bot_good s (x\<lparr>be_bot := b\<rparr>)"
  by (simp add: bot_good_def calm_def)

lemma bot_good_accepts:
  assumes good: "bot_good s x" and step: "bot_step env (Bot_accepts s p) (be_bot x) b"
  shows "bot_good s (x\<lparr>be_bot := b, be_accepted := be_accepted x @ [p]\<rparr>)"
proof -
  obtain ps where a: "live s (be_bot x)" "bc_posts (be_bot x) = Post_Send p # ps" "fits p"
      "b = push_frame s (encoded p) (be_bot x\<lparr>bc_posts := ps\<rparr>)"
    using step by (rule bot_step_accepts)
  then show ?thesis using good
    by (simp add: bot_good_def sent_as_def in_order_def live_def socket_frames_def push_frame_fields prefix_def)
       (metis append.assoc)
qed

lemma bot_good_reads:
  assumes good: "bot_good s x" and step: "bot_step env (Bot_reads s bytes) (be_bot x) b"
  shows "bot_good s (x\<lparr>be_bot := b, be_seen := be_seen x @ ps\<rparr>)"
proof -
  let ?b = "(be_bot x)\<lparr>bc_reads := remove1 s (bc_reads (be_bot x))\<rparr>"
  obtain buf where "calm s (?b\<lparr>bc_read_buffer := buf\<rparr>) b"
    using calm_on_read [of s ?b env "Some bytes" s] bot_step_reads [OF step] by metis
  moreover have "bot_good s (x\<lparr>be_bot := ?b\<lparr>bc_read_buffer := buf\<rparr>\<rparr>)"
    using good by (simp add: bot_good_def sent_as_def in_order_def socket_frames_def)
  ultimately have "bot_good s (x\<lparr>be_bot := b\<rparr>)" using bot_good_calm [of s "x\<lparr>be_bot := ?b\<lparr>bc_read_buffer := buf\<rparr>\<rparr>" b] by simp
  then show ?thesis by (simp add: bot_good_def)
qed

lemma bot_end_buffer:
  "calm s b b' \<Longrightarrow> s < bc_next_sock b \<Longrightarrow> bot_buffer s (x\<lparr>be_bot := b'\<rparr>) = bot_buffer s (x\<lparr>be_bot := b\<rparr>) \<or>
     bot_buffer s (x\<lparr>be_bot := b'\<rparr>) = None"
  by (simp add: calm_def bot_buffer_def)

lemma bot_end_reads:
  assumes "bot_step env (Bot_reads s bytes) b b'" and "s < bc_next_sock b"
  shows "\<not> live s b \<Longrightarrow> \<not> live s b'"
    and "live s b \<Longrightarrow> Decode (bc_read_buffer b @ bytes) = Decoded ps rest \<Longrightarrow> live s b' \<Longrightarrow> bc_read_buffer b' = rest"
proof -
  let ?b = "b\<lparr>bc_reads := remove1 s (bc_reads b)\<rparr>"
  have l: "live s (?b\<lparr>bc_read_buffer := buf\<rparr>) = live s b" for buf by (simp add: live_def)
  obtain buf where buf: "calm s (?b\<lparr>bc_read_buffer := buf\<rparr>) b'"
    "live s b \<and> Decode (bc_read_buffer b @ bytes) = Decoded ps rest \<Longrightarrow> buf = rest" for ps rest
    using calm_on_read [of s ?b env "Some bytes" s] bot_step_reads [OF assms(1)] l by (auto simp: live_def)
  show "\<not> live s b \<Longrightarrow> \<not> live s b'"
    and "live s b \<Longrightarrow> Decode (bc_read_buffer b @ bytes) = Decoded ps rest \<Longrightarrow> live s b' \<Longrightarrow> bc_read_buffer b' = rest"
    using buf assms(2) l by (simp_all add: calm_def)
qed

interpretation client_end: packet_end "bot_good s" "bot_end_step env s" be_accepted "bot_submitted s" be_seen "bot_buffer s"
  for s env
proof
  fix x y :: bot_end and r :: "byte list option" and bytes buf rest :: "byte list" and ps
  assume good: "bot_good s x"
  then have next_sock: "s < bc_next_sock (be_bot x)" by (simp add: bot_good_def)
  show "\<forall>p\<in>set (be_accepted x). fits p" using good by (simp add: bot_good_def)
  show "prefix (bot_submitted s x) (concat (map encoded (be_accepted x)))"
    using good prefix_front [of "concat (socket_frames s (be_bot x))" "bc_write_queue (be_bot x)"]
    unfolding bot_good_def sent_as_def bot_submitted_def
    by (cases "bc_socket (be_bot x) = Some s") (simp_all del: same_prefix_prefix)
  show "bot_good s y" if "bot_end_step env s r x y" using that
    by cases (simp_all add: bot_good_calm [OF good bot_step_calm] bot_good_accepts [OF good] bot_good_reads [OF good])
  show "prefix (be_accepted x) (be_accepted y)" if "bot_end_step env s r x y" using that by cases simp_all
  show "be_seen y = be_seen x \<and> (bot_buffer s y = bot_buffer s x \<or> bot_buffer s y = None)"
    if "bot_end_step env s None x y" using that
  proof cases
    case (Elsewhere e b)
    then show ?thesis using bot_end_buffer [OF bot_step_calm [OF Elsewhere(2,3)] next_sock, of x] by simp
  next
    case (Accepts p b)
    obtain qs where "b = push_frame s (encoded p) (be_bot x\<lparr>bc_posts := qs\<rparr>)" by (rule bot_step_accepts [OF Accepts(2)])
    then show ?thesis using Accepts(1) by (simp add: bot_buffer_def live_def push_frame_fields)
  qed
  show "be_seen y = be_seen x \<and> bot_buffer s y = None" if "bot_end_step env s (Some bytes) x y" "bot_buffer s x = None"
    using that(1)
  proof cases
    case (Reads b)
    then show ?thesis using that(2) bot_end_reads(1) [OF Reads(2) next_sock]
      by (auto simp: bot_buffer_def handled_def split: if_splits)
  qed
  show "be_seen y = be_seen x @ ps \<and> (bot_buffer s y = Some rest \<or> bot_buffer s y = None)"
    if "bot_end_step env s (Some bytes) x y" "bot_buffer s x = Some buf" "Decode (buf @ bytes) = Decoded ps rest"
    using that(1)
  proof cases
    case (Reads b)
    then show ?thesis using that(2,3) bot_end_reads(2) [OF Reads(2) next_sock]
      by (auto simp: bot_buffer_def handled_def split: if_splits)
  qed
qed

subsection \<open>Client and server connected\<close>

interpretation wire: packet_link write_inv conn_step fst conn_submitted conn_got conn_buffer
    "bot_good s" "bot_end_step env s" be_accepted "bot_submitted s" be_seen "bot_buffer s" for s env
  by unfold_locales

text \<open>
  The near end is the server's connection.  It starts when the client is connecting the socket \<open>s\<close>: nothing has
  been queued or written for it, and the buffer is empty.
\<close>

definition wire_step ::
    "'f bot_env \<Rightarrow> sock \<Rightarrow> (Packet list \<times> conn, bot_end) link \<Rightarrow> (Packet list \<times> conn, bot_end) link \<Rightarrow> bool" where
  "wire_step env s = link_step conn_step conn_submitted (bot_end_step env s) (bot_submitted s)"

definition at_connect :: "sock \<Rightarrow> BotClient \<Rightarrow> bool" where
  "at_connect s b \<longleftrightarrow> live s b \<and> Suc s = bc_next_sock b \<and> bc_read_buffer b = [] \<and> bc_write_queue b = [] \<and>
     s \<notin> fst ` set (bc_wire b)"

definition wire_start :: "int \<Rightarrow> BotClient \<Rightarrow> (Packet list \<times> conn, bot_end) link" where
  "wire_start cid b = \<lparr>near = ([], TcpConnection_Start (TcpConnection_new cid)),
     far = \<lparr>be_bot = b, be_accepted = [], be_seen = []\<rparr>, outward = pipe_new, inward = pipe_new\<rparr>"

text \<open>\<open>Connect\<close> leaves a client in such a state.\<close>

lemma at_connect_Connect:
  assumes "io_inv b" and "bc_running b"
  shows "at_connect (bc_next_sock b) (BotClient_Connect resolved reconnect b)"
proof -
  have "bc_next_sock b \<notin> fst ` set (bc_wire b)" using assms(1) by (auto simp: io_inv_def used_socks_def)
  then show ?thesis using assms(2)
    by (simp add: at_connect_def live_def BotClient_Connect_def ScheduleTimer_def count_stat_def Let_def)
qed

text \<open>Every step is calm for a socket that it does not use.\<close>

lemma in_order_step:
  assumes "bot_step env e b b'" and "in_order [] b"
  shows "in_order [] b'"
proof -
  have "\<exists>s. elsewhere s e" by (cases e) (simp_all add: elsewhere_def, (metis n_not_Suc_n)+)
  then show ?thesis using bot_step_calm [OF assms(1)] assms(2) by (auto simp: calm_def)
qed

lemma in_order_reach: "bot_reach env index options stats b \<Longrightarrow> in_order [] b"
proof (erule bot_reach_invariant [where I = "in_order []"])
  show "in_order [] (BotClient_Start resolved (BotClient_new index options stats))" for resolved
    by (simp add: in_order_def BotClient_Start_def BotClient_Connect_def BotClient_new_def ScheduleTimer_def count_stat_def Let_def)
qed (rule in_order_step)

lemma wire_start_inv:
  assumes "bot_reach env index options stats b" and "at_connect s b"
  shows "wire.link_inv s (wire_start cid b)"
proof -
  have "filter (\<lambda>w. fst w = s) (bc_wire b) = []" using assms(2) by (auto simp: at_connect_def filter_empty_conv)
  then have "bot_good s \<lparr>be_bot = b, be_accepted = [], be_seen = []\<rparr>"
    using assms(2) in_order_reach [OF assms(1)]
    by (auto simp: bot_good_def sent_as_def socket_frames_def at_connect_def)
  moreover have "write_inv ([], TcpConnection_Start (TcpConnection_new cid))"
    using write_inv_reach [OF conn_reach.Init] .
  ultimately show ?thesis using assms(2) unfolding wire_start_def
    by (intro wire.link_inv_new)
       (simp_all add: conn_got_def conn_buffer_def bot_buffer_def at_connect_def TcpConnection_Start_def TcpConnection_new_def DoRead_def)
qed

lemma wire_inv:
  assumes "bot_reach env index options stats b" and "at_connect s b" and "(wire_step env s)\<^sup>*\<^sup>* (wire_start cid b) l"
  shows "wire.link_inv s l"
  using wire.link_run_inv [OF assms(3) [unfolded wire_step_def] wire_start_inv [OF assms(1,2)]] .

lemma wire_accepted:
  assumes "wire.link_inv s l"
  shows "subseq (be_accepted (far l)) (bc_built (be_bot (far l)))" "map wire (be_accepted (far l)) = be_accepted (far l)"
proof -
  have o: "in_order (be_accepted (far l)) (be_bot (far l))" using wire.link_invD(2) [OF assms] by (simp add: bot_good_def)
  have "subseq (be_accepted (far l)) (be_accepted (far l) @ sends (bc_posts (be_bot (far l))))" by (rule prefix_imp_subseq) simp
  then show s: "subseq (be_accepted (far l)) (bc_built (be_bot (far l)))"
    using o subseq_order.order_trans unfolding in_order_def by blast
  have "set (be_accepted (far l)) \<subseteq> set (bc_built (be_bot (far l)))"
    using s by (auto elim: list_emb_set)
  then show "map wire (be_accepted (far l)) = be_accepted (far l)" using o by (auto simp: in_order_def intro!: map_idI)
qed

text \<open>No bytes still to come make the decoder throw.\<close>

lemma wire_decodes:
  assumes "wire.link_inv s l"
  shows "reading (snd (near l)) \<Longrightarrow> prefix (arrived (inward l) @ bytes) (on_wire (inward l)) \<Longrightarrow>
      \<exists>ps rest. Decode (read_buffer (snd (near l)) @ bytes) = Decoded ps rest"
    and "live s (be_bot (far l)) \<Longrightarrow> prefix (arrived (outward l) @ bytes) (on_wire (outward l)) \<Longrightarrow>
      \<exists>ps rest. Decode (bc_read_buffer (be_bot (far l)) @ bytes) = Decoded ps rest"
proof -
  note i = wire.link_invD(3,4) [OF assms]
  show "\<exists>ps rest. Decode (read_buffer (snd (near l)) @ bytes) = Decoded ps rest"
    if "reading (snd (near l))" "prefix (arrived (inward l) @ bytes) (on_wire (inward l))"
  proof -
    have "pipe_inv (be_accepted (far l)) (inward l) (conn_got (near l)) (Some (read_buffer (snd (near l))))"
      using i(2) that(1) by (simp add: conn_buffer_def)
    from pipe_inv_arrive [OF this that(2)] show ?thesis by blast
  qed
  show "\<exists>ps rest. Decode (bc_read_buffer (be_bot (far l)) @ bytes) = Decoded ps rest"
    if "live s (be_bot (far l))" "prefix (arrived (outward l) @ bytes) (on_wire (outward l))"
  proof -
    have "pipe_inv (fst (near l)) (outward l) (be_seen (far l)) (Some (bc_read_buffer (be_bot (far l))))"
      using i(1) that(1) by (simp add: bot_buffer_def)
    from pipe_inv_arrive [OF this that(2)] show ?thesis by blast
  qed
qed

subsection \<open>A run\<close>

text \<open>The login request travels to the server in two pieces, the answer comes back in one.\<close>

definition login_answer_packet :: Packet where
  "login_answer_packet = Build (msg_value MSG_LOGIN_RESP) [] 0"

definition wire1 :: "(Packet list \<times> conn, bot_end) link" where
  "wire1 = (wire_start 1 started)\<lparr>far := \<lparr>be_bot = push_frame 0 (encoded login_request) (online\<lparr>bc_posts := []\<rparr>),
     be_accepted = [login_request], be_seen = []\<rparr>,
     inward := \<lparr>on_wire = encoded login_request, arrived = []\<rparr>\<rparr>"

lemma login_encodes: "Encode login_request = Inr (encoded login_request)"
  by (simp add: Encode_eq fits_def login_request_def Build_def)

lemma at_connect_started: "at_connect 0 started"
  by (simp add: at_connect_def live_def started_def BotClient_Start_def BotClient_Connect_def BotClient_new_def Let_def)

lemma conn_step_intros:
  "TcpConnection_Send p (snd x) = Inr c \<Longrightarrow> conn_step None x (fst x @ [p], c)"
  "reading (snd x) \<Longrightarrow> conn_step r x (fst x, on_read r (snd x))"
  by (cases x, simp add: conn_step.intros)+

lemma wire_step_intros:
  "bot_step env e (be_bot (far l)) b \<Longrightarrow> elsewhere s e \<Longrightarrow> wire_step env s l (l\<lparr>far := (far l)\<lparr>be_bot := b\<rparr>\<rparr>)"
  "bot_step env (Bot_accepts s p) (be_bot (far l)) b \<Longrightarrow>
     wire_step env s l (l\<lparr>far := (far l)\<lparr>be_bot := b, be_accepted := be_accepted (far l) @ [p]\<rparr>\<rparr>)"
  "bot_step env (Bot_reads s bytes) (be_bot (far l)) b \<Longrightarrow> prefix (arrived (outward l) @ bytes) (on_wire (outward l)) \<Longrightarrow>
     wire_step env s l (l\<lparr>far := (far l)\<lparr>be_bot := b, be_seen := be_seen (far l) @ handled s bytes (be_bot (far l))\<rparr>,
       outward := (outward l)\<lparr>arrived := arrived (outward l) @ bytes\<rparr>\<rparr>)"
  "prefix (on_wire (inward l)) bytes \<Longrightarrow> prefix bytes (bot_submitted s (far l)) \<Longrightarrow>
     wire_step env s l (l\<lparr>inward := (inward l)\<lparr>on_wire := bytes\<rparr>\<rparr>)"
  "prefix (on_wire (outward l)) bytes \<Longrightarrow> prefix bytes (conn_submitted (near l)) \<Longrightarrow>
     wire_step env s l (l\<lparr>outward := (outward l)\<lparr>on_wire := bytes\<rparr>\<rparr>)"
  "TcpConnection_Send p (snd (near l)) = Inr c \<Longrightarrow> wire_step env s l (l\<lparr>near := (fst (near l) @ [p], c)\<rparr>)"
  "reading (snd (near l)) \<Longrightarrow> prefix (arrived (inward l) @ bytes) (on_wire (inward l)) \<Longrightarrow>
     wire_step env s l (l\<lparr>near := (fst (near l), on_read (Some bytes) (snd (near l))),
       inward := (inward l)\<lparr>arrived := arrived (inward l) @ bytes\<rparr>\<rparr>)"
  unfolding wire_step_def
        apply (rule link_step.Far, erule (1) bot_end_step.Elsewhere)
       apply (rule link_step.Far, erule bot_end_step.Accepts)
      apply (rule link_step.Far_reads, assumption, erule bot_end_step.Reads)
     apply (erule (1) link_step.In)
    apply (erule (1) link_step.Out)
   apply (rule link_step.Near, erule conn_step_intros)
  apply (rule link_step.Near_reads, assumption, erule conn_step_intros)
  done

lemma wire1_run: "(wire_step quiet_env 0)\<^sup>*\<^sup>* (wire_start 1 started) wire1"
proof -
  let ?b = "push_frame 0 (encoded login_request) (online\<lparr>bc_posts := []\<rparr>)"
  define l0 where "l0 = wire_start 1 started"
  define l1 where "l1 = l0\<lparr>far := (far l0)\<lparr>be_bot := online\<rparr>\<rparr>"
  define l2 where "l2 = l1\<lparr>far := (far l1)\<lparr>be_bot := ?b, be_accepted := be_accepted (far l1) @ [login_request]\<rparr>\<rparr>"
  have c: "started\<lparr>bc_connects := remove1 (0, False) (bc_connects started)\<rparr> = started\<lparr>bc_connects := []\<rparr>"
    "\<not> bc_stopped started" "(0, False) \<in> set (bc_connects started)"
    by (simp_all add: started_def BotClient_Start_def BotClient_Connect_def BotClient_new_def Let_def)
  have "bot_step quiet_env Bot_quiet (be_bot (far l0)) online"
    using bot_step.Connected [OF c(2,3), of quiet_env True] by (simp add: c(1) online_def wire_start_def l0_def)
  then have s1: "wire_step quiet_env 0 l0 l1" unfolding l1_def by (rule wire_step_intros(1)) (simp add: elsewhere_def)
  have "run_send login_request (online\<lparr>bc_posts := []\<rparr>) = Inr ?b"
    by (simp add: run_send_def online_pending push_frame_def BotClient_DoWrite_def Let_def login_encodes)
  then have "bot_step quiet_env (send_event login_request online) online ?b"
    by (intro bot_step.Run_send) (simp_all add: online_pending)
  then have "bot_step quiet_env (Bot_accepts 0 login_request) (be_bot (far l1)) ?b"
    by (simp add: send_event_def online_pending l1_def)
  then have s2: "wire_step quiet_env 0 l1 l2" unfolding l2_def by (rule wire_step_intros(2))
  have l: "wire1 = l2\<lparr>inward := (inward l2)\<lparr>on_wire := encoded login_request\<rparr>\<rparr>"
    by (simp add: wire1_def wire_start_def pipe_new_def l0_def l1_def l2_def)
  have s3: "wire_step quiet_env 0 l2 wire1" unfolding l
    by (rule wire_step_intros(4))
      (simp_all add: l0_def l1_def l2_def wire_start_def pipe_new_def bot_submitted_def socket_frames_def push_frame_fields)
  have "(wire_step quiet_env 0)\<^sup>*\<^sup>* l0 l2" using s1 s2 by (rule rtranclp.rtrancl_into_rtrancl [OF r_into_rtranclp])
  then have "(wire_step quiet_env 0)\<^sup>*\<^sup>* l0 wire1" using s3 by (rule rtranclp.rtrancl_into_rtrancl)
  then show ?thesis by (simp only: l0_def)
qed

definition wire2 :: "(Packet list \<times> conn, bot_end) link" where
  "wire2 = wire1\<lparr>near := ([], on_read (Some (take 5 (encoded login_request))) (snd (near wire1))),
     inward := (inward wire1)\<lparr>arrived := take 5 (encoded login_request)\<rparr>\<rparr>"

definition wire3 :: "(Packet list \<times> conn, bot_end) link" where
  "wire3 = wire2\<lparr>near := ([], on_read (Some (drop 5 (encoded login_request))) (snd (near wire2))),
     inward := (inward wire2)\<lparr>arrived := encoded login_request\<rparr>\<rparr>"

lemma wire1_simps [simp]:
  "near wire1 = ([], TcpConnection_Start (TcpConnection_new 1))" "inward wire1 = \<lparr>on_wire = encoded login_request, arrived = []\<rparr>"
  "be_accepted (far wire1) = [login_request]" "outward wire1 = pipe_new"
  "be_bot (far wire1) = push_frame 0 (encoded login_request) (online\<lparr>bc_posts := []\<rparr>)"
  by (simp_all add: wire1_def wire_start_def)

lemma near_wire2: "snd (near wire2) = (TcpConnection_Start (TcpConnection_new 1))\<lparr>read_buffer := take 5 (encoded login_request)\<rparr>"
proof -
  have "Decode (take 5 (encoded login_request)) = Decoded [] (take 5 (encoded login_request))"
    by (simp add: Decode_head [of "take 5 (encoded login_request)"] head_frame_def min.strict_coboundedI2)
  then show ?thesis by (simp add: wire2_def on_read_def TcpConnection_Start_def DoRead_def TcpConnection_new_def)
qed

lemma wire2_step: "wire_step quiet_env 0 wire1 wire2"
  using wire_step_intros(7) [of wire1 "take 5 (encoded login_request)" quiet_env 0]
  by (simp add: wire2_def TcpConnection_Start_def DoRead_def take_is_prefix)

lemma login_request_fits: "fits login_request" "wire login_request = login_request"
  by (simp_all add: fits_def login_request_def Build_def wire_def kPacketMetaSize_def)

lemma near_wire3: "snd (near wire3) = (TcpConnection_Start (TcpConnection_new 1))\<lparr>delivered := [login_request]\<rparr>"
proof -
  have "Decode (encoded login_request) = Decoded [login_request] []"
    using Decode_encoded_append [OF login_request_fits(1), of "[]"] by (simp add: login_request_fits(2))
  then show ?thesis
    by (simp add: wire3_def near_wire2 on_read_def TcpConnection_Start_def DoRead_def TcpConnection_new_def)
qed

lemma wire3_step: "wire_step quiet_env 0 wire2 wire3"
proof -
  have w: "fst (near wire2) = []" "reading (snd (near wire2))" "arrived (inward wire2) = take 5 (encoded login_request)"
    "on_wire (inward wire2) = encoded login_request"
    by (simp_all add: near_wire2 TcpConnection_Start_def DoRead_def) (simp_all add: wire2_def)
  then show ?thesis using wire_step_intros(7) [of wire2 "drop 5 (encoded login_request)" quiet_env 0]
    by (simp add: wire3_def)
qed

lemma wire3_run: "(wire_step quiet_env 0)\<^sup>*\<^sup>* (wire_start 1 started) wire3"
  using wire1_run wire2_step wire3_step by (meson rtranclp.rtrancl_into_rtrancl)

text \<open>The answer.\<close>

definition wire4 :: "(Packet list \<times> conn, bot_end) link" where
  "wire4 = wire3\<lparr>near := ([login_answer_packet], (snd (near wire3))\<lparr>write_queue := [encoded login_answer_packet], writes := [encoded login_answer_packet]\<rparr>),
     outward := \<lparr>on_wire = encoded login_answer_packet, arrived = []\<rparr>\<rparr>"

lemma login_answer_encodes: "Encode login_answer_packet = Inr (encoded login_answer_packet)" "fits login_answer_packet"
    "wire login_answer_packet = login_answer_packet"
  by (simp_all add: Encode_eq fits_def login_answer_packet_def Build_def wire_def kPacketMetaSize_def)

lemma wire4_run: "(wire_step quiet_env 0)\<^sup>*\<^sup>* (wire_start 1 started) wire4"
proof -
  let ?c = "(snd (near wire3))\<lparr>write_queue := [encoded login_answer_packet], writes := [encoded login_answer_packet]\<rparr>"
  define l where "l = wire3\<lparr>near := (fst (near wire3) @ [login_answer_packet], ?c)\<rparr>"
  have w: "fst (near wire3) = []" "outward wire3 = pipe_new" by (simp_all add: wire3_def wire2_def)
  have "TcpConnection_Send login_answer_packet (snd (near wire3)) = Inr ?c"
    by (simp add: near_wire3 TcpConnection_Send_def login_answer_encodes TcpConnection_Start_def DoRead_def TcpConnection_new_def DoWrite_def)
  then have s1: "wire_step quiet_env 0 wire3 l" unfolding l_def by (rule wire_step_intros(6))
  have l: "wire4 = l\<lparr>outward := (outward l)\<lparr>on_wire := encoded login_answer_packet\<rparr>\<rparr>"
    by (simp add: wire4_def l_def w pipe_new_def)
  have s2: "wire_step quiet_env 0 l wire4" unfolding l
    by (rule wire_step_intros(5)) (simp_all add: l_def w pipe_new_def conn_submitted_def near_wire3 TcpConnection_Start_def DoRead_def TcpConnection_new_def)
  show ?thesis using wire3_run s1 s2 by (meson rtranclp.rtrancl_into_rtrancl)
qed

text \<open>The client reads it.\<close>

lemma wire5_run:
  obtains l where "(wire_step quiet_env 0)\<^sup>*\<^sup>* (wire_start 1 started) l" and "live 0 (be_bot (far l))"
    and "near l = near wire4" "be_accepted (far l) = [login_request]" "inward l = inward wire4"
    and "arrived (outward l) = encoded login_answer_packet"
proof -
  let ?b = "be_bot (far wire4)" and ?bytes = "encoded login_answer_packet"
  let ?b1 = "?b\<lparr>bc_reads := remove1 0 (bc_reads ?b)\<rparr>"
  define l where "l = wire4\<lparr>far := (far wire4)\<lparr>be_bot := bot_on_read quiet_env (Some ?bytes) 0 ?b1,
     be_seen := be_seen (far wire4) @ handled 0 ?bytes ?b\<rparr>, outward := (outward wire4)\<lparr>arrived := arrived (outward wire4) @ ?bytes\<rparr>\<rparr>"
  have b: "?b = push_frame 0 (encoded login_request) (online\<lparr>bc_posts := []\<rparr>)" "be_accepted (far wire4) = [login_request]"
    "on_wire (outward wire4) = ?bytes" "arrived (outward wire4) = []"
    by (simp_all add: wire4_def wire3_def wire2_def)
  have f: "\<not> bc_stopped ?b" "0 \<in> set (bc_reads ?b)" "live 0 ?b1" "bc_read_buffer ?b1 = []"
    by (simp_all add: b live_def push_frame_def Let_def)
  have "bot_step quiet_env (Bot_reads 0 ?bytes) ?b (bot_on_read quiet_env (Some ?bytes) 0 ?b1)"
    using bot_step.Read [OF f(1,2), of quiet_env "Some ?bytes"] by (simp add: read_event_def)
  then have "wire_step quiet_env 0 wire4 l" unfolding l_def by (rule wire_step_intros(3)) (simp add: b)
  with wire4_run have r: "(wire_step quiet_env 0)\<^sup>*\<^sup>* (wire_start 1 started) l" by (rule rtranclp.rtrancl_into_rtrancl)
  have d: "Decode ?bytes = Decoded [login_answer_packet] []"
    using Decode_encoded_append [OF login_answer_encodes(2), of "[]"] by (simp add: login_answer_encodes(3))
  have "io_of (BotClient_OnMessage quiet_env p x) = io_of x" for p x
    using io_frame_simps(1) [of quiet_env "[p]" x] by simp
  from io_of_fields(1,3) [OF this] have "live 0 (bot_on_read quiet_env (Some ?bytes) 0 ?b1)"
    using f(3) by (simp add: bot_on_read_def live_def f(4) d BotClient_DoRead_def)
  then show ?thesis using r that by (simp add: l_def b)
qed

subsection \<open>Properties\<close>

text \<open>C7. End to end: whatever the network does and whenever either end fails, the server's connection has
  delivered a prefix of the packets that the client put into the queue of the socket, which are a
  subsequence of those it built, and the client has handled a prefix of the packets that the server sent;
  each side has everything once all its bytes have arrived; and no bytes that can still arrive make
  either decoder throw.\<close>

theorem wire_delivers:
  assumes "bot_reach env index options stats b" and "at_connect s b"
    and "(wire_step env s)\<^sup>*\<^sup>* (wire_start cid b) l"
  shows "let c = snd (near l); sent = fst (near l); x = far l in
    prefix (delivered c) (be_accepted x) \<and> subseq (be_accepted x) (bc_built (be_bot x)) \<and>
    prefix (be_seen x) (map wire sent) \<and>
    (reading c \<longrightarrow>
       (arrived (inward l) = concat (map encoded (be_accepted x)) \<longrightarrow> delivered c = be_accepted x) \<and>
       (\<forall>bytes. prefix (arrived (inward l) @ bytes) (on_wire (inward l)) \<longrightarrow>
          (\<exists>ps rest. Decode (read_buffer c @ bytes) = Decoded ps rest))) \<and>
    (live s (be_bot x) \<longrightarrow>
       (arrived (outward l) = concat (map encoded sent) \<longrightarrow> be_seen x = map wire sent) \<and>
       (\<forall>bytes. prefix (arrived (outward l) @ bytes) (on_wire (outward l)) \<longrightarrow>
          (\<exists>ps rest. Decode (bc_read_buffer (be_bot x) @ bytes) = Decoded ps rest)))"
proof -
  have inv: "wire.link_inv s l" by (rule wire_inv [OF assms])
  note a = wire_accepted [OF inv] and d = wire.delivers [OF inv] and w = wire_decodes [OF inv]
  show ?thesis
    using a d w unfolding Let_def a(2) conn_got_def conn_buffer_def bot_buffer_def by simp
qed

theorem wire_delivers_witness:
  "\<exists>l. (wire_step quiet_env 0)\<^sup>*\<^sup>* (wire_start 1 started) l \<and>
     delivered (snd (near l)) = [login_request] \<and> be_seen (far l) = [login_answer_packet]"
proof -
  obtain l where l: "(wire_step quiet_env 0)\<^sup>*\<^sup>* (wire_start 1 started) l" "live 0 (be_bot (far l))"
    "near l = near wire4" "be_accepted (far l) = [login_request]" "inward l = inward wire4"
    "arrived (outward l) = encoded login_answer_packet"
    by (rule wire5_run)
  have n: "fst (near l) = [login_answer_packet]" "reading (snd (near l))" "arrived (inward l) = encoded login_request"
    by (simp_all add: l(3,5) wire4_def near_wire3 TcpConnection_Start_def DoRead_def) (simp add: wire3_def)
  have r: "bot_reach quiet_env 3 BotOptions_default (Some BotStats_new) started"
    unfolding bot_reach_def started_def using bot_run.Start by blast
  have "delivered (snd (near l)) = be_accepted (far l)" "be_seen (far l) = map wire (fst (near l))"
    using wire_delivers [OF r at_connect_started l(1)] n l(2,4,6) unfolding Let_def by simp_all
  then show ?thesis using l(1,4) n(1) login_answer_encodes(3) by auto
qed

text \<open>C9. The two ends and the network refine a pair of first-in first-out queues of packets: every step of the
  connected system is, in each direction, a sequence of \<open>Put\<close> and \<open>Take\<close> steps of a queue.\<close>

theorem wire_refines_queues:
  assumes "bot_reach env index options stats b" and "at_connect s b"
    and "(wire_step env s)\<^sup>*\<^sup>* (wire_start cid b) l" and "wire_step env s l l'"
  shows "fifo_step\<^sup>*\<^sup>* (be_accepted (far l), delivered (snd (near l))) (be_accepted (far l'), delivered (snd (near l'))) \<and>
    fifo_step\<^sup>*\<^sup>* (map wire (fst (near l)), be_seen (far l)) (map wire (fst (near l')), be_seen (far l'))"
proof -
  have inv: "wire.link_inv s l" by (rule wire_inv [OF assms(1-3)])
  have inv': "wire.link_inv s l'"
    by (rule wire_inv [OF assms(1,2)]) (rule rtranclp.rtrancl_into_rtrancl [OF assms(3,4)])
  show ?thesis
    using wire.refines [OF assms(4) [unfolded wire_step_def] inv]
    unfolding wire_accepted(2) [OF inv] wire_accepted(2) [OF inv'] conn_got_def by simp
qed

theorem wire_refines_queues_witness:
  "wire_step quiet_env 0 wire2 wire3 \<and> fifo_step\<^sup>*\<^sup>* ([login_request], []) ([login_request], [login_request])"
proof -
  have r: "bot_reach quiet_env 3 BotOptions_default (Some BotStats_new) started"
    unfolding bot_reach_def started_def using bot_run.Start by blast
  have l: "(wire_step quiet_env 0)\<^sup>*\<^sup>* (wire_start 1 started) wire2"
    using wire1_run wire2_step by (rule rtranclp.rtrancl_into_rtrancl)
  have "be_accepted (far wire2) = [login_request]" "be_accepted (far wire3) = [login_request]"
    "delivered (snd (near wire2)) = []" "delivered (snd (near wire3)) = [login_request]"
    by (simp_all add: near_wire2 near_wire3 TcpConnection_Start_def DoRead_def TcpConnection_new_def)
      (simp_all add: wire3_def wire2_def)
  then show ?thesis using wire_refines_queues [OF r at_connect_started l wire3_step] wire3_step by simp
qed

end
