(* ===== verification/Spec2Isabelle.thy ===== *)
theory Spec2Isabelle
  imports Packet_Codec Match_Queue Game_Room Net Tcp_Connection Room Cpp_Strings Config_Manager
    Mysql_Client Innodb Player_Repository Battle_Repository Redis_Client Rank_Service
    Settlement_Service Player_Manager Game_Loop Server_State Room_Table Match_Service Room_Manager
    Login_Service Login_Concurrency Message_Dispatcher Timer_Manager Game_Server Settlement_Loop
    Session_Lifecycle Tcp_Server Server_System
    Bot_Client Bot_Steps Bot_Invariants Bot_Reconnect Bot_Properties Bot_Main Bot_Server Bot_Match Bot_Play
    Packet_Channel Wire_Delivery
begin

text \<open>
  A verification development for the C++ game server \<open>cpp-game-room\<close> and its load generator.

  \<^bold>\<open>The program.\<close>  Clients connect over TCP and exchange framed packets (\<open>src/src/net\<close>).  A message
  dispatcher hands each packet to the login service, the match service, the room manager or the rank
  service.  A player logs in, waits in the match queue, is put into a room with others, readies up and
  plays a battle that a fixed-tick loop advances.  When a battle is over its result is settled in
  MySQL, in one transaction, and the leaderboard in Redis is refreshed.  \<open>src/bot\<close> is a second program
  that plays many simulated clients against the server.

  \<^bold>\<open>How the parts meet.\<close>  The services reach each other through \<open>ServiceContext\<close>.  The model has one
  record \<open>server\<close> (\<open>Server_State\<close>) with the state of every service, and a handler is a function on it.
  Shared objects (sessions, rooms) are stored once and addressed by pointers or ids; what a session
  sends is appended to an outbox.  A null pointer is \<open>None\<close>, an exception or an error return is a value
  of a sum or option type, undefined behaviour is a value of its own.  The threads of the server are
  modelled by arbitrary sequences of handler runs (\<open>server_step\<close>), since every component is guarded by
  its own mutex; where a handler leaves a critical section in the middle and this matters, its
  sections are steps of their own (\<open>Login_Concurrency\<close>).

  \<^bold>\<open>The theories\<close> and the sources they model:
  \<^item> \<open>Prelude\<close>: fixed-width integers, hash maps as association lists, shared lemmas.
  \<^item> \<open>Packet_Codec\<close>: \<open>net/packet\<close>, \<open>net/codec\<close>, \<open>protocol/proto_helper\<close>.  \<open>Tcp_Connection\<close>:
    \<open>net/tcp_connection\<close>, the strand of one connection as a transition system.  \<open>Net\<close>: \<open>net/session\<close>,
    \<open>net/connection_manager\<close>, \<open>protocol/message_id\<close>.  \<open>Tcp_Server\<close>: \<open>net/tcp_server\<close>.
  \<^item> \<open>Cpp_Strings\<close> and \<open>Config_Manager\<close>: the library conversions and \<open>config/config_manager\<close>.
  \<^item> \<open>Game_Room\<close>: \<open>game/game_room\<close>, \<open>input_buffer\<close>, \<open>state_sync\<close>.  \<open>Game_Loop\<close>: \<open>game/game_loop\<close>.
  \<^item> \<open>Match_Queue\<close>, \<open>Match_Service\<close>: \<open>match\<close>.  \<open>Room\<close>, \<open>Room_Table\<close>, \<open>Room_Manager\<close>: \<open>room\<close>.
    \<open>Player_Manager\<close>: \<open>player\<close>.
  \<^item> \<open>Mysql_Client\<close>, \<open>Innodb\<close>, \<open>Player_Repository\<close>, \<open>Battle_Repository\<close>, \<open>Redis_Client\<close>: \<open>storage\<close>.
    \<open>Rank_Service\<close>: \<open>rank\<close>.  \<open>Settlement_Service\<close>: \<open>game/settlement_service\<close>.
  \<^item> \<open>Server_State\<close>: \<open>server/service_context\<close>, \<open>util/id_generator\<close>, the members of the services.
    \<open>Login_Service\<close>, \<open>Login_Concurrency\<close>: \<open>login\<close>.  \<open>Message_Dispatcher\<close>: \<open>server/message_dispatcher\<close>
    and every \<open>RegisterHandlers\<close>.  \<open>Timer_Manager\<close>: \<open>timer\<close>.  \<open>Game_Server\<close>, \<open>Settlement_Loop\<close>,
    \<open>Session_Lifecycle\<close>, \<open>Server_System\<close>: \<open>server/game_server\<close> and \<open>main.cpp\<close>.
  \<^item> \<open>Bot_Client\<close>, \<open>Bot_Main\<close>: \<open>src/bot\<close> and \<open>util/random_util\<close>.  \<open>Bot_Steps\<close>, \<open>Bot_Invariants\<close>,
    \<open>Bot_Reconnect\<close>, \<open>Bot_Properties\<close>: the client as a transition system, with its invariants.
    \<open>Bot_Server\<close>, \<open>Bot_Match\<close>, \<open>Bot_Play\<close>: a client and the server together from login to the end of a
    battle, and the clients of one group.
  \<^item> \<open>Packet_Channel\<close>: the contract of an end of a connection, two ends with a network, and the queue of
    packets they refine.  \<open>Wire_Delivery\<close>: the server's \<open>TcpConnection\<close> and a client's socket as such ends.

  \<^bold>\<open>What is shown.\<close>
  \<^item> Wire: encode and decode are inverse on every stream, also one cut into arbitrary reads; the decoder
    never reads outside its buffer; a connection writes in order and never starts a write while one is in
    flight (the writes in flight are a list, so that two could be expressed); a client and the
    server with a network between them that cuts and delays bytes at will refine a first-in first-out
    queue of packets in each direction, and no decoder ever throws on such a stream.
  \<^item> Matching and rooms: the queue neither loses nor duplicates players and serves them in order of arrival,
    also around removals; a match request makes exactly one room, places all its players and leaves
    every other room and player alone; leaving a waiting room returns the others to the queue; a room
    starts at most once.
  \<^item> Battles: health, survivors and the winner; independence of the order of the hash map; the effect
    of one input.
  \<^item> Settlement: under arbitrary database faults a battle is settled exactly once or not at all, without
    faults of MySQL and Redis it is settled, also by a retry, and the leaderboard then agrees with the
    database; a battle that ended with nobody alive never changes a score; over the ticks of the loop a
    finished room goes away only after its settlement.
  \<^item> Sessions: login, reconnect and the end of a connection, in either order, leave the player on the
    newest connection; account creation under concurrency; the tables of the services agree in every
    reachable state of the server.
  \<^item> Load generator: the client respects the rules of Asio, sends its requests in order over all its
    connections, keeps its limits, and agrees with the server after a login, a reconnect, a match or
    ready request and at the end of a battle, together with every other client of the group; its command
    line, read as a list of items, and its main loop.
  Several theorems state what the code does where that is less than it means to do (two ids for one
  account, a drawn battle that is never settled, a stale session entry, a NaN that makes a player
  invulnerable, a client that never replaces a lost connection).

  \<^bold>\<open>Parameters and hypotheses.\<close>
  \<^item> MySQL is the record \<open>mysql_api\<close>.  \<open>innodb\<close> says what the repositories rely on: a statement is applied
    or fails, a transaction is atomic, a lost connection rolls back; \<open>no_faults\<close> that nothing fails.  The
    simulator \<open>sim_api\<close> satisfies both.  Statements are a datatype: building their text is not modelled.
  \<^item> Redis is the record \<open>hiredis\<close> with \<open>redis_laws\<close>, and \<open>redis_no_faults\<close> where progress is claimed; both are
    satisfied by \<open>sim_redis\<close>.
  \<^item> Float arithmetic is the record \<open>float_ops\<close>; \<open>nan_laws\<close> states how a NaN compares, satisfied on
    rationals with a NaN added.
  \<^item> What protobuf generates is the record \<open>parsers\<close> for the server and \<open>bot_env\<close> for the client;
    \<open>protobuf_ok\<close> says that parsing inverts serialising, satisfied by a small text codec (it is stated for all
    integers and strings; what the code serialises is in range).  The random
    numbers of the client are part of \<open>bot_env\<close>; \<open>rng_ok\<close> is the contract of the distribution.

  \<^bold>\<open>Bounds and termination.\<close>  Ids are 64-bit counters.  Where a proof needs fresh ids it assumes that
  enough of them are left: \<open>ids_left_ok\<close> for session ids, \<open>id_need\<close> for the room ids of a match request,
  the budget of \<open>claims_inv\<close> for player ids; after \<open>2 ^ 63\<close> of them the counters would wrap.  No definition
  uses fuel.  \<open>decode_loop\<close> ends since every frame shortens the buffer, \<open>TryCreateRoom\<close> since every
  round takes players from the queue; the endless loops of the threads are modelled one round at a
  time, and the main loop of the load generator is a partial function whose domain is a theorem.

  \<^bold>\<open>Not modelled.\<close>  Threads and sleeping as such, and \<open>thread::join\<close>; the logger; \<open>noncopyable\<close>;
  \<open>NowMs()\<close>, whose readings are arguments; Asio's own work, whose results are arguments of the handlers;
  the usage text and trace lines of the load generator; getters, which are the selectors of the
  records; CMake's generated compiler checks.  The timers of a simulated client may expire in any
  order and at any time, so no property of it depends on real time.
\<close>

end
